(* ===== verification/Prelude.thy ===== *)
theory Prelude
  imports Main "HOL-Library.Word"
begin

unbundle bit_operations_syntax

text \<open>
  What every component shares: the C integer types of \<^verbatim>\<open>kernel/types.h\<close>, the sizes of
  \<^verbatim>\<open>kernel/param.h\<close>, little-endian encoding of integers, and the kernel monad.

  A kernel function of type \<open>('s, 'a) kmon\<close> takes the state and the \<^emph>\<open>schedule\<close>, a list of
  state transformers that stand for what the other CPUs, processes and devices do at the
  points where the code waits (a spinning \<^verbatim>\<open>acquire\<close>, a \<^verbatim>\<open>sleep\<close>). It ends in one of three
  ways: \<open>Ret\<close> with a value, the new state and the unused rest of the schedule; \<open>Panic\<close> with
  the message of the \<^verbatim>\<open>panic()\<close> call; \<open>Blocked\<close>, when it is still waiting after the last
  element of the schedule (or a loop runs out of its fuel), so not returning is a value.
\<close>

section \<open>Integers and sizes\<close>

type_synonym uint8 = "8 word"
type_synonym uint16 = "16 word"
type_synonym uint32 = "32 word"
type_synonym uint64 = "64 word"

abbreviation (input) NPROC :: nat where "NPROC \<equiv> 64"
abbreviation (input) NCPU :: nat where "NCPU \<equiv> 8"
abbreviation (input) NOFILE :: nat where "NOFILE \<equiv> 16"
abbreviation (input) NFILE :: nat where "NFILE \<equiv> 100"
abbreviation (input) NINODE :: nat where "NINODE \<equiv> 50"
abbreviation (input) NDEV :: nat where "NDEV \<equiv> 10"
abbreviation (input) ROOTDEV :: uint32 where "ROOTDEV \<equiv> 1"
abbreviation (input) MAXARG :: nat where "MAXARG \<equiv> 32"
abbreviation (input) MAXOPBLOCKS :: nat where "MAXOPBLOCKS \<equiv> 10"
abbreviation (input) LOGSIZE :: nat where "LOGSIZE \<equiv> MAXOPBLOCKS * 3"
abbreviation (input) NBUF :: nat where "NBUF \<equiv> MAXOPBLOCKS * 3"
abbreviation (input) FSSIZE :: nat where "FSSIZE \<equiv> 2000"
abbreviation (input) MAXPATH :: nat where "MAXPATH \<equiv> 128"

section \<open>The kernel monad\<close>

datatype ('s, 'a) res = Ret 'a 's "('s \<Rightarrow> 's) list" | Panic string 's | Blocked 's

type_synonym 's env = "('s \<Rightarrow> 's) list"
type_synonym ('s, 'a) kmon = "'s \<Rightarrow> 's env \<Rightarrow> ('s, 'a) res"

definition ret :: "'a \<Rightarrow> ('s, 'a) kmon" where
  "ret a = (\<lambda>s e. Ret a s e)"

definition bind :: "('s, 'a) kmon \<Rightarrow> ('a \<Rightarrow> ('s, 'b) kmon) \<Rightarrow> ('s, 'b) kmon" where
  "bind m f = (\<lambda>s e. case m s e of Ret a s' e' \<Rightarrow> f a s' e'
     | Panic msg s' \<Rightarrow> Panic msg s' | Blocked s' \<Rightarrow> Blocked s')"

abbreviation (input) andthen :: "('s, 'a) kmon \<Rightarrow> ('s, 'b) kmon \<Rightarrow> ('s, 'b) kmon" where
  "andthen m n \<equiv> bind m (\<lambda>_. n)"

definition gets :: "('s \<Rightarrow> 'a) \<Rightarrow> ('s, 'a) kmon" where
  "gets f = (\<lambda>s e. Ret (f s) s e)"

definition modify :: "('s \<Rightarrow> 's) \<Rightarrow> ('s, unit) kmon" where
  "modify f = (\<lambda>s e. Ret () (f s) e)"

definition panic :: "string \<Rightarrow> ('s, 'a) kmon" where
  "panic msg = (\<lambda>s e. Panic msg s)"

definition blocked :: "('s, 'a) kmon" where
  "blocked = (\<lambda>s e. Blocked s)"

text \<open>Let the others move once; with an empty schedule the wait never ends.\<close>

definition env_step :: "('s, unit) kmon" where
  "env_step = (\<lambda>s e. case e of [] \<Rightarrow> Blocked s | f # e' \<Rightarrow> Ret () (f s) e')"

definition whenM :: "bool \<Rightarrow> ('s, unit) kmon \<Rightarrow> ('s, unit) kmon" where
  "whenM c m = (if c then m else ret ())"

text \<open>
  Loops. \<open>for_each\<close> is a counting loop, \<open>for_find\<close> one that may return early (\<open>Some\<close>), and
  \<open>loop\<close> a \<^verbatim>\<open>while\<close> or \<^verbatim>\<open>for(;;)\<close> whose body says with \<open>Inl\<close> to go round again and with
  \<open>Inr\<close> to leave; its fuel bounds the rounds. \<open>wait_loop\<close> is the \<^verbatim>\<open>while(c) sleep(..)\<close> shape:
  a round that goes on uses up an element of the schedule, so the length of the schedule
  bounds the rounds.
\<close>

primrec for_each :: "'i list \<Rightarrow> ('i \<Rightarrow> ('s, unit) kmon) \<Rightarrow> ('s, unit) kmon" where
  "for_each [] body = ret ()"
| "for_each (i # is) body = bind (body i) (\<lambda>_. for_each is body)"

primrec for_find :: "'i list \<Rightarrow> ('i \<Rightarrow> ('s, 'r option) kmon) \<Rightarrow> ('s, 'r option) kmon" where
  "for_find [] body = ret None"
| "for_find (i # is) body =
     bind (body i) (\<lambda>r. case r of None \<Rightarrow> for_find is body | Some x \<Rightarrow> ret (Some x))"

primrec loop :: "nat \<Rightarrow> ('i \<Rightarrow> ('s, 'i + 'r) kmon) \<Rightarrow> 'i \<Rightarrow> ('s, 'r) kmon" where
  "loop 0 body i = blocked"
| "loop (Suc n) body i =
     bind (body i) (\<lambda>r. case r of Inl i' \<Rightarrow> loop n body i' | Inr x \<Rightarrow> ret x)"

definition wait_loop :: "nat \<Rightarrow> ('i \<Rightarrow> ('s, 'i + 'r) kmon) \<Rightarrow> 'i \<Rightarrow> ('s, 'r) kmon" where
  "wait_loop n body i = (\<lambda>s e. loop (Suc (n + length e)) body i s e)"

named_theorems kmon_simps \<open>symbolic execution of kernel functions\<close>

lemma bind_apply [kmon_simps]:
  "bind m f s e = (case m s e of Ret a s' e' \<Rightarrow> f a s' e'
     | Panic msg s' \<Rightarrow> Panic msg s' | Blocked s' \<Rightarrow> Blocked s')"
  by (simp add: bind_def)

lemma bind_Ret: "m s e = Ret a s' e' \<Longrightarrow> bind m f s e = f a s' e'"
  by (simp add: bind_def)

lemma ret_apply [kmon_simps]: "ret a s e = Ret a s e"
  by (simp add: ret_def)

lemma gets_apply [kmon_simps]: "gets f s e = Ret (f s) s e"
  by (simp add: gets_def)

lemma modify_apply [kmon_simps]: "modify f s e = Ret () (f s) e"
  by (simp add: modify_def)

lemma panic_apply [kmon_simps]: "panic msg s e = Panic msg s"
  by (simp add: panic_def)

lemma blocked_apply [kmon_simps]: "blocked s e = Blocked s"
  by (simp add: blocked_def)

lemma env_step_Cons [kmon_simps]: "env_step s (f # e) = Ret () (f s) e"
  by (simp add: env_step_def)

lemma env_step_Nil [kmon_simps]: "env_step s [] = Blocked s"
  by (simp add: env_step_def)

lemma whenM_True [kmon_simps]: "c \<Longrightarrow> whenM c m = m"
  by (simp add: whenM_def)

lemma whenM_False [kmon_simps]: "\<not> c \<Longrightarrow> whenM c m = ret ()"
  by (simp add: whenM_def)

lemma for_each_Nil_apply [kmon_simps]: "for_each [] body s e = Ret () s e"
  by (simp add: ret_def)

lemma for_find_Nil_apply [kmon_simps]: "for_find [] body s e = Ret None s e"
  by (simp add: ret_def)

lemma bind_ret [simp]: "bind (ret a) f = f a"
  by (simp add: bind_def ret_def)

lemma bind_assoc: "bind (bind m f) g = bind m (\<lambda>a. bind (f a) g)"
  by (intro ext) (simp add: bind_def split: res.split)

lemma bind_eq_Ret_iff:
  "bind m f s e = Ret b s'' e'' \<longleftrightarrow> (\<exists>a s' e'. m s e = Ret a s' e' \<and> f a s' e' = Ret b s'' e'')"
  by (auto simp: bind_def split: res.splits)

lemma bind_RetE:
  assumes "bind m f s e = Ret b s'' e''"
  obtains a s' e' where "m s e = Ret a s' e'" and "f a s' e' = Ret b s'' e''"
  using assms by (auto simp: bind_eq_Ret_iff)

lemmas kmon_ret_iff = bind_eq_Ret_iff ret_apply gets_apply modify_apply panic_apply blocked_apply

text \<open>
  \<open>runs m s e Q\<close> is total correctness: from \<open>s\<close> and \<open>e\<close> the function returns, and what it
  returns satisfies \<open>Q\<close>. \<open>keeps P m\<close> says that \<open>m\<close> preserves \<open>P\<close> whenever it returns and the
  schedule preserves \<open>P\<close> too.
\<close>

definition runs :: "('s, 'a) kmon \<Rightarrow> 's \<Rightarrow> 's env \<Rightarrow> ('a \<Rightarrow> 's \<Rightarrow> 's env \<Rightarrow> bool) \<Rightarrow> bool" where
  "runs m s e Q \<longleftrightarrow> (\<exists>a s' e'. m s e = Ret a s' e' \<and> Q a s' e')"

definition env_keeps :: "('s \<Rightarrow> bool) \<Rightarrow> 's env \<Rightarrow> bool" where
  "env_keeps P e \<longleftrightarrow> (\<forall>f \<in> set e. \<forall>s. P s \<longrightarrow> P (f s))"

definition keeps :: "('s \<Rightarrow> bool) \<Rightarrow> ('s, 'a) kmon \<Rightarrow> bool" where
  "keeps P m \<longleftrightarrow> (\<forall>s e a s' e'. P s \<longrightarrow> env_keeps P e \<longrightarrow> m s e = Ret a s' e' \<longrightarrow>
     P s' \<and> env_keeps P e')"

named_theorems keeps_intros \<open>rules that a function keeps an invariant\<close>

lemma runsI: "m s e = Ret a s' e' \<Longrightarrow> Q a s' e' \<Longrightarrow> runs m s e Q"
  by (auto simp: runs_def)

lemma runs_bind: "runs m s e (\<lambda>a s' e'. runs (f a) s' e' Q) \<Longrightarrow> runs (bind m f) s e Q"
  by (auto simp: runs_def bind_def split: res.splits)

lemma runs_mono: "runs m s e Q \<Longrightarrow> (\<And>a s' e'. Q a s' e' \<Longrightarrow> R a s' e') \<Longrightarrow> runs m s e R"
  by (auto simp: runs_def)

lemma keepsD:
  "keeps P m \<Longrightarrow> m s e = Ret a s' e' \<Longrightarrow> P s \<Longrightarrow> env_keeps P e \<Longrightarrow> P s'"
  unfolding keeps_def by blast

lemma keeps_ret [keeps_intros]: "keeps P (ret a)"
  by (simp add: keeps_def ret_def)

lemma keeps_gets [keeps_intros]: "keeps P (gets f)"
  by (simp add: keeps_def gets_def)

lemma keeps_panic [keeps_intros]: "keeps P (panic msg)"
  by (simp add: keeps_def panic_def)

lemma keeps_blocked [keeps_intros]: "keeps P blocked"
  by (simp add: keeps_def blocked_def)

lemma keeps_env_step [keeps_intros]: "keeps P env_step"
  by (auto simp: keeps_def env_step_def env_keeps_def split: list.splits)

lemma keeps_bind [keeps_intros]: "keeps P m \<Longrightarrow> (\<And>a. keeps P (f a)) \<Longrightarrow> keeps P (bind m f)"
  unfolding keeps_def bind_eq_Ret_iff by blast

lemma keeps_if [keeps_intros]: "keeps P m \<Longrightarrow> keeps P n \<Longrightarrow> keeps P (if c then m else n)"
  by simp

lemma keeps_whenM [keeps_intros]: "keeps P m \<Longrightarrow> keeps P (whenM c m)"
  by (simp add: whenM_def keeps_ret)

lemma keeps_case_option [keeps_intros]:
  "keeps P m \<Longrightarrow> (\<And>x. keeps P (f x)) \<Longrightarrow> keeps P (case v of None \<Rightarrow> m | Some x \<Rightarrow> f x)"
  by (simp split: option.splits)

lemma keeps_case_sum [keeps_intros]:
  "(\<And>x. keeps P (f x)) \<Longrightarrow> (\<And>x. keeps P (g x)) \<Longrightarrow> keeps P (case v of Inl x \<Rightarrow> f x | Inr x \<Rightarrow> g x)"
  by (simp split: sum.splits)

lemma keeps_case_prod [keeps_intros]:
  "(\<And>x y. keeps P (f x y)) \<Longrightarrow> keeps P (case v of (x, y) \<Rightarrow> f x y)"
  by (simp split: prod.splits)

lemma keeps_for_each [keeps_intros]: "(\<And>i. keeps P (body i)) \<Longrightarrow> keeps P (for_each is body)"
  by (induction "is") (simp_all add: keeps_ret keeps_bind)

lemma keeps_for_find [keeps_intros]: "(\<And>i. keeps P (body i)) \<Longrightarrow> keeps P (for_find is body)"
  by (induction "is") (simp_all add: keeps_ret keeps_bind keeps_case_option)

lemma keeps_loop [keeps_intros]: "(\<And>i. keeps P (body i)) \<Longrightarrow> keeps P (loop n body i)"
  by (induction n arbitrary: i) (simp_all add: keeps_blocked keeps_bind keeps_case_sum keeps_ret)

lemma keeps_wait_loop [keeps_intros]:
  "(\<And>i. keeps P (body i)) \<Longrightarrow> keeps P (wait_loop n body i)"
  using keeps_loop [of P body] unfolding keeps_def wait_loop_def by blast

lemma keeps_modify [keeps_intros]: "(\<And>s. P s \<Longrightarrow> P (f s)) \<Longrightarrow> keeps P (modify f)"
  by (simp add: keeps_def modify_def)

text \<open>Scans that do not change the state until they find what they look for, and loops of updates.\<close>

lemma for_find_apply:
  assumes "\<And>i. i \<in> set is \<Longrightarrow>
    body i s e = (if P i then Ret (Some (r i)) (g i) e else Ret None s e)"
  shows "for_find is body s e = (case find P is of None \<Rightarrow> Ret None s e | Some i \<Rightarrow> Ret (Some (r i)) (g i) e)"
  using assms by (induction "is") (simp_all add: bind_apply ret_apply)

lemma for_each_apply:
  assumes "I s" and "\<And>i t. i \<in> set is \<Longrightarrow> I t \<Longrightarrow> body i t e = Ret () (g i t) e \<and> I (g i t)"
  shows "for_each is body s e = Ret () (fold g is s) e \<and> I (fold g is s)"
  using assms by (induction "is" arbitrary: s) (simp_all add: bind_apply ret_apply)

lemma for_each_append:
  "for_each (xs @ ys) body = bind (for_each xs body) (\<lambda>_. for_each ys body)"
  by (induction xs) (simp_all add: bind_assoc)

section \<open>Words and natural numbers\<close>

lemma unat_of_nat_eq: "n < 2 ^ LENGTH('a) \<Longrightarrow> unat (of_nat n :: 'a::len word) = n"
  by (simp add: unsigned_of_nat take_bit_nat_eq_self)

lemma unat_add_nat:
  assumes "unat (a :: 'a::len word) + n < 2 ^ LENGTH('a)"
  shows "unat (a + of_nat n) = unat a + n"
proof -
  have n: "unat (of_nat n :: 'a word) = n" using assms by (intro unat_of_nat_eq) simp
  then show ?thesis using assms unat_add_lem [of a "of_nat n"] by simp
qed

section \<open>Little-endian encoding\<close>

text \<open>The bytes of an integer as a little-endian machine stores them, and back.\<close>

definition le_bytes :: "nat \<Rightarrow> 'a::len word \<Rightarrow> uint8 list" where
  "le_bytes n w = map (\<lambda>i. ucast (drop_bit (8 * i) w)) [0..<n]"

fun of_le :: "uint8 list \<Rightarrow> 'a::len word" where
  "of_le [] = 0"
| "of_le (b # bs) = ucast b OR push_bit 8 (of_le bs)"

lemma length_le_bytes [simp]: "length (le_bytes n w) = n"
  by (simp add: le_bytes_def)

lemma bit_of_le:
  "bit (of_le bs :: 'a::len word) k \<longleftrightarrow>
     k < LENGTH('a) \<and> k div 8 < length bs \<and> bit (bs ! (k div 8)) (k mod 8)"
proof (induction bs arbitrary: k)
  case Nil
  then show ?case by simp
next
  case (Cons b bs)
  show ?case
  proof (cases "k < 8")
    case True
    then show ?thesis by (simp add: bit_simps)
  next
    case False
    then have "k div 8 = Suc ((k - 8) div 8)" and "k mod 8 = (k - 8) mod 8"
      by (simp_all add: le_div_geq le_mod_geq)
    moreover have "bit b k = False" using False bit_imp_le_length [of b k] by auto
    ultimately show ?thesis using False Cons [of "k - 8"]
      by (auto simp: bit_simps dest: bit_imp_le_length)
  qed
qed

lemma nth_le_bytes: "i < n \<Longrightarrow> le_bytes n w ! i = ucast (drop_bit (8 * i) w)"
  by (simp add: le_bytes_def)

lemma of_le_le_bytes:
  assumes "LENGTH('a) \<le> 8 * n"
  shows "of_le (le_bytes n w) = (w :: 'a::len word)"
proof (rule bit_word_eqI)
  fix k assume k: "k < LENGTH('a)"
  then have "k div 8 < n" using assms by linarith
  moreover have "8 * (k div 8) + k mod 8 = k" by simp
  ultimately show "bit (of_le (le_bytes n w) :: 'a word) k \<longleftrightarrow> bit w k"
    using k by (simp add: bit_of_le nth_le_bytes bit_simps add.commute) arith
qed

lemma le_bytes_of_le:
  assumes "length bs = n" and "8 * n \<le> LENGTH('a)"
  shows "le_bytes n (of_le bs :: 'a::len word) = bs"
proof (rule nth_equalityI)
  show "length (le_bytes n (of_le bs :: 'a word)) = length bs" using assms by simp
  fix i assume "i < length (le_bytes n (of_le bs :: 'a word))"
  then have i: "i < n" by simp
  show "le_bytes n (of_le bs :: 'a word) ! i = bs ! i"
  proof (rule bit_word_eqI)
    fix k assume "k < LENGTH(8)"
    then have k: "k < 8" by simp
    have "8 * i + k < LENGTH('a)" using i k assms(2) by linarith
    moreover have "(8 * i + k) div 8 = i" and "(8 * i + k) mod 8 = k" using k by simp_all
    ultimately show "bit (le_bytes n (of_le bs :: 'a word) ! i) k \<longleftrightarrow> bit (bs ! i) k"
      using i k assms(1) by (simp add: nth_le_bytes bit_simps bit_of_le)
  qed
qed

section \<open>Bytes in a list\<close>

text \<open>\<open>getb\<close> and \<open>putb\<close> read and overwrite a range of a byte array.\<close>

definition getb :: "'a list \<Rightarrow> nat \<Rightarrow> nat \<Rightarrow> 'a list" where
  "getb bs off n = take n (drop off bs)"

definition putb :: "'a list \<Rightarrow> nat \<Rightarrow> 'a list \<Rightarrow> 'a list" where
  "putb bs off xs = take off bs @ xs @ drop (off + length xs) bs"

lemma length_getb [simp]: "off + n \<le> length bs \<Longrightarrow> length (getb bs off n) = n"
  by (simp add: getb_def)

lemma length_putb [simp]: "off + length xs \<le> length bs \<Longrightarrow> length (putb bs off xs) = length bs"
  by (simp add: putb_def)

lemma nth_putb:
  "off + length xs \<le> length bs \<Longrightarrow> i < length bs \<Longrightarrow>
   putb bs off xs ! i = (if off \<le> i \<and> i < off + length xs then xs ! (i - off) else bs ! i)"
  by (auto simp: putb_def nth_append min_def)

lemma nth_getb: "off + n \<le> length bs \<Longrightarrow> i < n \<Longrightarrow> getb bs off n ! i = bs ! (off + i)"
  by (simp add: getb_def)

lemma getb_putb_same [simp]:
  "off + length xs \<le> length bs \<Longrightarrow> n = length xs \<Longrightarrow> getb (putb bs off xs) off n = xs"
  by (auto intro!: nth_equalityI simp: nth_getb nth_putb)

lemma getb_putb_disjoint:
  "off + length xs \<le> length bs \<Longrightarrow> off' + n \<le> length bs \<Longrightarrow>
   off' + n \<le> off \<or> off + length xs \<le> off' \<Longrightarrow> getb (putb bs off xs) off' n = getb bs off' n"
  by (auto intro!: nth_equalityI simp: nth_getb nth_putb)

end
