(* ===== verification/Riscv.thy ===== *)
theory Riscv
  imports Prelude
begin

text \<open>
  The machine the kernel runs on, as \<^verbatim>\<open>kernel/riscv.h\<close> and \<^verbatim>\<open>kernel/memlayout.h\<close> present it:
  the control and status registers of a hart with one accessor per inline function, the
  interrupt-enable bit, the physical memory layout, and the macros of the Sv39 page-table
  format. The state of every later component extends the record \<open>mach\<close>; its field \<open>cur\<close> is
  the hart that executes.
\<close>

section \<open>Harts and their registers\<close>

record hart =
  csr_mstatus :: uint64
  csr_mepc :: uint64
  csr_sstatus :: uint64
  csr_sip :: uint64
  csr_sie :: uint64
  csr_mie :: uint64
  csr_sepc :: uint64
  csr_medeleg :: uint64
  csr_mideleg :: uint64
  csr_stvec :: uint64
  csr_mtvec :: uint64
  csr_pmpcfg0 :: uint64
  csr_pmpaddr0 :: uint64
  csr_satp :: uint64
  csr_mscratch :: uint64
  csr_scause :: uint64
  csr_stval :: uint64
  csr_mcounteren :: uint64
  csr_mtime :: uint64
  csr_sp :: uint64
  csr_tp :: uint64
  csr_ra :: uint64

record mach =
  harts :: "nat \<Rightarrow> hart"
  cur :: nat

definition upd_hart :: "(hart \<Rightarrow> hart) \<Rightarrow> 'a mach_scheme \<Rightarrow> 'a mach_scheme" where
  "upd_hart f s = s\<lparr>harts := (harts s)(cur s := f (harts s (cur s)))\<rparr>"

definition rd :: "(hart \<Rightarrow> uint64) \<Rightarrow> ('a mach_scheme, uint64) kmon" where
  "rd field = gets (\<lambda>s. field (harts s (cur s)))"

definition r_mhartid :: "('a mach_scheme, uint64) kmon" where
  "r_mhartid = gets (\<lambda>s. of_nat (cur s))"

definition r_mstatus :: "('a mach_scheme, uint64) kmon" where
  "r_mstatus = rd csr_mstatus"

definition w_mstatus :: "uint64 \<Rightarrow> ('a mach_scheme, unit) kmon" where
  "w_mstatus x = modify (upd_hart (csr_mstatus_update (\<lambda>_. x)))"

definition w_mepc :: "uint64 \<Rightarrow> ('a mach_scheme, unit) kmon" where
  "w_mepc x = modify (upd_hart (csr_mepc_update (\<lambda>_. x)))"

definition r_sstatus :: "('a mach_scheme, uint64) kmon" where
  "r_sstatus = rd csr_sstatus"

definition w_sstatus :: "uint64 \<Rightarrow> ('a mach_scheme, unit) kmon" where
  "w_sstatus x = modify (upd_hart (csr_sstatus_update (\<lambda>_. x)))"

definition r_sip :: "('a mach_scheme, uint64) kmon" where
  "r_sip = rd csr_sip"

definition w_sip :: "uint64 \<Rightarrow> ('a mach_scheme, unit) kmon" where
  "w_sip x = modify (upd_hart (csr_sip_update (\<lambda>_. x)))"

definition r_sie :: "('a mach_scheme, uint64) kmon" where
  "r_sie = rd csr_sie"

definition w_sie :: "uint64 \<Rightarrow> ('a mach_scheme, unit) kmon" where
  "w_sie x = modify (upd_hart (csr_sie_update (\<lambda>_. x)))"

definition r_mie :: "('a mach_scheme, uint64) kmon" where
  "r_mie = rd csr_mie"

definition w_mie :: "uint64 \<Rightarrow> ('a mach_scheme, unit) kmon" where
  "w_mie x = modify (upd_hart (csr_mie_update (\<lambda>_. x)))"

definition r_sepc :: "('a mach_scheme, uint64) kmon" where
  "r_sepc = rd csr_sepc"

definition w_sepc :: "uint64 \<Rightarrow> ('a mach_scheme, unit) kmon" where
  "w_sepc x = modify (upd_hart (csr_sepc_update (\<lambda>_. x)))"

definition r_medeleg :: "('a mach_scheme, uint64) kmon" where
  "r_medeleg = rd csr_medeleg"

definition w_medeleg :: "uint64 \<Rightarrow> ('a mach_scheme, unit) kmon" where
  "w_medeleg x = modify (upd_hart (csr_medeleg_update (\<lambda>_. x)))"

definition r_mideleg :: "('a mach_scheme, uint64) kmon" where
  "r_mideleg = rd csr_mideleg"

definition w_mideleg :: "uint64 \<Rightarrow> ('a mach_scheme, unit) kmon" where
  "w_mideleg x = modify (upd_hart (csr_mideleg_update (\<lambda>_. x)))"

definition r_stvec :: "('a mach_scheme, uint64) kmon" where
  "r_stvec = rd csr_stvec"

definition w_stvec :: "uint64 \<Rightarrow> ('a mach_scheme, unit) kmon" where
  "w_stvec x = modify (upd_hart (csr_stvec_update (\<lambda>_. x)))"

definition w_mtvec :: "uint64 \<Rightarrow> ('a mach_scheme, unit) kmon" where
  "w_mtvec x = modify (upd_hart (csr_mtvec_update (\<lambda>_. x)))"

definition w_pmpcfg0 :: "uint64 \<Rightarrow> ('a mach_scheme, unit) kmon" where
  "w_pmpcfg0 x = modify (upd_hart (csr_pmpcfg0_update (\<lambda>_. x)))"

definition w_pmpaddr0 :: "uint64 \<Rightarrow> ('a mach_scheme, unit) kmon" where
  "w_pmpaddr0 x = modify (upd_hart (csr_pmpaddr0_update (\<lambda>_. x)))"

definition r_satp :: "('a mach_scheme, uint64) kmon" where
  "r_satp = rd csr_satp"

definition w_satp :: "uint64 \<Rightarrow> ('a mach_scheme, unit) kmon" where
  "w_satp x = modify (upd_hart (csr_satp_update (\<lambda>_. x)))"

definition w_mscratch :: "uint64 \<Rightarrow> ('a mach_scheme, unit) kmon" where
  "w_mscratch x = modify (upd_hart (csr_mscratch_update (\<lambda>_. x)))"

definition r_scause :: "('a mach_scheme, uint64) kmon" where
  "r_scause = rd csr_scause"

definition r_stval :: "('a mach_scheme, uint64) kmon" where
  "r_stval = rd csr_stval"

definition r_mcounteren :: "('a mach_scheme, uint64) kmon" where
  "r_mcounteren = rd csr_mcounteren"

definition w_mcounteren :: "uint64 \<Rightarrow> ('a mach_scheme, unit) kmon" where
  "w_mcounteren x = modify (upd_hart (csr_mcounteren_update (\<lambda>_. x)))"

definition r_time :: "('a mach_scheme, uint64) kmon" where
  "r_time = rd csr_mtime"

definition r_sp :: "('a mach_scheme, uint64) kmon" where
  "r_sp = rd csr_sp"

definition r_tp :: "('a mach_scheme, uint64) kmon" where
  "r_tp = rd csr_tp"

definition w_tp :: "uint64 \<Rightarrow> ('a mach_scheme, unit) kmon" where
  "w_tp x = modify (upd_hart (csr_tp_update (\<lambda>_. x)))"

definition r_ra :: "('a mach_scheme, uint64) kmon" where
  "r_ra = rd csr_ra"

text \<open>The \<^verbatim>\<open>sfence.vma\<close> instruction orders translations after page-table writes; translation is
  always through memory here, so it changes nothing.\<close>

definition sfence_vma :: "('a mach_scheme, unit) kmon" where
  "sfence_vma = ret ()"

section \<open>Register bits\<close>

abbreviation (input) MSTATUS_MPP_MASK :: uint64 where "MSTATUS_MPP_MASK \<equiv> push_bit 11 3"
abbreviation (input) MSTATUS_MPP_S :: uint64 where "MSTATUS_MPP_S \<equiv> push_bit 11 1"
abbreviation (input) MSTATUS_MIE :: uint64 where "MSTATUS_MIE \<equiv> push_bit 3 1"
abbreviation (input) SSTATUS_SPP :: uint64 where "SSTATUS_SPP \<equiv> push_bit 8 1"
abbreviation (input) SSTATUS_SPIE :: uint64 where "SSTATUS_SPIE \<equiv> push_bit 5 1"
abbreviation (input) SSTATUS_SIE :: uint64 where "SSTATUS_SIE \<equiv> push_bit 1 1"
abbreviation (input) SIE_SEIE :: uint64 where "SIE_SEIE \<equiv> push_bit 9 1"
abbreviation (input) SIE_STIE :: uint64 where "SIE_STIE \<equiv> push_bit 5 1"
abbreviation (input) SIE_SSIE :: uint64 where "SIE_SSIE \<equiv> push_bit 1 1"
abbreviation (input) MIE_MTIE :: uint64 where "MIE_MTIE \<equiv> push_bit 7 1"

definition SATP_SV39 :: uint64 where
  "SATP_SV39 = push_bit 60 8"

definition MAKE_SATP :: "uint64 \<Rightarrow> uint64" where
  "MAKE_SATP pagetable = SATP_SV39 OR drop_bit 12 pagetable"

definition intr_on :: "('a mach_scheme, unit) kmon" where
  "intr_on = bind r_sstatus (\<lambda>x. w_sstatus (x OR SSTATUS_SIE))"

definition intr_off :: "('a mach_scheme, unit) kmon" where
  "intr_off = bind r_sstatus (\<lambda>x. w_sstatus (x AND NOT SSTATUS_SIE))"

definition intr_get :: "('a mach_scheme, bool) kmon" where
  "intr_get = bind r_sstatus (\<lambda>x. ret (x AND SSTATUS_SIE \<noteq> 0))"

section \<open>Physical memory layout\<close>

abbreviation (input) UART0 :: uint64 where "UART0 \<equiv> 0x10000000"
abbreviation (input) UART0_IRQ :: uint32 where "UART0_IRQ \<equiv> 10"
abbreviation (input) VIRTIO0 :: uint64 where "VIRTIO0 \<equiv> 0x10001000"
abbreviation (input) VIRTIO0_IRQ :: uint32 where "VIRTIO0_IRQ \<equiv> 1"
abbreviation (input) CLINT :: uint64 where "CLINT \<equiv> 0x2000000"
abbreviation (input) CLINT_MTIME :: uint64 where "CLINT_MTIME \<equiv> CLINT + 0xBFF8"
abbreviation (input) PLIC :: uint64 where "PLIC \<equiv> 0x0c000000"
abbreviation (input) KERNBASE :: uint64 where "KERNBASE \<equiv> 0x80000000"
abbreviation (input) PHYSTOP :: uint64 where "PHYSTOP \<equiv> KERNBASE + 128*1024*1024"

definition CLINT_MTIMECMP :: "uint64 \<Rightarrow> uint64" where
  "CLINT_MTIMECMP hartid = CLINT + 0x4000 + 8 * hartid"

definition PLIC_SENABLE :: "uint64 \<Rightarrow> uint64" where
  "PLIC_SENABLE hart = PLIC + 0x2080 + hart * 0x100"

definition PLIC_SPRIORITY :: "uint64 \<Rightarrow> uint64" where
  "PLIC_SPRIORITY hart = PLIC + 0x201000 + hart * 0x2000"

definition PLIC_SCLAIM :: "uint64 \<Rightarrow> uint64" where
  "PLIC_SCLAIM hart = PLIC + 0x201004 + hart * 0x2000"

section \<open>Pages and page-table entries\<close>

abbreviation (input) PGSIZE :: uint64 where "PGSIZE \<equiv> 4096"
abbreviation (input) PGSHIFT :: nat where "PGSHIFT \<equiv> 12"

definition PGROUNDUP :: "uint64 \<Rightarrow> uint64" where
  "PGROUNDUP sz = (sz + PGSIZE - 1) AND NOT (PGSIZE - 1)"

definition PGROUNDDOWN :: "uint64 \<Rightarrow> uint64" where
  "PGROUNDDOWN a = a AND NOT (PGSIZE - 1)"

abbreviation (input) PTE_V :: uint64 where "PTE_V \<equiv> 1"
abbreviation (input) PTE_R :: uint64 where "PTE_R \<equiv> 2"
abbreviation (input) PTE_W :: uint64 where "PTE_W \<equiv> 4"
abbreviation (input) PTE_X :: uint64 where "PTE_X \<equiv> 8"
abbreviation (input) PTE_U :: uint64 where "PTE_U \<equiv> 16"

definition PA2PTE :: "uint64 \<Rightarrow> uint64" where
  "PA2PTE pa = push_bit 10 (drop_bit 12 pa)"

definition PTE2PA :: "uint64 \<Rightarrow> uint64" where
  "PTE2PA pte = push_bit 12 (drop_bit 10 pte)"

definition PTE_FLAGS :: "uint64 \<Rightarrow> uint64" where
  "PTE_FLAGS pte = pte AND 0x3FF"

definition PXSHIFT :: "nat \<Rightarrow> nat" where
  "PXSHIFT level = PGSHIFT + 9 * level"

definition PX :: "nat \<Rightarrow> uint64 \<Rightarrow> uint64" where
  "PX level va = drop_bit (PXSHIFT level) va AND 0x1FF"

abbreviation (input) MAXVA :: uint64 where "MAXVA \<equiv> push_bit (9 + 9 + 9 + 12 - 1) 1"
abbreviation (input) TRAMPOLINE :: uint64 where "TRAMPOLINE \<equiv> MAXVA - PGSIZE"
abbreviation (input) TRAPFRAME :: uint64 where "TRAPFRAME \<equiv> TRAMPOLINE - PGSIZE"

definition KSTACK :: "nat \<Rightarrow> uint64" where
  "KSTACK p = TRAMPOLINE - (of_nat p + 1) * 2 * PGSIZE"

section \<open>Lemmas\<close>

lemmas csr_defs = upd_hart_def rd_def r_sstatus_def w_sstatus_def r_tp_def

text \<open>\<open>ints h c\<close>: hart \<open>c\<close> has device interrupts enabled.\<close>

definition ints :: "(nat \<Rightarrow> hart) \<Rightarrow> nat \<Rightarrow> bool" where
  "ints h c = bit (csr_sstatus (h c)) 1"

definition set_ints :: "bool \<Rightarrow> (nat \<Rightarrow> hart) \<Rightarrow> nat \<Rightarrow> (nat \<Rightarrow> hart)" where
  "set_ints b h c = h(c := (h c)\<lparr>csr_sstatus := (if b then csr_sstatus (h c) OR 2
     else csr_sstatus (h c) AND NOT 2)\<rparr>)"

lemma and_bit1_iff: "(x :: uint64) AND 2 \<noteq> 0 \<longleftrightarrow> bit x 1"
proof -
  have "(2 :: uint64) = push_bit 1 1" by simp
  then show ?thesis by (metis and_exp_eq_0_iff_not_bit push_bit_of_1)
qed

lemma intr_on_apply [kmon_simps]:
  "intr_on s e = Ret () (s\<lparr>harts := set_ints True (harts s) (cur s)\<rparr>) e"
  by (simp add: intr_on_def csr_defs kmon_simps set_ints_def)

lemma intr_off_apply [kmon_simps]:
  "intr_off s e = Ret () (s\<lparr>harts := set_ints False (harts s) (cur s)\<rparr>) e"
  by (simp add: intr_off_def csr_defs kmon_simps set_ints_def)

lemma intr_get_apply [kmon_simps]: "intr_get s e = Ret (ints (harts s) (cur s)) s e"
  by (simp add: intr_get_def csr_defs kmon_simps ints_def and_bit1_iff)

lemma ints_set_ints [simp]: "ints (set_ints b h c) c' = (if c' = c then b else ints h c')"
  by (auto simp: ints_def set_ints_def bit_simps)

lemma set_ints_tp [simp]: "csr_tp (set_ints b h c c') = csr_tp (h c')"
  by (simp add: set_ints_def)

lemma set_ints_restore: "set_ints (ints h c) (set_ints b h c) c = h"
proof (rule ext)
  fix c'
  have "(x OR 2) OR 2 = x" and "(x AND NOT 2) OR 2 = x" if "bit x 1" for x :: uint64
    using that by (auto intro!: bit_word_eqI simp: bit_simps)
  moreover have "(x OR 2) AND NOT 2 = x" and "(x AND NOT 2) AND NOT 2 = x"
    if "\<not> bit x 1" for x :: uint64
    using that by (auto intro!: bit_word_eqI simp: bit_simps)
  ultimately show "set_ints (ints h c) (set_ints b h c) c c' = h c'"
    by (auto simp: set_ints_def ints_def)
qed

lemma set_ints_same: "ints h c = b \<Longrightarrow> set_ints b h c = h"
proof -
  assume "ints h c = b"
  moreover have "x OR 2 = x" if "bit x 1" for x :: uint64
    using that by (auto intro!: bit_word_eqI simp: bit_simps)
  moreover have "x AND NOT 2 = x" if "\<not> bit x 1" for x :: uint64
    using that by (auto intro!: bit_word_eqI simp: bit_simps)
  ultimately show ?thesis by (auto simp: set_ints_def ints_def)
qed

lemma set_ints_set_ints [simp]: "set_ints b (set_ints b' h c) c = set_ints b h c"
proof -
  have "(x OR 2) OR 2 = x OR 2" and "(x AND NOT 2) OR 2 = x OR 2"
    and "(x OR 2) AND NOT 2 = x AND NOT 2" and "(x AND NOT 2) AND NOT 2 = x AND NOT 2"
    for x :: uint64
    by (auto intro!: bit_word_eqI simp: bit_simps)
  then show ?thesis by (auto simp: set_ints_def)
qed

end
