(* ===== verification/Spinlock.thy ===== *)
theory Spinlock
  imports Riscv
begin

text \<open>
  Spin locks and the per-CPU interrupt nesting they rest on: \<^verbatim>\<open>kernel/spinlock.c\<close>,
  \<^verbatim>\<open>kernel/spinlock.h\<close> and \<^verbatim>\<open>struct cpu\<close> of \<^verbatim>\<open>kernel/proc.h\<close>. A lock is named by a \<open>lockid\<close>,
  which stands for its address; the atomic swap is one state change, and a failed swap lets
  the rest of the system move once. The last section is the interleaved view: several CPUs
  take the machine steps of \<open>acquire\<close> and \<open>release\<close> in any order.
\<close>

section \<open>State\<close>

record kcontext =
  ctx_ra :: uint64
  ctx_sp :: uint64
  ctx_s0 :: uint64
  ctx_s1 :: uint64
  ctx_s2 :: uint64
  ctx_s3 :: uint64
  ctx_s4 :: uint64
  ctx_s5 :: uint64
  ctx_s6 :: uint64
  ctx_s7 :: uint64
  ctx_s8 :: uint64
  ctx_s9 :: uint64
  ctx_s10 :: uint64
  ctx_s11 :: uint64

record cpu =
  c_proc :: "nat option"
  c_context :: kcontext
  c_noff :: int
  c_intena :: bool

datatype lockid = LKmem | LPid | LWait | LProc nat | LBcache | LBuf nat | LInode nat | LLog
  | LItable | LFtable | LPipe uint64 | LCons | LUart | LTicks | LPr | LDisk

record spinlock =
  lk_locked :: uint32
  lk_name :: string
  lk_cpu :: "nat option"

record smp = mach +
  cpus :: "nat \<Rightarrow> cpu"
  locks :: "lockid \<Rightarrow> spinlock"

section \<open>Operations\<close>

definition cpuid :: "('a smp_scheme, nat) kmon" where
  "cpuid = bind r_tp (\<lambda>id. ret (unat id))"

definition mycpu :: "('a smp_scheme, nat) kmon" where
  "mycpu = cpuid"

definition upd_cpu :: "nat \<Rightarrow> (cpu \<Rightarrow> cpu) \<Rightarrow> 'a smp_scheme \<Rightarrow> 'a smp_scheme" where
  "upd_cpu c f s = s\<lparr>cpus := (cpus s)(c := f (cpus s c))\<rparr>"

definition upd_lock :: "lockid \<Rightarrow> (spinlock \<Rightarrow> spinlock) \<Rightarrow> 'a smp_scheme \<Rightarrow> 'a smp_scheme" where
  "upd_lock lk f s = s\<lparr>locks := (locks s)(lk := f (locks s lk))\<rparr>"

definition initlock :: "lockid \<Rightarrow> string \<Rightarrow> ('a smp_scheme, unit) kmon" where
  "initlock lk name = modify (upd_lock lk (\<lambda>_. \<lparr>lk_locked = 0, lk_name = name, lk_cpu = None\<rparr>))"

definition holding :: "lockid \<Rightarrow> ('a smp_scheme, bool) kmon" where
  "holding lk = bind mycpu (\<lambda>c.
     gets (\<lambda>s. lk_locked (locks s lk) \<noteq> 0 \<and> lk_cpu (locks s lk) = Some c))"

definition push_off :: "('a smp_scheme, unit) kmon" where
  "push_off = bind intr_get (\<lambda>old.
     bind intr_off (\<lambda>_.
     bind mycpu (\<lambda>c.
     bind (gets (\<lambda>s. c_noff (cpus s c))) (\<lambda>n.
     bind (whenM (n = 0) (modify (upd_cpu c (\<lambda>k. k\<lparr>c_intena := old\<rparr>)))) (\<lambda>_.
     modify (upd_cpu c (\<lambda>k. k\<lparr>c_noff := c_noff k + 1\<rparr>)))))))"

definition pop_off :: "('a smp_scheme, unit) kmon" where
  "pop_off = bind mycpu (\<lambda>c.
     bind intr_get (\<lambda>on.
     if on then panic ''pop_off - interruptible'' else
     bind (gets (\<lambda>s. c_noff (cpus s c))) (\<lambda>n.
     if n < 1 then panic ''pop_off'' else
     bind (modify (upd_cpu c (\<lambda>k. k\<lparr>c_noff := c_noff k - 1\<rparr>))) (\<lambda>_.
     bind (gets (\<lambda>s. c_noff (cpus s c) = 0 \<and> c_intena (cpus s c))) (\<lambda>b.
     whenM b intr_on)))))"

text \<open>\<^verbatim>\<open>__sync_lock_test_and_set\<close>: one atomic swap, returning the old value.\<close>

definition test_and_set :: "lockid \<Rightarrow> uint32 \<Rightarrow> ('a smp_scheme, uint32) kmon" where
  "test_and_set lk v = bind (gets (\<lambda>s. lk_locked (locks s lk))) (\<lambda>old.
     bind (modify (upd_lock lk (\<lambda>l. l\<lparr>lk_locked := v\<rparr>))) (\<lambda>_. ret old))"

definition acquire :: "lockid \<Rightarrow> ('a smp_scheme, unit) kmon" where
  "acquire lk = bind push_off (\<lambda>_.
     bind (holding lk) (\<lambda>h.
     if h then panic ''acquire'' else
     bind (wait_loop 0 (\<lambda>_. bind (test_and_set lk 1) (\<lambda>old.
             if old \<noteq> 0 then bind env_step (\<lambda>_. ret (Inl ())) else ret (Inr ()))) ()) (\<lambda>_.
     bind mycpu (\<lambda>c.
     modify (upd_lock lk (\<lambda>l. l\<lparr>lk_cpu := Some c\<rparr>))))))"

definition release :: "lockid \<Rightarrow> ('a smp_scheme, unit) kmon" where
  "release lk = bind (holding lk) (\<lambda>h.
     if \<not> h then panic ''release'' else
     bind (modify (upd_lock lk (\<lambda>l. l\<lparr>lk_cpu := None\<rparr>))) (\<lambda>_.
     bind (modify (upd_lock lk (\<lambda>l. l\<lparr>lk_locked := 0\<rparr>))) (\<lambda>_.
     pop_off)))"

section \<open>What each operation does\<close>

text \<open>
  The effect of the operations on the fields they touch. \<open>pushed\<close> is a CPU table after
  \<open>push_off\<close>, and \<open>calm\<close> one after a matched pair: only the saved interrupt flag of an
  outermost \<open>push_off\<close> is left in it. \<open>cpu_ok\<close> is the invariant of the nesting count.
\<close>

definition cid :: "(nat \<Rightarrow> hart) \<Rightarrow> nat \<Rightarrow> nat" where
  "cid h c = unat (csr_tp (h c))"

definition cpu_ok :: "(nat \<Rightarrow> hart) \<Rightarrow> nat \<Rightarrow> (nat \<Rightarrow> cpu) \<Rightarrow> bool" where
  "cpu_ok h c k \<longleftrightarrow> 0 \<le> c_noff (k (cid h c)) \<and> (0 < c_noff (k (cid h c)) \<longrightarrow> \<not> ints h c)"

definition calm :: "(nat \<Rightarrow> hart) \<Rightarrow> nat \<Rightarrow> (nat \<Rightarrow> cpu) \<Rightarrow> (nat \<Rightarrow> cpu)" where
  "calm h c k = k(cid h c := (if c_noff (k (cid h c)) = 0
     then (k (cid h c))\<lparr>c_intena := ints h c\<rparr> else k (cid h c)))"

definition pushed :: "(nat \<Rightarrow> hart) \<Rightarrow> nat \<Rightarrow> (nat \<Rightarrow> cpu) \<Rightarrow> (nat \<Rightarrow> cpu)" where
  "pushed h c k = (calm h c k)(cid h c := (calm h c k (cid h c))\<lparr>c_noff := c_noff (k (cid h c)) + 1\<rparr>)"

definition lock_free :: "spinlock \<Rightarrow> bool" where
  "lock_free l \<longleftrightarrow> lk_locked l = 0 \<and> lk_cpu l = None"

definition taken :: "nat \<Rightarrow> spinlock \<Rightarrow> spinlock" where
  "taken c l = l\<lparr>lk_locked := 1, lk_cpu := Some c\<rparr>"

lemma cid_set_ints [simp]: "cid (set_ints b h c) c' = cid h c'"
  by (simp add: cid_def)

lemma calm_calm [simp]: "calm h c (calm h c k) = calm h c k"
  by (simp add: calm_def)

lemma c_noff_calm [simp]: "c_noff (calm h c k i) = c_noff (k i)"
  by (simp add: calm_def)

lemma c_proc_calm [simp]: "c_proc (calm h c k i) = c_proc (k i)"
  by (simp add: calm_def)

lemma c_proc_pushed [simp]: "c_proc (pushed h c k i) = c_proc (k i)"
  by (simp add: pushed_def)

lemma c_noff_pushed [simp]:
  "c_noff (pushed h c k i) = (if i = cid h c then c_noff (k i) + 1 else c_noff (k i))"
  by (simp add: pushed_def)

lemma cpu_ok_calm [simp]: "cpu_ok h c (calm h c k) = cpu_ok h c k"
  by (simp add: cpu_ok_def)

lemma cpu_ok_pushed [simp]: "cpu_ok h c k \<Longrightarrow> cpu_ok (set_ints False h c) c (pushed h c k)"
  by (simp add: cpu_ok_def)

lemma mycpu_apply [kmon_simps]: "mycpu s e = Ret (cid (harts s) (cur s)) s e"
  by (simp add: mycpu_def cpuid_def csr_defs kmon_simps cid_def)

lemma holding_apply [kmon_simps]:
  "holding lk s e = Ret (lk_locked (locks s lk) \<noteq> 0 \<and>
     lk_cpu (locks s lk) = Some (cid (harts s) (cur s))) s e"
  by (simp add: holding_def kmon_simps)

lemma push_off_apply [kmon_simps]:
  "push_off s e = Ret () (s\<lparr>harts := set_ints False (harts s) (cur s),
     cpus := pushed (harts s) (cur s) (cpus s)\<rparr>) e"
  by (simp add: push_off_def kmon_simps whenM_def upd_cpu_def pushed_def calm_def)

definition popped :: "(nat \<Rightarrow> hart) \<Rightarrow> nat \<Rightarrow> (nat \<Rightarrow> cpu) \<Rightarrow> (nat \<Rightarrow> cpu)" where
  "popped h c k = k(cid h c := (k (cid h c))\<lparr>c_noff := c_noff (k (cid h c)) - 1\<rparr>)"

definition unmasked :: "(nat \<Rightarrow> hart) \<Rightarrow> nat \<Rightarrow> (nat \<Rightarrow> cpu) \<Rightarrow> (nat \<Rightarrow> hart)" where
  "unmasked h c k = (if c_noff (k (cid h c)) = 1 \<and> c_intena (k (cid h c))
     then set_ints True h c else h)"

definition masked :: "(nat \<Rightarrow> hart) \<Rightarrow> nat \<Rightarrow> (nat \<Rightarrow> cpu) \<Rightarrow> bool" where
  "masked h c k \<longleftrightarrow> \<not> ints h c \<and> 1 \<le> c_noff (k (cid h c))"

definition freed :: "spinlock \<Rightarrow> spinlock" where
  "freed l = l\<lparr>lk_cpu := None, lk_locked := 0\<rparr>"

lemma cpu_ok_nonneg [simp]: "cpu_ok h c k \<Longrightarrow> 0 \<le> c_noff (k (cid h c))"
  by (simp add: cpu_ok_def)

lemma masked_pushed [simp]: "cpu_ok h c k \<Longrightarrow> masked (set_ints False h c) c (pushed h c k)"
  by (simp add: masked_def)

lemma calm_pushed [simp]:
  "cpu_ok h c k \<Longrightarrow> calm (set_ints False h c) c (pushed h c k) = pushed h c k"
proof -
  assume "cpu_ok h c k"
  then have "c_noff (k (cid h c)) + 1 \<noteq> 0" using cpu_ok_nonneg [of h c k] by linarith
  then show ?thesis by (simp add: calm_def [of "set_ints False h c"])
qed

lemma popped_pushed [simp]: "popped (set_ints False h c) c (pushed h c k) = calm h c k"
  by (auto simp: popped_def pushed_def calm_def)

lemma unmasked_pushed [simp]:
  "cpu_ok h c k \<Longrightarrow> unmasked (set_ints False h c) c (pushed h c k) = h"
  using set_ints_same [of h c True] set_ints_same [of h c False]
  by (auto simp: cpu_ok_def unmasked_def pushed_def calm_def)

lemma freed_taken [simp]: "lock_free l \<Longrightarrow> freed (taken c l) = l"
  by (simp add: freed_def taken_def lock_free_def)

lemma taken_simps [simp]: "lk_locked (taken c l) = 1" "lk_cpu (taken c l) = Some c"
  "\<not> lock_free (taken c l)"
  by (simp_all add: taken_def lock_free_def)

lemma pop_off_apply [kmon_simps]:
  "masked (harts s) (cur s) (cpus s) \<Longrightarrow>
   pop_off s e = Ret () (s\<lparr>harts := unmasked (harts s) (cur s) (cpus s),
     cpus := popped (harts s) (cur s) (cpus s)\<rparr>) e"
  by (simp add: pop_off_def kmon_simps whenM_def upd_cpu_def masked_def unmasked_def popped_def)

lemma acquire_apply [kmon_simps]:
  "lock_free (locks s lk) \<Longrightarrow>
   acquire lk s e = Ret () (s\<lparr>harts := set_ints False (harts s) (cur s),
     cpus := pushed (harts s) (cur s) (cpus s),
     locks := (locks s)(lk := taken (cid (harts s) (cur s)) (locks s lk))\<rparr>) e"
  by (simp add: acquire_def kmon_simps wait_loop_def test_and_set_def upd_lock_def lock_free_def
      taken_def)

lemma release_apply [kmon_simps]:
  assumes "lk_locked (locks s lk) \<noteq> 0" and "lk_cpu (locks s lk) = Some (cid (harts s) (cur s))"
    and "masked (harts s) (cur s) (cpus s)"
  shows "release lk s e = Ret () (s\<lparr>harts := unmasked (harts s) (cur s) (cpus s),
     cpus := popped (harts s) (cur s) (cpus s), locks := (locks s)(lk := freed (locks s lk))\<rparr>) e"
  using assms by (simp add: release_def kmon_simps upd_lock_def freed_def)

lemma release_acquire:
  assumes "lock_free (locks s lk)" and "cpu_ok (harts s) (cur s) (cpus s)"
  shows "bind (acquire lk) (\<lambda>_. release lk) s e =
    Ret () (s\<lparr>cpus := calm (harts s) (cur s) (cpus s)\<rparr>) e"
  using assms by (simp add: kmon_simps)

text \<open>A lock that another CPU holds makes \<open>acquire\<close> wait; one this CPU holds makes it panic.\<close>

lemma acquire_held_panics:
  assumes "lk_locked (locks s lk) \<noteq> 0" and "lk_cpu (locks s lk) = Some (cid (harts s) (cur s))"
  shows "\<exists>s'. acquire lk s e = Panic ''acquire'' s'"
  using assms by (simp add: acquire_def kmon_simps)

lemma release_not_held_panics:
  assumes "\<not> (lk_locked (locks s lk) \<noteq> 0 \<and> lk_cpu (locks s lk) = Some (cid (harts s) (cur s)))"
  shows "release lk s e = Panic ''release'' s"
  using assms by (simp add: release_def kmon_simps)

section \<open>Several CPUs\<close>

text \<open>
  The machine steps of \<open>acquire\<close> and \<open>release\<close> of one lock as several CPUs interleave them. A
  CPU is outside, spinning on the swap, between the swap and the store of \<^verbatim>\<open>lk->cpu\<close>, in its
  critical section, or in \<open>release\<close> between the store of \<^verbatim>\<open>lk->cpu\<close> and the final store of
  \<^verbatim>\<open>lk->locked\<close>. \<open>acquire\<close> on a lock the CPU holds, and \<open>release\<close> on one it does not, panic and
  make no step.
\<close>

datatype lpc = Outside | Spinning | Swapped | Critical | Releasing

record lstate =
  l_pc :: "nat \<Rightarrow> lpc"
  l_lock :: spinlock

inductive lock_step :: "lstate \<Rightarrow> lstate \<Rightarrow> bool" where
  acquire_enter: "l_pc t c = Outside \<Longrightarrow>
     \<not> (lk_locked (l_lock t) \<noteq> 0 \<and> lk_cpu (l_lock t) = Some c) \<Longrightarrow>
     lock_step t (t\<lparr>l_pc := (l_pc t)(c := Spinning)\<rparr>)"
| acquire_spin: "l_pc t c = Spinning \<Longrightarrow> lk_locked (l_lock t) \<noteq> 0 \<Longrightarrow>
     lock_step t (t\<lparr>l_lock := (l_lock t)\<lparr>lk_locked := 1\<rparr>\<rparr>)"
| acquire_swap: "l_pc t c = Spinning \<Longrightarrow> lk_locked (l_lock t) = 0 \<Longrightarrow>
     lock_step t (t\<lparr>l_pc := (l_pc t)(c := Swapped), l_lock := (l_lock t)\<lparr>lk_locked := 1\<rparr>\<rparr>)"
| acquire_cpu: "l_pc t c = Swapped \<Longrightarrow>
     lock_step t (t\<lparr>l_pc := (l_pc t)(c := Critical), l_lock := (l_lock t)\<lparr>lk_cpu := Some c\<rparr>\<rparr>)"
| release_cpu: "lk_locked (l_lock t) \<noteq> 0 \<Longrightarrow> lk_cpu (l_lock t) = Some c \<Longrightarrow> l_pc t c = Critical \<Longrightarrow>
     lock_step t (t\<lparr>l_pc := (l_pc t)(c := Releasing), l_lock := (l_lock t)\<lparr>lk_cpu := None\<rparr>\<rparr>)"
| release_store: "l_pc t c = Releasing \<Longrightarrow>
     lock_step t (t\<lparr>l_pc := (l_pc t)(c := Outside), l_lock := (l_lock t)\<lparr>lk_locked := 0\<rparr>\<rparr>)"

definition lstart :: lstate where
  "lstart = \<lparr>l_pc = (\<lambda>_. Outside), l_lock = \<lparr>lk_locked = 0, lk_name = ''lk'', lk_cpu = None\<rparr>\<rparr>"

inductive lreach :: "lstate \<Rightarrow> bool" where
  lreach_start: "lreach lstart"
| lreach_step: "lreach t \<Longrightarrow> lock_step t t' \<Longrightarrow> lreach t'"

text \<open>A CPU owns the lock from its successful swap to the final store.\<close>

definition owns :: "lstate \<Rightarrow> nat \<Rightarrow> bool" where
  "owns t c \<longleftrightarrow> l_pc t c \<in> {Swapped, Critical, Releasing}"

definition linv :: "lstate \<Rightarrow> bool" where
  "linv t \<longleftrightarrow> (\<exists>ow. (\<forall>c. owns t c \<longleftrightarrow> ow = Some c) \<and> (lk_locked (l_lock t) \<noteq> 0 \<longleftrightarrow> ow \<noteq> None)
     \<and> (\<forall>c. l_pc t c = Critical \<longleftrightarrow> lk_cpu (l_lock t) = Some c))"

lemma linvI:
  "(\<And>c. owns t c \<longleftrightarrow> ow = Some c) \<Longrightarrow> (lk_locked (l_lock t) \<noteq> 0 \<longleftrightarrow> ow \<noteq> None) \<Longrightarrow>
   (\<And>c. l_pc t c = Critical \<longleftrightarrow> lk_cpu (l_lock t) = Some c) \<Longrightarrow> linv t"
  unfolding linv_def by blast

lemma linv_start: "linv lstart"
  by (rule linvI [where ow = None]) (simp_all add: lstart_def owns_def)

text \<open>
  Every step changes the program counter of one CPU (a failed swap leaves it where it is). The
  lemma collects what has to be checked of such a step: who owns the lock afterwards.
\<close>

lemma linv_move:
  assumes ow: "\<And>d. owns t d \<longleftrightarrow> ow = Some d"
    and crit: "\<And>d. l_pc t d = Critical \<longleftrightarrow> lk_cpu (l_lock t) = Some d"
    and pc: "l_pc t' = (l_pc t)(c := q)"
    and owner: "if q \<in> {Swapped, Critical, Releasing} then ow \<in> {None, Some c} \<and> ow' = Some c
       else ow' = (if ow = Some c then None else ow)"
    and lkd: "lk_locked (l_lock t') \<noteq> 0 \<longleftrightarrow> ow' \<noteq> None"
    and cpu: "lk_cpu (l_lock t') = (if q = Critical then Some c
       else if lk_cpu (l_lock t) = Some c then None else lk_cpu (l_lock t))"
  shows "linv t'"
proof (rule linvI [where ow = ow'])
  fix d
  show "owns t' d \<longleftrightarrow> ow' = Some d"
    using ow [of d] pc owner by (cases "d = c") (auto simp: owns_def split: if_splits)
  show "l_pc t' d = Critical \<longleftrightarrow> lk_cpu (l_lock t') = Some d"
    using crit [of d] ow [of d] pc owner cpu by (cases "d = c") (auto simp: owns_def split: if_splits)
qed (rule lkd)

lemma linv_step:
  assumes step: "lock_step t t'" and inv: "linv t"
  shows "linv t'"
proof -
  from inv obtain ow where ow: "\<And>c. owns t c \<longleftrightarrow> ow = Some c"
    and lkd: "lk_locked (l_lock t) \<noteq> 0 \<longleftrightarrow> ow \<noteq> None"
    and crit: "\<And>c. l_pc t c = Critical \<longleftrightarrow> lk_cpu (l_lock t) = Some c"
    unfolding linv_def by blast
  have cpu: "lk_cpu (l_lock t) = None \<or> lk_cpu (l_lock t) = ow"
    using crit ow unfolding owns_def by (metis insertCI not_Some_eq)
  note move = linv_move [OF ow crit, where t' = t']
  from step show ?thesis
  proof cases
    case (acquire_enter c)
    then show ?thesis using ow [of c] crit [of c] lkd
      by (intro move [where c = c and q = Spinning and ow' = ow]) (auto simp: owns_def)
  next
    case (acquire_spin c)
    then show ?thesis using ow [of c] crit [of c] lkd
      by (intro move [where c = c and q = Spinning and ow' = ow]) (auto simp: owns_def)
  next
    case (acquire_swap c)
    then show ?thesis using lkd cpu
      by (intro move [where c = c and q = Swapped and ow' = "Some c"]) auto
  next
    case (acquire_cpu c)
    then show ?thesis using ow [of c] lkd
      by (intro move [where c = c and q = Critical and ow' = "Some c"]) (auto simp: owns_def)
  next
    case (release_cpu c)
    then show ?thesis using ow [of c] lkd
      by (intro move [where c = c and q = Releasing and ow' = "Some c"]) (auto simp: owns_def)
  next
    case (release_store c)
    then show ?thesis using ow [of c] crit [of c]
      by (intro move [where c = c and q = Outside and ow' = None]) (auto simp: owns_def)
  qed
qed

lemma lreach_linv: "lreach t \<Longrightarrow> linv t"
  by (induction rule: lreach.induct) (auto intro: linv_start linv_step)


section \<open>A concrete machine\<close>

text \<open>
  A small state for the witnesses: eight harts with their ids in \<open>tp\<close>, interrupts on, nothing
  nested and every lock free. The states of the components above extend it.
\<close>

definition hart0 :: hart where
  "hart0 = \<lparr>csr_mstatus = 0, csr_mepc = 0, csr_sstatus = SSTATUS_SIE, csr_sip = 0, csr_sie = 0,
     csr_mie = 0, csr_sepc = 0, csr_medeleg = 0, csr_mideleg = 0, csr_stvec = 0, csr_mtvec = 0,
     csr_pmpcfg0 = 0, csr_pmpaddr0 = 0, csr_satp = 0, csr_mscratch = 0, csr_scause = 0,
     csr_stval = 0, csr_mcounteren = 0, csr_mtime = 0, csr_sp = 0, csr_tp = 0, csr_ra = 0\<rparr>"

definition kcontext0 :: kcontext where
  "kcontext0 = \<lparr>ctx_ra = 0, ctx_sp = 0, ctx_s0 = 0, ctx_s1 = 0, ctx_s2 = 0, ctx_s3 = 0,
     ctx_s4 = 0, ctx_s5 = 0, ctx_s6 = 0, ctx_s7 = 0, ctx_s8 = 0, ctx_s9 = 0, ctx_s10 = 0,
     ctx_s11 = 0\<rparr>"

definition smp0 :: smp where
  "smp0 = \<lparr>harts = (\<lambda>i. hart0\<lparr>csr_tp := of_nat i\<rparr>), cur = 0,
     cpus = (\<lambda>_. \<lparr>c_proc = Some 0, c_context = kcontext0, c_noff = 0, c_intena = False\<rparr>),
     locks = (\<lambda>_. \<lparr>lk_locked = 0, lk_name = ''lock'', lk_cpu = None\<rparr>)\<rparr>"

lemma smp0_ok [simp]: "cpu_ok (harts smp0) (cur smp0) (cpus smp0)" "lock_free (locks smp0 lk)"
  "cid (harts smp0) (cur smp0) = 0" "c_proc (cpus smp0 c) = Some 0" "c_noff (cpus smp0 c) = 0"
  by (simp_all add: smp0_def cpu_ok_def lock_free_def cid_def)

section \<open>Properties\<close>

text \<open>
  (C3) Mutual exclusion. However many CPUs run \<open>acquire\<close> and \<open>release\<close> on one lock, and however
  their machine steps interleave, at most one of them is between its successful swap and its
  final store. \<open>lk->locked\<close> says whether there is one, and \<open>lk->cpu\<close> names the CPU whose
  critical section runs, so \<open>holding\<close> answers correctly for every CPU.
\<close>

theorem lock_mutual_exclusion:
  assumes "lreach t"
  shows "(owns t c \<and> owns t d \<longrightarrow> c = d) \<and> (lk_locked (l_lock t) \<noteq> 0 \<longleftrightarrow> (\<exists>c. owns t c)) \<and>
    (l_pc t c = Critical \<longleftrightarrow> lk_locked (l_lock t) \<noteq> 0 \<and> lk_cpu (l_lock t) = Some c)"
proof -
  obtain ow where ow: "\<And>c. owns t c \<longleftrightarrow> ow = Some c"
    and lkd: "lk_locked (l_lock t) \<noteq> 0 \<longleftrightarrow> ow \<noteq> None"
    and crit: "\<And>c. l_pc t c = Critical \<longleftrightarrow> lk_cpu (l_lock t) = Some c"
    using lreach_linv [OF assms] unfolding linv_def by blast
  have "l_pc t c = Critical \<Longrightarrow> owns t c" by (simp add: owns_def)
  then show ?thesis using ow [of c] ow [of d] lkd crit [of c] by (auto simp: ow)
qed

text \<open>Witness: CPU 0 takes the lock while CPU 1 spins.\<close>

definition lrun :: lstate where
  "lrun = \<lparr>l_pc = (\<lambda>_. Outside)(0 := Critical, 1 := Spinning),
     l_lock = \<lparr>lk_locked = 1, lk_name = ''lk'', lk_cpu = Some 0\<rparr>\<rparr>"

lemma lreach_lrun: "lreach lrun"
proof -
  let ?f = "\<lambda>p q l k. \<lparr>l_pc = (\<lambda>_. Outside)(0 := p, Suc 0 := q),
     l_lock = \<lparr>lk_locked = l, lk_name = ''lk'', lk_cpu = k\<rparr>\<rparr>"
  have "lreach (?f Outside Outside 0 None)"
    using lreach_start by (simp add: lstart_def fun_upd_idem)
  then have "lreach (?f Outside Spinning 0 None)"
    by (rule lreach_step) (use lock_step.acquire_enter [of "?f Outside Outside 0 None" 1] in simp)
  then have "lreach (?f Spinning Spinning 0 None)"
    by (rule lreach_step) (use lock_step.acquire_enter [of "?f Outside Spinning 0 None" 0] in
      \<open>simp add: fun_upd_twist\<close>)
  then have "lreach (?f Swapped Spinning 1 None)"
    by (rule lreach_step) (use lock_step.acquire_swap [of "?f Spinning Spinning 0 None" 0] in
      \<open>simp add: fun_upd_twist\<close>)
  then have "lreach (?f Critical Spinning 1 (Some 0))"
    by (rule lreach_step) (use lock_step.acquire_cpu [of "?f Swapped Spinning 1 None" 0] in
      \<open>simp add: fun_upd_twist\<close>)
  then show ?thesis by (simp add: lrun_def)
qed

theorem lock_mutual_exclusion_witness:
  "lreach lrun \<and> owns lrun 0 \<and> \<not> owns lrun 1 \<and> (\<exists>c. owns lrun c)"
  using lreach_lrun lock_mutual_exclusion [OF lreach_lrun, of 0 1] by (auto simp: lrun_def owns_def)



end
