(* ===== verification/Kstring.thy ===== *)
theory Kstring
  imports Prelude
begin

text \<open>
  Byte memory and \<^verbatim>\<open>kernel/string.c\<close>. Memory is a function from 64-bit addresses to bytes and
  pointer arithmetic wraps. \<open>memset\<close> and \<open>memmove\<close> store byte by byte in the order of the C
  loops. The string functions read through a pointer view \<open>nat \<Rightarrow> uint8\<close> (\<open>p i\<close> is \<^verbatim>\<open>p[i]\<close>)
  and write into a byte array; \<open>cstr\<close> is the view of an array whose unused tail is zero.
\<close>

type_synonym memory = "uint64 \<Rightarrow> uint8"
type_synonym ptr = "nat \<Rightarrow> uint8"

definition at :: "memory \<Rightarrow> uint64 \<Rightarrow> ptr" where
  "at m a = (\<lambda>i. m (a + of_nat i))"

definition cstr :: "uint8 list \<Rightarrow> ptr" where
  "cstr l = (\<lambda>i. if i < length l then l ! i else 0)"

definition load_bytes :: "memory \<Rightarrow> uint64 \<Rightarrow> nat \<Rightarrow> uint8 list" where
  "load_bytes m a n = map (at m a) [0..<n]"

definition store_bytes :: "memory \<Rightarrow> uint64 \<Rightarrow> uint8 list \<Rightarrow> memory" where
  "store_bytes m a bs = (\<lambda>x. if unat (x - a) < length bs then bs ! unat (x - a) else m x)"

definition load64 :: "memory \<Rightarrow> uint64 \<Rightarrow> uint64" where
  "load64 m a = of_le (load_bytes m a 8)"

definition store64 :: "memory \<Rightarrow> uint64 \<Rightarrow> uint64 \<Rightarrow> memory" where
  "store64 m a v = store_bytes m a (le_bytes 8 v)"

section \<open>The functions of string.c\<close>

primrec memset :: "memory \<Rightarrow> uint64 \<Rightarrow> uint8 \<Rightarrow> nat \<Rightarrow> memory" where
  "memset m dst c 0 = m"
| "memset m dst c (Suc n) = (memset m dst c n)(dst + of_nat n := c)"

fun memcmp :: "ptr \<Rightarrow> ptr \<Rightarrow> nat \<Rightarrow> int" where
  "memcmp s1 s2 0 = 0"
| "memcmp s1 s2 (Suc n) =
     (if s1 0 \<noteq> s2 0 then uint (s1 0) - uint (s2 0)
      else memcmp (\<lambda>i. s1 (Suc i)) (\<lambda>i. s2 (Suc i)) n)"

primrec copy_up :: "memory \<Rightarrow> uint64 \<Rightarrow> uint64 \<Rightarrow> nat \<Rightarrow> memory" where
  "copy_up m d s 0 = m"
| "copy_up m d s (Suc n) = copy_up (m(d := m s)) (d + 1) (s + 1) n"

primrec copy_down :: "memory \<Rightarrow> uint64 \<Rightarrow> uint64 \<Rightarrow> nat \<Rightarrow> memory" where
  "copy_down m d s 0 = m"
| "copy_down m d s (Suc n) = copy_down (m(d - 1 := m (s - 1))) (d - 1) (s - 1) n"

definition memmove :: "memory \<Rightarrow> uint64 \<Rightarrow> uint64 \<Rightarrow> nat \<Rightarrow> memory" where
  "memmove m dst src n =
     (if n = 0 then m
      else if src < dst \<and> src + of_nat n > dst
      then copy_down m (dst + of_nat n) (src + of_nat n) n
      else copy_up m dst src n)"

definition memcpy :: "memory \<Rightarrow> uint64 \<Rightarrow> uint64 \<Rightarrow> nat \<Rightarrow> memory" where
  "memcpy m dst src n = memmove m dst src n"

fun strncmp :: "ptr \<Rightarrow> ptr \<Rightarrow> nat \<Rightarrow> int" where
  "strncmp p q 0 = 0"
| "strncmp p q (Suc n) =
     (if p 0 \<noteq> 0 \<and> p 0 = q 0 then strncmp (\<lambda>i. p (Suc i)) (\<lambda>i. q (Suc i)) n
      else uint (p 0) - uint (q 0))"

fun strncpy_copy :: "uint8 list \<Rightarrow> nat \<Rightarrow> ptr \<Rightarrow> nat \<Rightarrow> uint8 list \<times> nat \<times> nat" where
  "strncpy_copy s i t 0 = (s, i, 0)"
| "strncpy_copy s i t (Suc n) =
     (if t i \<noteq> 0 then strncpy_copy (s[i := t i]) (Suc i) t n else (s[i := t i], Suc i, n))"

fun strncpy_pad :: "uint8 list \<Rightarrow> nat \<Rightarrow> nat \<Rightarrow> uint8 list" where
  "strncpy_pad s i 0 = s"
| "strncpy_pad s i (Suc n) = strncpy_pad (s[i := 0]) (Suc i) n"

definition strncpy :: "uint8 list \<Rightarrow> ptr \<Rightarrow> int \<Rightarrow> uint8 list" where
  "strncpy s t n = (case strncpy_copy s 0 t (nat n) of (s', i, n') \<Rightarrow> strncpy_pad s' i n')"

fun safestrcpy_copy :: "uint8 list \<Rightarrow> nat \<Rightarrow> ptr \<Rightarrow> nat \<Rightarrow> uint8 list \<times> nat" where
  "safestrcpy_copy s i t 0 = (s, i)"
| "safestrcpy_copy s i t (Suc n) =
     (if t i \<noteq> 0 then safestrcpy_copy (s[i := t i]) (Suc i) t n else (s[i := t i], Suc i))"

definition safestrcpy :: "uint8 list \<Rightarrow> ptr \<Rightarrow> int \<Rightarrow> uint8 list" where
  "safestrcpy s t n =
     (if n \<le> 0 then s else case safestrcpy_copy s 0 t (nat (n - 1)) of (s', i) \<Rightarrow> s'[i := 0])"

text \<open>\<open>strlen\<close> runs until it meets a zero byte; without one it does not return.\<close>

partial_function (option) strlen_from :: "ptr \<Rightarrow> nat \<Rightarrow> nat option" where
  "strlen_from s n = (if s n = 0 then Some n else strlen_from s (Suc n))"

definition strlen :: "ptr \<Rightarrow> nat option" where
  "strlen s = strlen_from s 0"

section \<open>Memory lemmas\<close>

lemma all_less_Suc_split: "(\<forall>i < Suc n. P i) \<longleftrightarrow> P 0 \<and> (\<forall>i < n. P (Suc i))"
  by (auto simp: less_Suc_eq_0_disj)

named_theorems mem_simps \<open>loads over stores\<close>

lemma at_apply [simp]: "at m a i = m (a + of_nat i)"
  by (simp add: at_def)

lemma length_load_bytes [simp]: "length (load_bytes m a n) = n"
  by (simp add: load_bytes_def)

lemma nth_load_bytes [simp]: "i < n \<Longrightarrow> load_bytes m a n ! i = m (a + of_nat i)"
  by (simp add: load_bytes_def)

lemma off_eq_iff: "(x :: uint64) = a + of_nat n \<longleftrightarrow> unat (x - a) = n" if "n < 2 ^ 64"
proof
  assume "x = a + of_nat n"
  then show "unat (x - a) = n" using that by (simp add: unat_of_nat_eq)
next
  assume "unat (x - a) = n"
  then have "of_nat n = x - a" by auto
  then show "x = a + of_nat n" by (simp add: algebra_simps)
qed

lemma unat_off [simp]: "i < 2 ^ 64 \<Longrightarrow> unat (a + of_nat i - a :: uint64) = i"
  by (simp add: unat_of_nat_eq)

lemma memset_apply:
  assumes "n \<le> 2 ^ 64"
  shows "memset m dst c n x = (if unat (x - dst) < n then c else m x)"
  using assms
proof (induction n)
  case 0
  then show ?case by simp
next
  case (Suc n)
  then have "n < 2 ^ 64" by simp
  then show ?case using Suc off_eq_iff [of n x dst] by auto
qed

lemma store_bytes_apply:
  "store_bytes m a bs x = (if unat (x - a) < length bs then bs ! unat (x - a) else m x)"
  by (simp add: store_bytes_def)

lemma load_store_bytes:
  "length bs = n \<Longrightarrow> n \<le> 2 ^ 64 \<Longrightarrow> load_bytes (store_bytes m a bs) a n = bs"
  by (auto intro!: nth_equalityI simp: store_bytes_apply unat_of_nat_eq)

lemma load64_store64 [mem_simps]: "load64 (store64 m a v) a = v"
  by (simp add: load64_def store64_def load_store_bytes of_le_le_bytes)

lemma load_bytes_cong:
  "(\<And>i. i < n \<Longrightarrow> m (a + of_nat i) = m' (a + of_nat i)) \<Longrightarrow> load_bytes m a n = load_bytes m' a n"
  by (auto intro!: nth_equalityI)

lemma load64_cong: "(\<And>i. i < 8 \<Longrightarrow> m (a + of_nat i) = m' (a + of_nat i)) \<Longrightarrow> load64 m a = load64 m' a"
  unfolding load64_def by (subst load_bytes_cong [where m' = m']) auto

section \<open>What the copy loops compute\<close>

lemma shift_off: "x - (d + 1) = (x - d) - (1 :: uint64)"
  by simp

lemma unat_off_Suc:
  assumes "(x :: uint64) \<noteq> d"
  shows "unat (x - (d + 1)) = unat (x - d) - 1"
proof -
  have "x - d \<noteq> 0" using assms by simp
  then show ?thesis unfolding shift_off by (rule unat_minus_one)
qed

lemma copy_up_apply:
  assumes "unat s + n \<le> 2 ^ 64" and "unat d + n \<le> 2 ^ 64"
    and "unat d \<le> unat s \<or> unat s + n \<le> unat d"
  shows "copy_up m d s n x = (if unat (x - d) < n then m (s + (x - d)) else m x)"
  using assms
proof (induction n arbitrary: m d s)
  case 0
  then show ?case by simp
next
  case (Suc n)
  show ?case
  proof (cases "n = 0")
    case True
    then show ?thesis by (auto simp: unat_eq_0 algebra_simps)
  next
    case False
    then have s1: "unat (s + 1) = unat s + 1" and d1: "unat (d + 1) = unat d + 1"
      using Suc.prems unat_add_nat [of s 1] unat_add_nat [of d 1] by simp_all
    let ?m = "m(d := m s)"
    have "copy_up m d s (Suc n) x = copy_up ?m (d + 1) (s + 1) n x" by simp
    also have "\<dots> = (if unat (x - (d + 1)) < n then ?m (s + 1 + (x - (d + 1))) else ?m x)"
      by (rule Suc.IH) (use Suc.prems s1 d1 in auto)
    also have "\<dots> = (if unat (x - d) < Suc n then m (s + (x - d)) else m x)"
    proof (cases "x = d")
      case True
      have "unat (d - (d + 1)) \<ge> n"
      proof -
        have "d - (d + 1) = (- 1 :: uint64)" by simp
        then have "unat (d - (d + 1)) = 2 ^ 64 - 1" by (simp add: unsigned_minus_1_eq_mask mask_eq_exp_minus_1)
        then show ?thesis using Suc.prems by linarith
      qed
      with True show ?thesis by simp
    next
      case ne: False
      have idx: "s + 1 + (x - (d + 1)) = s + (x - d)" by simp
      have "s + (x - d) \<noteq> d" if "unat (x - d) < Suc n"
      proof -
        define j where "j = unat (x - d)"
        have j: "0 < j" "j < Suc n" using that ne by (auto simp: j_def unat_gt_0)
        have "x - d = of_nat j" by (simp add: j_def)
        then have "unat (s + (x - d)) = unat s + j"
          using j Suc.prems unat_add_nat [of s j] by simp
        moreover have "unat s + j \<noteq> unat d" using j Suc.prems by linarith
        ultimately show ?thesis by metis
      qed
      then show ?thesis using ne unat_off_Suc [OF ne] unat_gt_0 [of "x - d"]
        unfolding idx by (auto simp: unat_eq_0)
    qed
    finally show ?thesis .
  qed
qed

lemma copy_down_apply:
  assumes "unat s + n < 2 ^ 64" and "unat d + n \<le> 2 ^ 64" and "unat s \<le> unat d"
  shows "copy_down m (d + of_nat n) (s + of_nat n) n x =
    (if unat (x - d) < n then m (s + (x - d)) else m x)"
  using assms
proof (induction n arbitrary: m)
  case 0
  then show ?case by simp
next
  case (Suc n)
  let ?m = "m(d + of_nat n := m (s + of_nat n))"
  have "copy_down m (d + of_nat (Suc n)) (s + of_nat (Suc n)) (Suc n) x =
      copy_down ?m (d + of_nat n) (s + of_nat n) n x"
    by (simp add: algebra_simps)
  also have "\<dots> = (if unat (x - d) < n then ?m (s + (x - d)) else ?m x)"
    by (rule Suc.IH) (use Suc.prems in auto)
  also have "\<dots> = (if unat (x - d) < Suc n then m (s + (x - d)) else m x)"
  proof -
    have n: "n < 2 ^ 64" using Suc.prems by simp
    have "s + (x - d) \<noteq> d + of_nat n" if "unat (x - d) < n"
    proof -
      define j where "j = unat (x - d)"
      have "x - d = of_nat j" by (simp add: j_def)
      then have "unat (s + (x - d)) = unat s + j"
        using that Suc.prems unat_add_nat [of s j] by (simp add: j_def)
      moreover have "unat (d + of_nat n) = unat d + n"
        using Suc.prems unat_add_nat [of d n] by simp
      moreover have "unat s + j < unat d + n" using that Suc.prems by (simp add: j_def)
      ultimately show ?thesis by (metis less_irrefl)
    qed
    then show ?thesis using off_eq_iff [OF n, of x d]
      by (auto simp: less_Suc_eq)
  qed
  finally show ?case .
qed

text \<open>Whatever the overlap, \<open>memmove\<close> copies as if all bytes were read before any is written.\<close>

lemma memmove_apply:
  assumes "unat src + n < 2 ^ 64" and "unat dst + n \<le> 2 ^ 64"
  shows "memmove m dst src n x = (if unat (x - dst) < n then m (src + (x - dst)) else m x)"
proof (cases "n = 0 \<or> \<not> (src < dst \<and> src + of_nat n > dst)")
  case True
  moreover have "unat (src + of_nat n) = unat src + n"
    using assms unat_add_nat [of src n] by simp
  ultimately have "n = 0 \<or> unat dst \<le> unat src \<or> unat src + n \<le> unat dst"
    by (auto simp: word_less_nat_alt)
  then show ?thesis using True assms copy_up_apply [of src n dst m x]
    by (auto simp: memmove_def)
next
  case False
  then show ?thesis using assms copy_down_apply [of src n dst m x]
    by (simp add: memmove_def word_less_nat_alt)
qed

section \<open>Strings\<close>

lemma uint_eq_uint [simp]: "uint (a :: 'a::len word) = uint b \<longleftrightarrow> a = b"
  by (simp add: word_uint_eq_iff)

lemma uint_eq_0 [simp]: "uint (a :: 'a::len word) = 0 \<longleftrightarrow> a = 0" "0 = uint a \<longleftrightarrow> a = 0"
  by (auto simp: word_uint_eq_iff)

lemma memcmp_eq_0_iff: "memcmp s1 s2 n = 0 \<longleftrightarrow> (\<forall>i < n. s1 i = s2 i)"
proof (induction s1 s2 n rule: memcmp.induct)
  case (1 s1 s2)
  then show ?case by simp
next
  case (2 s1 s2 n)
  then show ?case by (auto simp: less_Suc_eq_0_disj)
qed

text \<open>\<open>strncmp\<close> is 0 exactly when the strings agree up to a common end or for \<open>n\<close> characters.\<close>

lemma strncmp_eq_0_iff:
  "strncmp p q n = 0 \<longleftrightarrow> (\<forall>i < n. (\<forall>j < i. p j \<noteq> 0) \<longrightarrow> p i = q i)"
proof (induction p q n rule: strncmp.induct)
  case (1 p q)
  then show ?case by simp
next
  case (2 p q n)
  show ?case
  proof (cases "p 0 \<noteq> 0 \<and> p 0 = q 0")
    case True
    then show ?thesis using 2 by (simp add: all_less_Suc_split)
  next
    case False
    then show ?thesis by (auto simp: all_less_Suc_split)
  qed
qed

text \<open>
  \<open>slen t n\<close> is the number of characters of the string \<open>t\<close> among its first \<open>n\<close>, the length a
  copy of at most \<open>n\<close> characters has.
\<close>

fun slen :: "ptr \<Rightarrow> nat \<Rightarrow> nat" where
  "slen t 0 = 0"
| "slen t (Suc n) = (if t 0 = 0 then 0 else Suc (slen (\<lambda>i. t (Suc i)) n))"

lemma slen_le: "slen t n \<le> n"
  by (induction t n rule: slen.induct) auto

lemma slen_nonzero: "i < slen t n \<Longrightarrow> t i \<noteq> 0"
proof (induction t n arbitrary: i rule: slen.induct)
  case (1 t)
  then show ?case by simp
next
  case (2 t n)
  then show ?case by (cases i) (auto split: if_splits)
qed

lemma slen_zero: "slen t n < n \<Longrightarrow> t (slen t n) = 0"
  by (induction t n rule: slen.induct) auto

lemma slen_shift:
  "t i \<noteq> 0 \<Longrightarrow> slen (\<lambda>k. t (i + k)) (Suc n) = Suc (slen (\<lambda>k. t (Suc i + k)) n)"
  by simp

lemma slen_stop: "t i = 0 \<Longrightarrow> slen (\<lambda>k. t (i + k)) n = 0"
  by (cases n) auto

lemma strncpy_pad_apply:
  "i + n \<le> length s \<Longrightarrow> length (strncpy_pad s i n) = length s \<and>
   (\<forall>k < length s. strncpy_pad s i n ! k = (if i \<le> k \<and> k < i + n then 0 else s ! k))"
  by (induction s i n rule: strncpy_pad.induct) (auto simp: nth_list_update)

lemma strncpy_copy_apply:
  assumes "i + n \<le> length s" and "strncpy_copy s i t n = (s', i', n')"
  shows "length s' = length s \<and> i' + n' = i + n \<and>
    i' = i + min n (Suc (slen (\<lambda>k. t (i + k)) n)) \<and>
    (\<forall>k < length s. s' ! k = (if i \<le> k \<and> k < i' then t k else s ! k))"
  using assms
proof (induction s i t n arbitrary: s' i' n' rule: strncpy_copy.induct)
  case (1 s i t)
  then show ?case by auto
next
  case (2 s i t n)
  show ?case
  proof (cases "t i = 0")
    case True
    with "2.prems" show ?thesis by (auto simp: nth_list_update le_less_Suc_eq)
  next
    case False
    from 2 False have "length s' = length s \<and> i' + n' = Suc i + n \<and>
        i' = Suc i + min n (Suc (slen (\<lambda>k. t (Suc i + k)) n)) \<and>
        (\<forall>k < length s. s' ! k = (if Suc i \<le> k \<and> k < i' then t k else s[i := t i] ! k))"
      by simp
    then show ?thesis using False "2.prems" by (auto simp: slen_shift nth_list_update not_less_eq_eq le_antisym)
  qed
qed

text \<open>
  \<open>strncpy\<close> fills the first \<open>n\<close> bytes: the string's characters, then zeros; the rest of the
  array is untouched. There is no terminating zero when the string has \<open>n\<close> or more characters.
\<close>

lemma strncpy_apply:
  assumes "nat n \<le> length s"
  shows "length (strncpy s t n) = length s \<and> (\<forall>k < length s. strncpy s t n ! k =
    (if k < slen t (nat n) then t k else if k < nat n then 0 else s ! k))"
proof -
  obtain s' i' n' where c: "strncpy_copy s 0 t (nat n) = (s', i', n')"
    by (cases "strncpy_copy s 0 t (nat n)")
  have A: "length s' = length s" "i' + n' = nat n" "i' = min (nat n) (Suc (slen t (nat n)))"
    "\<And>k. k < length s \<Longrightarrow> s' ! k = (if k < i' then t k else s ! k)"
    using strncpy_copy_apply [OF _ c] assms by simp_all
  have i': "slen t (nat n) \<le> i'" "i' \<le> Suc (slen t (nat n))" "i' \<le> nat n"
    using A(2,3) slen_le [of t "nat n"] by auto
  have P: "length (strncpy_pad s' i' n') = length s'"
    "\<And>k. k < length s' \<Longrightarrow> strncpy_pad s' i' n' ! k = (if i' \<le> k \<and> k < i' + n' then 0 else s' ! k)"
    using strncpy_pad_apply [of i' n' s'] A(1,2) assms by simp_all
  have "strncpy s t n ! k = (if k < slen t (nat n) then t k else if k < nat n then 0 else s ! k)"
    if k: "k < length s" for k
  proof -
    have "t k = 0" if "\<not> k < slen t (nat n)" "k < i'"
    proof -
      have "k = slen t (nat n)" "k < nat n" using that i' by auto
      then show ?thesis using slen_zero [of t "nat n"] by simp
    qed
    then show ?thesis using k A(1,2,4) P i' by (auto simp: strncpy_def c)
  qed
  then show ?thesis using A P by (simp add: strncpy_def c)
qed

lemma safestrcpy_copy_apply:
  assumes "i + n < length s" and "safestrcpy_copy s i t n = (s', i')"
  shows "length s' = length s \<and> i \<le> i' \<and> i' \<le> i + n \<and>
    i' = i + min n (Suc (slen (\<lambda>k. t (i + k)) n)) \<and>
    (\<forall>k < length s. s' ! k = (if i \<le> k \<and> k < i' then t k else s ! k))"
  using assms
proof (induction s i t n arbitrary: s' i' rule: safestrcpy_copy.induct)
  case (1 s i t)
  then show ?case by auto
next
  case (2 s i t n)
  show ?case
  proof (cases "t i = 0")
    case True
    with "2.prems" show ?thesis by (auto simp: nth_list_update le_less_Suc_eq)
  next
    case False
    from 2 False have "length s' = length s \<and> Suc i \<le> i' \<and> i' \<le> Suc i + n \<and>
        i' = Suc i + min n (Suc (slen (\<lambda>k. t (Suc i + k)) n)) \<and>
        (\<forall>k < length s. s' ! k = (if Suc i \<le> k \<and> k < i' then t k else s[i := t i] ! k))"
      by simp
    then show ?thesis using False "2.prems" by (auto simp: slen_shift nth_list_update not_less_eq_eq le_antisym)
  qed
qed

text \<open>\<open>safestrcpy\<close> always leaves a terminated string: at most \<open>n - 1\<close> characters, then a zero.\<close>

lemma safestrcpy_apply:
  assumes "0 < n" and "nat n \<le> length s"
  shows "length (safestrcpy s t n) = length s \<and>
    (\<forall>k < slen t (nat (n - 1)). safestrcpy s t n ! k = t k) \<and>
    safestrcpy s t n ! slen t (nat (n - 1)) = 0 \<and> slen t (nat (n - 1)) < nat n"
proof -
  let ?n = "nat (n - 1)"
  obtain s' i' where c: "safestrcpy_copy s 0 t ?n = (s', i')"
    by (cases "safestrcpy_copy s 0 t ?n")
  have n: "?n < length s" using assms by linarith
  have A: "length s' = length s" "i' \<le> ?n" "i' = min ?n (Suc (slen t ?n))"
    "\<And>k. k < length s \<Longrightarrow> s' ! k = (if k < i' then t k else s ! k)"
    using safestrcpy_copy_apply [OF _ c] n by simp_all
  let ?l = "slen t ?n"
  have l: "?l \<le> ?n" by (rule slen_le)
  have i': "?l \<le> i'" "?l < ?n \<longrightarrow> i' = Suc ?l" "?l = ?n \<longrightarrow> i' = ?l" using A(3) l by auto
  have "s'[i' := 0] ! k = t k" if "k < ?l" for k
    using that A(1,2,4) i' n by (auto simp: nth_list_update)
  moreover have "s'[i' := 0] ! ?l = 0"
  proof (cases "?l < ?n")
    case True
    then show ?thesis using A(1,2,4) i' n slen_zero [of t ?n] by (auto simp: nth_list_update)
  next
    case False
    then show ?thesis using A(1) i' n l by (auto simp: nth_list_update)
  qed
  ultimately show ?thesis using A(1) l n assms by (auto simp: safestrcpy_def c)
qed

lemma strlen_from_eq:
  "t k = 0 \<Longrightarrow> (\<forall>i. n \<le> i \<and> i < k \<longrightarrow> t i \<noteq> 0) \<Longrightarrow> n \<le> k \<Longrightarrow> strlen_from t n = Some k"
proof (induction "k - n" arbitrary: n)
  case 0
  then show ?case by (subst strlen_from.simps) simp
next
  case (Suc d)
  then have "n < k" by simp
  then have "t n \<noteq> 0" using Suc.prems by simp
  moreover have "strlen_from t (Suc n) = Some k"
    by (rule Suc.hyps) (use Suc \<open>n < k\<close> in auto)
  ultimately show ?case by (subst strlen_from.simps) simp
qed

lemma strlen_eq: "t k = 0 \<Longrightarrow> (\<forall>i < k. t i \<noteq> 0) \<Longrightarrow> strlen t = Some k"
  unfolding strlen_def by (rule strlen_from_eq) auto

section \<open>Properties\<close>

text \<open>
  (C5) \<open>memmove\<close> copies correctly even when the two ranges overlap, in either direction: after
  it the destination holds the bytes the source held before, and no other byte changed. The
  ranges must not run past the end of the address space.
\<close>

theorem memmove_correct:
  assumes "unat src + n < 2 ^ 64" and "unat dst + n \<le> 2 ^ 64"
  shows "load_bytes (memmove m dst src n) dst n = load_bytes m src n \<and>
    (\<forall>x. n \<le> unat (x - dst) \<longrightarrow> memmove m dst src n x = m x)"
proof -
  have "unat (of_nat i :: uint64) = i" if "i < n" for i
    using that assms by (intro unat_of_nat_eq) simp
  then show ?thesis using assms
    by (auto simp: memmove_apply not_less intro!: nth_equalityI)
qed

text \<open>Witness: shifting four bytes up by one, onto themselves.\<close>

theorem memmove_correct_witness:
  "load_bytes (memmove (store_bytes (\<lambda>_. 0) 100 [1, 2, 3, 4]) 101 100 4) 101 4 = [1, 2, 3, 4]"
  using memmove_correct [of 100 4 101 "store_bytes (\<lambda>_. 0) 100 [1, 2, 3, 4]"]
  by (simp add: load_store_bytes)



end
