(* ===== verification/Kalloc.thy ===== *)
theory Kalloc
  imports Spinlock Kstring
begin

text \<open>
  The physical page allocator, \<^verbatim>\<open>kernel/kalloc.c\<close>. The free list is threaded through the free
  pages themselves: the first eight bytes of a free page hold the address of the next one, so
  \<open>freelist\<close> and \<open>mem\<close> together are the list. \<open>ksym_end\<close>, \<open>ksym_etext\<close> and \<open>ksym_trampoline\<close>
  are the addresses the linker gives to the symbols \<^verbatim>\<open>end\<close>, \<^verbatim>\<open>etext\<close> and \<^verbatim>\<open>trampoline\<close>.
\<close>

section \<open>State and operations\<close>

record kmem = smp +
  mem :: memory
  freelist :: uint64
  ksym_end :: uint64
  ksym_etext :: uint64
  ksym_trampoline :: uint64

definition kfree :: "uint64 \<Rightarrow> ('a kmem_scheme, unit) kmon" where
  "kfree pa = bind (gets ksym_end) (\<lambda>kend.
     if pa mod PGSIZE \<noteq> 0 \<or> pa < kend \<or> pa \<ge> PHYSTOP then panic ''kfree'' else
     bind (modify (\<lambda>s. s\<lparr>mem := memset (mem s) pa 1 4096\<rparr>)) (\<lambda>_.
     bind (acquire LKmem) (\<lambda>_.
     bind (modify (\<lambda>s. s\<lparr>mem := store64 (mem s) pa (freelist s)\<rparr>)) (\<lambda>_.
     bind (modify (\<lambda>s. s\<lparr>freelist := pa\<rparr>)) (\<lambda>_.
     release LKmem)))))"

definition kalloc :: "('a kmem_scheme, uint64) kmon" where
  "kalloc = bind (acquire LKmem) (\<lambda>_.
     bind (gets freelist) (\<lambda>r.
     bind (whenM (r \<noteq> 0) (modify (\<lambda>s. s\<lparr>freelist := load64 (mem s) r\<rparr>))) (\<lambda>_.
     bind (release LKmem) (\<lambda>_.
     bind (whenM (r \<noteq> 0) (modify (\<lambda>s. s\<lparr>mem := memset (mem s) r 5 4096\<rparr>))) (\<lambda>_.
     ret r)))))"

text \<open>The loop of \<open>freerange\<close>: \<^verbatim>\<open>for(; p + PGSIZE <= pa_end; p += PGSIZE) kfree(p);\<close>\<close>

definition freerange :: "uint64 \<Rightarrow> uint64 \<Rightarrow> ('a kmem_scheme, unit) kmon" where
  "freerange pa_start pa_end =
     loop (Suc (unat pa_end div 4096))
       (\<lambda>p. if p + PGSIZE \<le> pa_end then bind (kfree p) (\<lambda>_. ret (Inl (p + PGSIZE)))
            else ret (Inr ())) (PGROUNDUP pa_start)"

definition kinit :: "('a kmem_scheme, unit) kmon" where
  "kinit = bind (initlock LKmem ''kmem'') (\<lambda>_.
     bind (gets ksym_end) (\<lambda>kend. freerange kend PHYSTOP))"

section \<open>Pages\<close>

definition pg_ok :: "uint64 \<Rightarrow> uint64 \<Rightarrow> bool" where
  "pg_ok kend p \<longleftrightarrow> p mod 4096 = 0 \<and> kend \<le> p \<and> p < PHYSTOP \<and> p \<noteq> 0"

definition in_page :: "uint64 \<Rightarrow> uint64 \<Rightarrow> bool" where
  "in_page p x \<longleftrightarrow> unat (x - p) < 4096"

lemma aligned_unat: "p mod 4096 = (0 :: uint64) \<longleftrightarrow> unat p mod 4096 = 0"
  by (simp add: unat_arith_simps unat_mod)

lemma aligned_multE:
  assumes "(n :: nat) mod 4096 = 0"
  obtains k where "n = 4096 * k" and "n div 4096 = k"
  using assms by (metis mult_div_mod_eq add.right_neutral)

lemma div_page:
  "(x :: nat) div 4096 = k \<longleftrightarrow> 4096 * k \<le> x \<and> x < 4096 * k + 4096"
proof -
  have "x = 4096 * (x div 4096) + x mod 4096" and "x mod 4096 < 4096" by simp_all
  then show ?thesis by linarith
qed

lemma aligned_room:
  assumes "unat (p :: uint64) mod 4096 = 0"
  shows "unat p + 4096 \<le> 2 ^ 64"
proof -
  obtain k where k: "unat p = 4096 * k" using assms by (rule aligned_multE)
  have "unat p < 2 ^ 64" using unsigned_less [of p] by simp
  then have "k < 2 ^ 52" using k by simp
  then show ?thesis using k by simp
qed

lemma in_page_div:
  assumes "p mod 4096 = (0 :: uint64)"
  shows "in_page p x \<longleftrightarrow> unat x div 4096 = unat p div 4096"
proof -
  have p: "unat p mod 4096 = 0" using assms by (simp add: aligned_unat)
  obtain k where k: "unat p = 4096 * k" "unat p div 4096 = k" using p by (rule aligned_multE)
  show ?thesis
  proof (cases "p \<le> x")
    case True
    then have "unat (x - p) = unat x - unat p" and "unat p \<le> unat x"
      by (simp_all add: unat_sub word_le_nat_alt)
    then show ?thesis using k unfolding in_page_def k(2) div_page by linarith
  next
    case False
    then have lt: "unat x < unat p" by (simp add: word_le_nat_alt)
    have "unat (x - p) = unat x + 2 ^ 64 - unat p"
      using lt by (simp add: unat_sub_if')
    then have "\<not> in_page p x" using lt aligned_room [OF p] unfolding in_page_def by linarith
    moreover have "unat x div 4096 \<noteq> k" using lt k unfolding div_page by linarith
    ultimately show ?thesis using k(2) by simp
  qed
qed

lemma in_page_unique:
  assumes "p mod 4096 = 0" and "q mod 4096 = 0" and "in_page p x" and "in_page q x"
  shows "p = q"
proof -
  have "unat p div 4096 = unat q div 4096" using assms by (simp add: in_page_div)
  moreover have "unat p mod 4096 = unat q mod 4096" using assms by (simp add: aligned_unat)
  ultimately have "unat p = unat q" by (metis mult_div_mod_eq)
  then show "p = q" by (simp add: word_unat_eq_iff)
qed

lemma in_page_offset [simp]: "i < 4096 \<Longrightarrow> in_page p (p + of_nat i)"
  by (simp add: in_page_def unat_of_nat_eq)

lemma in_page_self [simp]: "in_page p p"
  by (simp add: in_page_def)

text \<open>Writes inside one page do not change a word read from another.\<close>

lemma load64_other_page:
  assumes "p mod 4096 = 0" and "q mod 4096 = 0" and "p \<noteq> q"
    and "\<And>x. \<not> in_page p x \<Longrightarrow> m' x = m x"
  shows "load64 m' q = load64 m q"
proof (rule load64_cong)
  fix i :: nat assume "i < 8"
  then have "in_page q (q + of_nat i)" by simp
  then have "\<not> in_page p (q + of_nat i)" using assms(1-3) by (metis in_page_unique)
  then show "m' (q + of_nat i) = m (q + of_nat i)" by (rule assms(4))
qed

lemma memset_page: "memset m p c 4096 x = (if in_page p x then c else m x)"
  by (simp add: memset_apply in_page_def)

lemma store64_page: "\<not> in_page p x \<Longrightarrow> store64 m p v x = m x"
  by (simp add: store64_def store_bytes_apply in_page_def)


lemma unat_lt64: "unat (a :: uint64) < 18446744073709551616"
  using unsigned_less [of a, where 'a = nat] by simp
lemma and_not_4095: "a AND NOT (4095 :: uint64) = push_bit 12 (drop_bit 12 a)"
proof -
  have m: "(4095 :: uint64) = mask 12" by (simp add: mask_eq_exp_minus_1)
  show ?thesis unfolding m by (auto intro!: bit_word_eqI simp: bit_simps)
qed
lemma unat_and_not_4095: "unat (a AND NOT (4095 :: uint64)) = unat a div 4096 * 4096"
proof -
  have lt: "unat a div 4096 * 4096 < 2 ^ 64" 
    using unat_lt64 [of a] by simp
  have "unat (push_bit 12 (drop_bit 12 a)) = take_bit 64 (unat a div 4096 * 4096)"
    by (simp only: unsigned_push_bit_eq unsigned_drop_bit_eq) (simp add: drop_bit_eq_div push_bit_eq_mult take_bit_nat_eq_self unat_lt64)
  also have "\<dots> = unat a div 4096 * 4096" using lt by (simp add: take_bit_nat_eq_self)
  finally show ?thesis unfolding and_not_4095 .
qed
lemma unat_PGROUNDUP:
  assumes "unat sz + 4095 < 2 ^ 64"
  shows "unat (PGROUNDUP sz) = (unat sz + 4095) div 4096 * 4096"
proof -
  have "unat (sz + 4095) = unat sz + 4095"
    using assms unat_add_nat [of sz 4095] by simp
  then show ?thesis using unat_and_not_4095 [of "sz + 4095"] by (simp add: PGROUNDUP_def add.commute)
qed
lemma unat_PGROUNDDOWN: "unat (PGROUNDDOWN a) = unat a div 4096 * 4096"
  using unat_and_not_4095 [of a] by (simp add: PGROUNDDOWN_def)
section \<open>The free list\<close>

primrec flist :: "memory \<Rightarrow> uint64 \<Rightarrow> uint64 list \<Rightarrow> bool" where
  "flist m p [] = (p = 0)"
| "flist m p (q # qs) = (p = q \<and> q \<noteq> 0 \<and> flist m (load64 m q) qs)"

lemma flist_cong:
  "(\<And>q. q \<in> set qs \<Longrightarrow> load64 m' q = load64 m q) \<Longrightarrow> flist m' p qs = flist m p qs"
  by (induction qs arbitrary: p) auto

lemma flist_unique: "flist m p qs \<Longrightarrow> flist m p rs \<Longrightarrow> qs = rs"
proof (induction qs arbitrary: p rs)
  case Nil
  then show ?case by (cases rs) auto
next
  case (Cons q qs)
  then show ?case by (cases rs) auto
qed

text \<open>
  The allocator's invariant: \<open>ps\<close> are the free pages in list order, all of them distinct,
  page-aligned and between the end of the kernel and the top of memory.
\<close>

definition kmem_inv :: "'a kmem_scheme \<Rightarrow> uint64 list \<Rightarrow> bool" where
  "kmem_inv s ps \<longleftrightarrow> flist (mem s) (freelist s) ps \<and> distinct ps \<and> (\<forall>p \<in> set ps. pg_ok (ksym_end s) p)"

definition kmem_ready :: "'a kmem_scheme \<Rightarrow> bool" where
  "kmem_ready s \<longleftrightarrow> lock_free (locks s LKmem) \<and> cpu_ok (harts s) (cur s) (cpus s)"

lemma kfree_apply:
  assumes "kmem_ready s" and "pg_ok (ksym_end s) pa"
  shows "kfree pa s e = Ret () (s\<lparr>cpus := calm (harts s) (cur s) (cpus s),
     mem := store64 (memset (mem s) pa 1 4096) pa (freelist s), freelist := pa\<rparr>) e"
  using assms by (simp add: kfree_def kmon_simps kmem_ready_def pg_ok_def not_less not_le)

lemma kfree_panics:
  assumes "pa mod 4096 \<noteq> 0 \<or> pa < ksym_end s \<or> pa \<ge> PHYSTOP"
  shows "kfree pa s e = Panic ''kfree'' s"
  using assms by (simp add: kfree_def kmon_simps)

lemma kalloc_none:
  assumes "kmem_ready s" and "freelist s = 0"
  shows "kalloc s e = Ret 0 (s\<lparr>cpus := calm (harts s) (cur s) (cpus s)\<rparr>) e"
  using assms by (simp add: kalloc_def kmon_simps kmem_ready_def)

lemma kalloc_some:
  assumes "kmem_ready s" and "freelist s \<noteq> 0"
  shows "kalloc s e = Ret (freelist s) (s\<lparr>freelist := load64 (mem s) (freelist s),
     cpus := calm (harts s) (cur s) (cpus s), mem := memset (mem s) (freelist s) 5 4096\<rparr>) e"
  using assms by (simp add: kalloc_def kmon_simps kmem_ready_def)


lemma kmem_ready_calm [simp]:
  "kmem_ready (s\<lparr>cpus := calm (harts s) (cur s) (cpus s)\<rparr>) = kmem_ready s"
  by (simp add: kmem_ready_def)

text \<open>Freeing a page puts it at the front of the list; the other pages keep their links.\<close>

lemma kfree_links:
  assumes "kmem_inv s ps" and "pg_ok (ksym_end s) pa" and "pa \<notin> set ps"
  shows "kmem_inv (s\<lparr>cpus := k, mem := store64 (memset (mem s) pa 1 4096) pa (freelist s),
    freelist := pa\<rparr>) (pa # ps)"
proof -
  let ?m = "store64 (memset (mem s) pa 1 4096) pa (freelist s)"
  have "load64 ?m q = load64 (mem s) q" if "q \<in> set ps" for q
  proof (rule load64_other_page)
    show "pa mod 4096 = 0" "q mod 4096 = 0" "pa \<noteq> q"
      using assms that by (auto simp: kmem_inv_def pg_ok_def)
    show "?m x = mem s x" if "\<not> in_page pa x" for x
      using that by (simp add: store64_page memset_page)
  qed
  then have "flist ?m (freelist s) ps"
    using assms(1) flist_cong [of ps ?m "mem s"] by (simp add: kmem_inv_def)
  then show ?thesis using assms by (simp add: kmem_inv_def pg_ok_def load64_store64)
qed

lemma kalloc_links:
  assumes "kmem_inv s (p # ps)"
  shows "kmem_inv (s\<lparr>freelist := load64 (mem s) p, cpus := k, mem := memset (mem s) p 5 4096\<rparr>) ps"
proof -
  have "load64 (memset (mem s) p 5 4096) q = load64 (mem s) q" if "q \<in> set ps" for q
  proof (rule load64_other_page)
    show "p mod 4096 = 0" "q mod 4096 = 0" "p \<noteq> q"
      using assms that by (auto simp: kmem_inv_def pg_ok_def)
    show "memset (mem s) p 5 4096 x = mem s x" if "\<not> in_page p x" for x
      using that by (simp add: memset_page)
  qed
  then have "flist (memset (mem s) p 5 4096) (load64 (mem s) p) ps"
    using assms flist_cong [of ps "memset (mem s) p 5 4096" "mem s"] by (simp add: kmem_inv_def)
  then show ?thesis using assms by (simp add: kmem_inv_def)
qed

lemma kmem_inv_calm [simp]: "kmem_inv (s\<lparr>cpus := k\<rparr>) ps = kmem_inv s ps"
  by (simp add: kmem_inv_def)

lemma kmem_inv_head:
  "kmem_inv s (p # ps) \<Longrightarrow> freelist s = p \<and> p \<noteq> 0"
  "kmem_inv s [] \<Longrightarrow> freelist s = 0"
  by (auto simp: kmem_inv_def)

text \<open>What \<open>kalloc\<close> and \<open>kfree\<close> leave of the rest of memory.\<close>

definition same_off_page :: "uint64 \<Rightarrow> memory \<Rightarrow> memory \<Rightarrow> bool" where
  "same_off_page p m m' \<longleftrightarrow> (\<forall>x. \<not> in_page p x \<longrightarrow> m' x = m x)"

lemma kalloc_runs:
  assumes "kmem_ready s" and "kmem_inv s (p # ps)"
  shows "runs kalloc s e (\<lambda>r s' e'. r = p \<and> e' = e \<and> kmem_ready s' \<and> kmem_inv s' ps \<and>
     same_off_page p (mem s) (mem s') \<and> (\<forall>i < 4096. mem s' (p + of_nat i) = 5) \<and>
     ksym_end s' = ksym_end s \<and> harts s' = harts s \<and> locks s' = locks s)"
  using assms kmem_inv_head(1) [OF assms(2)] kalloc_links [OF assms(2)]
  by (auto simp: runs_def kalloc_some kmem_ready_def same_off_page_def memset_page)

lemma kfree_runs:
  assumes "kmem_ready s" and "kmem_inv s ps" and "pg_ok (ksym_end s) pa" and "pa \<notin> set ps"
  shows "runs (kfree pa) s e (\<lambda>r s' e'. e' = e \<and> kmem_ready s' \<and> kmem_inv s' (pa # ps) \<and>
     same_off_page pa (mem s) (mem s') \<and> ksym_end s' = ksym_end s \<and> harts s' = harts s \<and>
     locks s' = locks s)"
  using assms kfree_links [OF assms(2-4)]
  by (auto simp: runs_def kfree_apply kmem_ready_def same_off_page_def store64_page memset_page)

section \<open>Start-up\<close>

text \<open>
  \<open>freerange\<close> frees the whole pages of the range from the lowest up, so the list it builds
  runs from the highest page down.
\<close>

definition pages_from :: "uint64 \<Rightarrow> nat \<Rightarrow> uint64 list" where
  "pages_from p n = map (\<lambda>i. p + of_nat i * 4096) [0..<n]"

lemma pages_from_Suc: "pages_from p (Suc n) = p # pages_from (p + 4096) n"
proof -
  have "pages_from p (Suc n) = map (\<lambda>i. p + of_nat i * 4096) (0 # map Suc [0..<n])"
    by (simp only: pages_from_def upt_rec [of 0 "Suc n"] map_Suc_upt) simp
  also have "\<dots> = p # pages_from (p + 4096) n"
    by (simp add: pages_from_def algebra_simps comp_def)
  finally show ?thesis .
qed

lemma pg_ok_nat:
  "pg_ok kend p \<longleftrightarrow> unat p mod 4096 = 0 \<and> unat kend \<le> unat p \<and> unat p < 0x88000000 \<and> unat p \<noteq> 0"
  by (auto simp: pg_ok_def aligned_unat word_le_nat_alt word_less_nat_alt unat_eq_0)

lemma freerange_loop:
  assumes "kmem_ready s" and "kmem_inv s ps" and "unat p mod 4096 = 0" and "p \<noteq> 0"
    and "ksym_end s \<le> p" and "unat pe \<le> 0x88000000" and "unat p + 4096 * n \<le> unat pe"
    and "unat pe < unat p + 4096 * n + 4096" and "\<And>q. q \<in> set ps \<Longrightarrow> q < p" and "n < fuel"
  shows "runs (loop fuel (\<lambda>p. if p + PGSIZE \<le> pe then bind (kfree p) (\<lambda>_. ret (Inl (p + PGSIZE)))
            else ret (Inr ())) p) s e
     (\<lambda>_ s' e'. e' = e \<and> kmem_ready s' \<and> kmem_inv s' (rev (pages_from p n) @ ps))"
  using assms
proof (induction n arbitrary: s ps p fuel)
  case 0
  obtain k where k: "fuel = Suc k" using 0(10) by (cases fuel) auto
  have up: "unat (p + 4096) = unat p + 4096"
    using "0.prems"(6,7) unat_add_nat [of p 4096] by simp
  have "\<not> p + 4096 \<le> pe" using "0.prems"(8) by (simp add: word_le_nat_alt up)
  then show ?case using "0.prems"(1,2) by (simp add: k runs_def kmon_simps pages_from_def)
next
  case (Suc n)
  obtain k where k: "fuel = Suc k" using Suc.prems(10) by (cases fuel) auto
  have up: "unat (p + 4096) = unat p + 4096"
    using Suc.prems(6,7) unat_add_nat [of p 4096] by simp
  have le: "p + 4096 \<le> pe" using Suc.prems(7) by (simp add: word_le_nat_alt up)
  have ok: "pg_ok (ksym_end s) p" using Suc.prems(3-7)
    by (auto simp: pg_ok_nat word_le_nat_alt unat_eq_0)
  have new: "p \<notin> set ps" using Suc.prems(9) [of p] by auto
  obtain s' where s': "kfree p s e = Ret () s' e" "kmem_ready s'" "kmem_inv s' (p # ps)"
      "ksym_end s' = ksym_end s"
    using kfree_runs [OF Suc.prems(1,2) ok new, of e] by (auto simp: runs_def)
  have lt: "q < p + 4096" if "q \<in> set (p # ps)" for q
    using that Suc.prems(9) [of q] up by (auto simp: word_less_nat_alt)
  have "p + 4096 \<noteq> 0" using up by (metis unat_0 add_is_0 zero_neq_numeral)
  moreover have "ksym_end s' \<le> p + 4096" using Suc.prems(5) s'(4) up
    by (simp add: word_le_nat_alt)
  moreover have "unat (p + 4096) mod 4096 = 0" using Suc.prems(3) up by simp
  ultimately have "runs (loop k (\<lambda>p. if p + PGSIZE \<le> pe then bind (kfree p) (\<lambda>_. ret (Inl (p + PGSIZE)))
            else ret (Inr ())) (p + 4096)) s' e
     (\<lambda>_ s' e'. e' = e \<and> kmem_ready s' \<and> kmem_inv s' (rev (pages_from (p + 4096) n) @ p # ps))"
    using Suc.prems(6-8,10) up k lt by (intro Suc.IH [OF s'(2,3)]) auto
  then show ?case using le s'(1) by (simp add: k runs_def kmon_simps pages_from_Suc)
qed

lemma set_pages_from:
  assumes "unat p + 4096 * n < 2 ^ 64" and "unat p mod 4096 = 0"
  shows "q \<in> set (pages_from p n) \<longleftrightarrow>
    unat q mod 4096 = 0 \<and> unat p \<le> unat q \<and> unat q < unat p + 4096 * n"
proof
  assume "q \<in> set (pages_from p n)"
  then obtain i where i: "i < n" "q = p + of_nat (i * 4096)" by (auto simp: pages_from_def)
  have "unat q = unat p + i * 4096" unfolding i(2) using assms(1) i(1) by (intro unat_add_nat) simp
  then show "unat q mod 4096 = 0 \<and> unat p \<le> unat q \<and> unat q < unat p + 4096 * n"
    using i(1) assms(2) by auto
next
  assume q: "unat q mod 4096 = 0 \<and> unat p \<le> unat q \<and> unat q < unat p + 4096 * n"
  obtain j k where jk: "unat q = 4096 * j" "unat p = 4096 * k"
    using q assms(2) by (metis aligned_multE)
  have "unat q = unat p + (j - k) * 4096" "j - k < n" using jk q by auto
  then have "unat (p + of_nat ((j - k) * 4096)) = unat q"
    using assms(1) by (subst unat_add_nat) simp_all
  then have "q = p + of_nat (j - k) * 4096" by (simp add: word_unat_eq_iff)
  then show "q \<in> set (pages_from p n)" using \<open>j - k < n\<close> by (auto simp: pages_from_def)
qed

lemma kinit_runs:
  assumes "cpu_ok (harts s) (cur s) (cpus s)" and "freelist s = 0"
    and "0 < ksym_end s" and "ksym_end s \<le> PHYSTOP"
  shows "runs kinit s e (\<lambda>_ s' e'. e' = e \<and> kmem_ready s' \<and>
     (\<exists>ps. kmem_inv s' ps \<and> set ps = {p. pg_ok (ksym_end s) p}))"
proof -
  let ?k = "unat (ksym_end s)" let ?p = "PGROUNDUP (ksym_end s)"
  let ?s = "upd_lock LKmem (\<lambda>_. \<lparr>lk_locked = 0, lk_name = ''kmem'', lk_cpu = None\<rparr>) s"
  have k: "0 < ?k" "?k \<le> 0x88000000" using assms(3,4)
    by (simp_all add: word_le_nat_alt word_less_nat_alt)
  have p: "unat ?p = (?k + 4095) div 4096 * 4096" using k by (intro unat_PGROUNDUP) simp
  define n where "n = (0x88000000 - unat ?p) div 4096"
  have b: "?k \<le> unat ?p" "unat ?p < ?k + 4096" using p by linarith+
  have al: "unat ?p mod 4096 = 0" using p by simp
  then obtain j where j: "unat ?p = 4096 * j" by (rule aligned_multE)
  then have "j \<le> 0x88000" using b k by linarith
  then have n: "unat ?p + 4096 * n = 0x88000000" using j n_def by simp
  have "runs (freerange (ksym_end s) PHYSTOP) ?s e (\<lambda>_ s' e'. e' = e \<and> kmem_ready s' \<and>
     kmem_inv s' (rev (pages_from ?p n) @ []))"
    unfolding freerange_def
    by (rule freerange_loop) (use assms n b k al in
      \<open>auto simp: kmem_ready_def upd_lock_def lock_free_def kmem_inv_def word_le_nat_alt\<close>)
  moreover have "set (pages_from ?p n) = {p. pg_ok (ksym_end s) p}"
  proof -
    have "q \<in> set (pages_from ?p n) \<longleftrightarrow> pg_ok (ksym_end s) q" for q
    proof -
      have "?k \<le> unat q \<longleftrightarrow> unat ?p \<le> unat q" if q: "unat q mod 4096 = 0"
      proof -
        obtain i where i: "unat q = 4096 * i" using q by (rule aligned_multE)
        have "?k \<le> 4096 * i \<longleftrightarrow> j \<le> i" using b j by (intro iffI) linarith+
        then show ?thesis by (simp add: i j)
      qed
      then show ?thesis using n al k by (subst set_pages_from) (auto simp: pg_ok_nat)
    qed
    then show ?thesis by auto
  qed
  ultimately show ?thesis
    by (auto simp: kinit_def runs_def initlock_def kmon_simps upd_lock_def
        intro!: exI [of _ "rev (pages_from ?p n)"])
qed

section \<open>The allocator as an interface\<close>

text \<open>
  What the callers of the allocator rely on: \<open>pool s ps\<close> says that \<open>ps\<close> are the free pages;
  an allocation takes one of them, or returns 0 when there is none, and a page handed back is
  free again. Taking several pages in a row is the client: they are pairwise different.
\<close>

primrec take_pages :: "('s, uint64) kmon \<Rightarrow> nat \<Rightarrow> ('s, uint64 list) kmon" where
  "take_pages alloc 0 = ret []"
| "take_pages alloc (Suc n) = bind alloc (\<lambda>p. bind (take_pages alloc n) (\<lambda>ps. ret (p # ps)))"

locale page_pool =
  fixes alloc :: "('s, uint64) kmon"
    and free :: "uint64 \<Rightarrow> ('s, unit) kmon"
    and pool :: "'s \<Rightarrow> uint64 list \<Rightarrow> bool"
    and valid :: "'s \<Rightarrow> uint64 \<Rightarrow> bool"
  assumes pool_distinct: "pool s ps \<Longrightarrow> distinct ps \<and> (\<forall>p \<in> set ps. valid s p \<and> p \<noteq> 0)"
    and alloc_empty: "pool s [] \<Longrightarrow> runs alloc s e (\<lambda>p s' e'. p = 0 \<and> pool s' [])"
    and alloc_page: "pool s (p # ps) \<Longrightarrow>
      runs alloc s e (\<lambda>q s' e'. q = p \<and> pool s' ps \<and> (\<forall>x. valid s' x = valid s x))"
    and free_page: "pool s ps \<Longrightarrow> valid s p \<Longrightarrow> p \<notin> set ps \<Longrightarrow>
      runs (free p) s e (\<lambda>_ s' e'. pool s' (p # ps) \<and> (\<forall>x. valid s' x = valid s x))"
begin

lemma take_pages_runs:
  "pool s (ps @ qs) \<Longrightarrow> runs (take_pages alloc (length ps)) s e
     (\<lambda>r s' e'. r = ps \<and> pool s' qs \<and> (\<forall>x. valid s' x = valid s x))"
proof (induction ps arbitrary: s e)
  case Nil
  then show ?case by (simp add: runs_def ret_def)
next
  case (Cons p ps)
  obtain s' e' where 1: "alloc s e = Ret p s' e'" "pool s' (ps @ qs)" "\<forall>x. valid s' x = valid s x"
    using alloc_page [of s p "ps @ qs" e] Cons.prems by (auto simp: runs_def)
  then show ?case using Cons.IH [OF 1(2), of e'] by (auto simp: runs_def kmon_simps)
qed

lemma take_pages_distinct:
  assumes "pool s (ps @ qs)"
  shows "runs (take_pages alloc (length ps)) s e
     (\<lambda>r s' e'. length r = length ps \<and> distinct r \<and> 0 \<notin> set r \<and> pool s' qs \<and> set r \<inter> set qs = {})"
  using pool_distinct [OF assms] by (intro runs_mono [OF take_pages_runs [OF assms]]) auto

lemma free_alloc:
  assumes "pool s ps" and "valid s p" and "p \<notin> set ps"
  shows "runs (bind (free p) (\<lambda>_. alloc)) s e (\<lambda>q s' e'. q = p \<and> pool s' ps)"
proof (rule runs_bind, rule runs_mono [OF free_page [OF assms]])
  fix u s' e' assume "pool s' (p # ps) \<and> (\<forall>x. valid s' x = valid s x)"
  then show "runs alloc s' e' (\<lambda>q s' e'. q = p \<and> pool s' ps)"
    using alloc_page [of s' p ps e'] by (auto simp: runs_def)
qed

end

interpretation kp: page_pool kalloc kfree "\<lambda>s ps. kmem_ready s \<and> kmem_inv s ps" "\<lambda>s. pg_ok (ksym_end s)"
proof (unfold_locales, goal_cases)
  case (1 s ps)
  then show ?case by (auto simp: kmem_inv_def pg_ok_def)
next
  case (2 s e)
  then show ?case using kmem_inv_head(2) [of s] by (auto simp: runs_def kalloc_none)
next
  case (3 s p ps e)
  then show ?case by (intro runs_mono [OF kalloc_runs]) auto
next
  case (4 s ps p e)
  then show ?case by (intro runs_mono [OF kfree_runs]) auto
qed

section \<open>Properties\<close>

text \<open>
  (C7) Allocating pages. While the list has pages, \<open>kalloc\<close> returns free pages and no page
  twice: \<open>n\<close> calls return \<open>n\<close> different non-null pages, none of which is still free. With no
  free page it returns 0. A page that is freed is the next one \<open>kalloc\<close> returns. Every call
  keeps the list well formed.
\<close>

theorem kalloc_distinct_pages:
  assumes "kmem_ready s" and "kmem_inv s (ps @ qs)"
    and "pg_ok (ksym_end s) p" and "p \<notin> set (ps @ qs)"
  shows "runs (take_pages kalloc (length ps)) s e (\<lambda>r s' e'. length r = length ps \<and> distinct r \<and>
       0 \<notin> set r \<and> set r \<inter> set qs = {} \<and> kmem_ready s' \<and> kmem_inv s' qs) \<and>
    runs (bind (kfree p) (\<lambda>_. kalloc)) s e (\<lambda>r s' e'. r = p \<and> kmem_ready s' \<and> kmem_inv s' (ps @ qs)) \<and>
    (ps @ qs = [] \<longrightarrow> runs kalloc s e (\<lambda>r s' e'. r = 0 \<and> kmem_inv s' []))"
  using assms kp.take_pages_distinct [of s ps qs e] kp.free_alloc [of s "ps @ qs" p e]
    kp.alloc_empty [of s e] by (auto elim!: runs_mono)

text \<open>Witness: two free pages, threaded through memory.\<close>

definition kmem_ex :: kmem where
  "kmem_ex = smp.extend smp0 (kmem.fields (store64 (store64 (\<lambda>_. 0) 0x80101000 0x80102000) 0x80102000 0)
     0x80101000 0x80100000 0x80008000 0x80007000)"

lemma kmem_ex_fields [simp]:
  "mem kmem_ex = store64 (store64 (\<lambda>_. 0) 0x80101000 0x80102000) 0x80102000 0"
  "freelist kmem_ex = 0x80101000" "ksym_end kmem_ex = 0x80100000" "harts kmem_ex = harts smp0"
  "cur kmem_ex = cur smp0" "cpus kmem_ex = cpus smp0" "locks kmem_ex = locks smp0"
  by (simp_all add: kmem_ex_def smp.extend_def kmem.fields_def)

lemma kmem_ex_ready [simp]: "kmem_ready kmem_ex"
  by (simp add: kmem_ready_def)

lemma kmem_ex_inv: "kmem_inv kmem_ex [0x80101000, 0x80102000]"
proof -
  have "load64 (mem kmem_ex) 0x80101000 = load64 (store64 (\<lambda>_. 0) 0x80101000 0x80102000) 0x80101000"
    by (rule load64_other_page [where p = "0x80102000"]) (simp_all add: store64_page)
  then show ?thesis by (simp add: kmem_inv_def pg_ok_def load64_store64)
qed

theorem kalloc_distinct_pages_witness:
  "runs (take_pages kalloc 2) kmem_ex [] (\<lambda>r s' e'. length r = 2 \<and> distinct r \<and> kmem_inv s' [])"
proof -
  let ?ps = "[0x80101000, 0x80102000 :: uint64]"
  have "runs (take_pages kalloc (length ?ps)) kmem_ex [] (\<lambda>r s' e'. length r = length ?ps \<and>
      distinct r \<and> 0 \<notin> set r \<and> set r \<inter> set [] = {} \<and> kmem_ready s' \<and> kmem_inv s' [])"
    by (rule conjunct1 [OF kalloc_distinct_pages [where p = "0x80103000"]])
      (simp_all add: kmem_ex_inv pg_ok_def)
  then show ?thesis by (auto simp: numeral_2_eq_2 elim!: runs_mono)
qed

text \<open>
  (C8) Start-up. When the kernel image ends below the top of memory, \<open>kinit\<close> returns, and the
  free pages are then exactly the page-aligned addresses from the end of the image to
  \<^verbatim>\<open>PHYSTOP\<close>, each on the list once.
\<close>

theorem kinit_all_pages:
  assumes "cpu_ok (harts s) (cur s) (cpus s)" and "freelist s = 0"
    and "0 < ksym_end s" and "ksym_end s \<le> PHYSTOP"
  shows "runs kinit s e (\<lambda>_ s' e'. e' = e \<and> kmem_ready s' \<and>
     (\<exists>ps. kmem_inv s' ps \<and> set ps = {p. pg_ok (ksym_end s) p}))"
  using assms by (rule kinit_runs)

theorem kinit_all_pages_witness:
  "runs kinit (kmem_ex\<lparr>freelist := 0\<rparr>) [] (\<lambda>_ s' e'. e' = [] \<and> kmem_ready s' \<and>
     (\<exists>ps. kmem_inv s' ps \<and> set ps = {p. pg_ok 0x80100000 p}))"
  using kinit_all_pages [of "kmem_ex\<lparr>freelist := 0\<rparr>" "[]"] by simp

end
