(* ===== verification/Vm.thy ===== *)
theory Vm
  imports Kalloc
begin

text \<open>
  Page tables and user memory, \<^verbatim>\<open>kernel/vm.c\<close>, with \<^verbatim>\<open>proc_mapstacks\<close> of \<^verbatim>\<open>kernel/proc.c\<close>. A page
  table is what it is in the kernel: the bytes of its pages in physical memory, and a pointer
  to a page-table entry is the entry's address. The kernel's side of \<open>copyout\<close> and \<open>copyin\<close>
  is a byte list, since the callers pass a local variable or a buffer that is not in a page of
  the allocator. Return values 0 and -1 are integers as in the code.
\<close>

section \<open>State and operations\<close>

record vmem = kmem +
  kernel_pagetable :: uint64

definition rd_pte :: "uint64 \<Rightarrow> ('a vmem_scheme, uint64) kmon" where
  "rd_pte a = gets (\<lambda>s. load64 (mem s) a)"

definition wr_pte :: "uint64 \<Rightarrow> uint64 \<Rightarrow> ('a vmem_scheme, unit) kmon" where
  "wr_pte a v = modify (\<lambda>s. s\<lparr>mem := store64 (mem s) a v\<rparr>)"

definition zero_page :: "uint64 \<Rightarrow> ('a vmem_scheme, unit) kmon" where
  "zero_page p = modify (\<lambda>s. s\<lparr>mem := memset (mem s) p 0 4096\<rparr>)"

definition pte_addr :: "uint64 \<Rightarrow> nat \<Rightarrow> uint64 \<Rightarrow> uint64" where
  "pte_addr pagetable level va = pagetable + 8 * PX level va"

text \<open>The loop of \<open>walk\<close>, from a given level down.\<close>

primrec walk_from :: "nat \<Rightarrow> uint64 \<Rightarrow> uint64 \<Rightarrow> bool \<Rightarrow> ('a vmem_scheme, uint64) kmon" where
  "walk_from 0 pagetable va alloc = ret (pte_addr pagetable 0 va)"
| "walk_from (Suc level) pagetable va alloc =
     bind (rd_pte (pte_addr pagetable (Suc level) va)) (\<lambda>pte.
     if pte AND PTE_V \<noteq> 0 then walk_from level (PTE2PA pte) va alloc
     else if \<not> alloc then ret 0
     else bind kalloc (\<lambda>pg.
       if pg = 0 then ret 0
       else bind (zero_page pg) (\<lambda>_.
         bind (wr_pte (pte_addr pagetable (Suc level) va) (PA2PTE pg OR PTE_V)) (\<lambda>_.
         walk_from level pg va alloc))))"

definition walk :: "uint64 \<Rightarrow> uint64 \<Rightarrow> bool \<Rightarrow> ('a vmem_scheme, uint64) kmon" where
  "walk pagetable va alloc = (if va \<ge> MAXVA then panic ''walk'' else walk_from 2 pagetable va alloc)"

definition walkaddr :: "uint64 \<Rightarrow> uint64 \<Rightarrow> ('a vmem_scheme, uint64) kmon" where
  "walkaddr pagetable va = (if va \<ge> MAXVA then ret 0 else
     bind (walk pagetable va False) (\<lambda>pte.
     if pte = 0 then ret 0 else
     bind (rd_pte pte) (\<lambda>v.
     if v AND PTE_V = 0 then ret 0
     else if v AND PTE_U = 0 then ret 0
     else ret (PTE2PA v))))"

definition mappages_round :: "uint64 \<Rightarrow> uint64 \<Rightarrow> uint64 \<Rightarrow> uint64 \<times> uint64 \<Rightarrow>
    ('a vmem_scheme, (uint64 \<times> uint64) + int) kmon" where
  "mappages_round pagetable perm lst = (\<lambda>(a, pa).
     bind (walk pagetable a True) (\<lambda>pte.
     if pte = 0 then ret (Inr (- 1)) else
     bind (rd_pte pte) (\<lambda>v.
     if v AND PTE_V \<noteq> 0 then panic ''mappages: remap'' else
     bind (wr_pte pte (PA2PTE pa OR perm OR PTE_V)) (\<lambda>_.
     ret (if a = lst then Inr 0 else Inl (a + PGSIZE, pa + PGSIZE))))))"

definition mappages :: "uint64 \<Rightarrow> uint64 \<Rightarrow> uint64 \<Rightarrow> uint64 \<Rightarrow> uint64 \<Rightarrow> ('a vmem_scheme, int) kmon" where
  "mappages pagetable va sz pa perm = (if sz = 0 then panic ''mappages: size'' else
     let a = PGROUNDDOWN va; lst = PGROUNDDOWN (va + sz - 1) in
     loop (Suc (unat (lst - a) div 4096)) (mappages_round pagetable perm lst) (a, pa))"

definition kvmmap :: "uint64 \<Rightarrow> uint64 \<Rightarrow> uint64 \<Rightarrow> uint64 \<Rightarrow> uint64 \<Rightarrow> ('a vmem_scheme, unit) kmon" where
  "kvmmap kpgtbl va pa sz perm =
     bind (mappages kpgtbl va sz pa perm) (\<lambda>r. if r \<noteq> 0 then panic ''kvmmap'' else ret ())"

definition proc_mapstacks :: "uint64 \<Rightarrow> ('a vmem_scheme, unit) kmon" where
  "proc_mapstacks kpgtbl = for_each [0..<NPROC] (\<lambda>p.
     bind kalloc (\<lambda>pa.
     if pa = 0 then panic ''kalloc''
     else kvmmap kpgtbl (KSTACK p) pa PGSIZE (PTE_R OR PTE_W)))"

definition kvmmake :: "('a vmem_scheme, uint64) kmon" where
  "kvmmake = bind kalloc (\<lambda>kpgtbl.
     bind (zero_page kpgtbl) (\<lambda>_.
     bind (kvmmap kpgtbl UART0 UART0 PGSIZE (PTE_R OR PTE_W)) (\<lambda>_.
     bind (kvmmap kpgtbl VIRTIO0 VIRTIO0 PGSIZE (PTE_R OR PTE_W)) (\<lambda>_.
     bind (kvmmap kpgtbl PLIC PLIC 0x400000 (PTE_R OR PTE_W)) (\<lambda>_.
     bind (gets ksym_etext) (\<lambda>etext.
     bind (kvmmap kpgtbl KERNBASE KERNBASE (etext - KERNBASE) (PTE_R OR PTE_X)) (\<lambda>_.
     bind (kvmmap kpgtbl etext etext (PHYSTOP - etext) (PTE_R OR PTE_W)) (\<lambda>_.
     bind (gets ksym_trampoline) (\<lambda>trampoline.
     bind (kvmmap kpgtbl TRAMPOLINE trampoline PGSIZE (PTE_R OR PTE_X)) (\<lambda>_.
     bind (proc_mapstacks kpgtbl) (\<lambda>_.
     ret kpgtbl)))))))))))"

definition kvminit :: "('a vmem_scheme, unit) kmon" where
  "kvminit = bind kvmmake (\<lambda>p. modify (\<lambda>s. s\<lparr>kernel_pagetable := p\<rparr>))"

definition kvminithart :: "('a vmem_scheme, unit) kmon" where
  "kvminithart = bind sfence_vma (\<lambda>_.
     bind (gets kernel_pagetable) (\<lambda>p.
     bind (w_satp (MAKE_SATP p)) (\<lambda>_. sfence_vma)))"

definition uvmunmap :: "uint64 \<Rightarrow> uint64 \<Rightarrow> uint64 \<Rightarrow> bool \<Rightarrow> ('a vmem_scheme, unit) kmon" where
  "uvmunmap pagetable va npages do_free = (if va mod PGSIZE \<noteq> 0 then panic ''uvmunmap: not aligned'' else
     loop (Suc (unat npages)) (\<lambda>a.
       if \<not> a < va + npages * PGSIZE then ret (Inr ()) else
       bind (walk pagetable a False) (\<lambda>pte.
       if pte = 0 then panic ''uvmunmap: walk'' else
       bind (rd_pte pte) (\<lambda>v.
       if v AND PTE_V = 0 then panic ''uvmunmap: not mapped''
       else if PTE_FLAGS v = PTE_V then panic ''uvmunmap: not a leaf''
       else bind (whenM do_free (kfree (PTE2PA v))) (\<lambda>_.
       bind (wr_pte pte 0) (\<lambda>_. ret (Inl (a + PGSIZE))))))) va)"

definition uvmcreate :: "('a vmem_scheme, uint64) kmon" where
  "uvmcreate = bind kalloc (\<lambda>pagetable.
     if pagetable = 0 then ret 0 else bind (zero_page pagetable) (\<lambda>_. ret pagetable))"

definition uvmfirst :: "uint64 \<Rightarrow> uint8 list \<Rightarrow> ('a vmem_scheme, unit) kmon" where
  "uvmfirst pagetable src = (if length src \<ge> 4096 then panic ''uvmfirst: more than a page'' else
     bind kalloc (\<lambda>pg.
     bind (zero_page pg) (\<lambda>_.
     bind (mappages pagetable 0 PGSIZE pg (PTE_W OR PTE_R OR PTE_X OR PTE_U)) (\<lambda>_.
     modify (\<lambda>s. s\<lparr>mem := store_bytes (mem s) pg src\<rparr>)))))"

definition uvmdealloc :: "uint64 \<Rightarrow> uint64 \<Rightarrow> uint64 \<Rightarrow> ('a vmem_scheme, uint64) kmon" where
  "uvmdealloc pagetable oldsz newsz = (if newsz \<ge> oldsz then ret oldsz else
     bind (whenM (PGROUNDUP newsz < PGROUNDUP oldsz)
       (let npages = scast (ucast ((PGROUNDUP oldsz - PGROUNDUP newsz) div PGSIZE) :: uint32)
        in uvmunmap pagetable (PGROUNDUP newsz) npages True)) (\<lambda>_.
     ret newsz))"

definition uvmalloc :: "uint64 \<Rightarrow> uint64 \<Rightarrow> uint64 \<Rightarrow> uint64 \<Rightarrow> ('a vmem_scheme, uint64) kmon" where
  "uvmalloc pagetable oldsz newsz xperm = (if newsz < oldsz then ret oldsz else
     let oldsz = PGROUNDUP oldsz in
     loop (unat newsz div 4096 + 2) (\<lambda>a.
       if \<not> a < newsz then ret (Inr newsz) else
       bind kalloc (\<lambda>pg.
       if pg = 0 then bind (uvmdealloc pagetable a oldsz) (\<lambda>_. ret (Inr 0)) else
       bind (zero_page pg) (\<lambda>_.
       bind (mappages pagetable a PGSIZE pg (PTE_R OR PTE_U OR xperm)) (\<lambda>r.
       if r \<noteq> 0 then bind (kfree pg) (\<lambda>_. bind (uvmdealloc pagetable a oldsz) (\<lambda>_. ret (Inr 0)))
       else ret (Inl (a + PGSIZE)))))) oldsz)"

text \<open>
  \<open>freewalk\<close> recurses into the tables its entries point to; the depth is fuel, and a table of
  the Sv39 scheme has three levels.
\<close>

primrec freewalk_depth :: "nat \<Rightarrow> uint64 \<Rightarrow> ('a vmem_scheme, unit) kmon" where
  "freewalk_depth 0 pagetable = blocked"
| "freewalk_depth (Suc d) pagetable = bind (for_each [0..<512] (\<lambda>i.
     bind (rd_pte (pagetable + 8 * of_nat i)) (\<lambda>pte.
     if pte AND PTE_V \<noteq> 0 \<and> pte AND (PTE_R OR PTE_W OR PTE_X) = 0
     then bind (freewalk_depth d (PTE2PA pte)) (\<lambda>_. wr_pte (pagetable + 8 * of_nat i) 0)
     else if pte AND PTE_V \<noteq> 0 then panic ''freewalk: leaf''
     else ret ()))) (\<lambda>_. kfree pagetable)"

definition freewalk :: "uint64 \<Rightarrow> ('a vmem_scheme, unit) kmon" where
  "freewalk pagetable = freewalk_depth 3 pagetable"

definition uvmfree :: "uint64 \<Rightarrow> uint64 \<Rightarrow> ('a vmem_scheme, unit) kmon" where
  "uvmfree pagetable sz =
     bind (whenM (sz > 0) (uvmunmap pagetable 0 (PGROUNDUP sz div PGSIZE) True)) (\<lambda>_.
     freewalk pagetable)"

definition uvmcopy :: "uint64 \<Rightarrow> uint64 \<Rightarrow> uint64 \<Rightarrow> ('a vmem_scheme, int) kmon" where
  "uvmcopy old new sz = bind (loop (unat sz div 4096 + 2) (\<lambda>i.
       if \<not> i < sz then ret (Inr None) else
       bind (walk old i False) (\<lambda>pte.
       if pte = 0 then panic ''uvmcopy: pte should exist'' else
       bind (rd_pte pte) (\<lambda>v.
       if v AND PTE_V = 0 then panic ''uvmcopy: page not present'' else
       bind kalloc (\<lambda>pg.
       if pg = 0 then ret (Inr (Some i)) else
       bind (modify (\<lambda>s. s\<lparr>mem := memmove (mem s) pg (PTE2PA v) 4096\<rparr>)) (\<lambda>_.
       bind (mappages new i PGSIZE pg (PTE_FLAGS v)) (\<lambda>r.
       if r \<noteq> 0 then bind (kfree pg) (\<lambda>_. ret (Inr (Some i)))
       else ret (Inl (i + PGSIZE)))))))) 0) (\<lambda>err.
     case err of None \<Rightarrow> ret 0
     | Some i \<Rightarrow> bind (uvmunmap new 0 (i div PGSIZE) True) (\<lambda>_. ret (- 1)))"

definition uvmclear :: "uint64 \<Rightarrow> uint64 \<Rightarrow> ('a vmem_scheme, unit) kmon" where
  "uvmclear pagetable va = bind (walk pagetable va False) (\<lambda>pte.
     if pte = 0 then panic ''uvmclear'' else
     bind (rd_pte pte) (\<lambda>v. wr_pte pte (v AND NOT PTE_U)))"

definition copyout_round :: "uint64 \<Rightarrow> uint64 \<times> uint8 list \<Rightarrow>
    ('a vmem_scheme, (uint64 \<times> uint8 list) + int) kmon" where
  "copyout_round pagetable = (\<lambda>(dstva, src).
     if src = [] then ret (Inr 0) else
     let va0 = PGROUNDDOWN dstva in
     bind (walkaddr pagetable va0) (\<lambda>pa0.
     if pa0 = 0 then ret (Inr (- 1)) else
     let n = min (unat (PGSIZE - (dstva - va0))) (length src) in
     bind (modify (\<lambda>s. s\<lparr>mem := store_bytes (mem s) (pa0 + (dstva - va0)) (take n src)\<rparr>)) (\<lambda>_.
     ret (Inl (va0 + PGSIZE, drop n src)))))"

definition copyout :: "uint64 \<Rightarrow> uint64 \<Rightarrow> uint8 list \<Rightarrow> ('a vmem_scheme, int) kmon" where
  "copyout pagetable dstva src = loop (Suc (length src)) (copyout_round pagetable) (dstva, src)"

text \<open>\<open>copyin\<close> and \<open>copyinstr\<close> return, with the status, the bytes they stored at \<^verbatim>\<open>dst\<close>.\<close>

definition copyin_round :: "uint64 \<Rightarrow> uint64 \<times> nat \<times> uint8 list \<Rightarrow>
    ('a vmem_scheme, (uint64 \<times> nat \<times> uint8 list) + (int \<times> uint8 list)) kmon" where
  "copyin_round pagetable = (\<lambda>(srcva, len, dst).
     if len = 0 then ret (Inr (0, dst)) else
     let va0 = PGROUNDDOWN srcva in
     bind (walkaddr pagetable va0) (\<lambda>pa0.
     if pa0 = 0 then ret (Inr (- 1, dst)) else
     let n = min (unat (PGSIZE - (srcva - va0))) len in
     bind (gets (\<lambda>s. load_bytes (mem s) (pa0 + (srcva - va0)) n)) (\<lambda>bs.
     ret (Inl (va0 + PGSIZE, len - n, dst @ bs)))))"

definition copyin :: "uint64 \<Rightarrow> uint64 \<Rightarrow> nat \<Rightarrow> ('a vmem_scheme, int \<times> uint8 list) kmon" where
  "copyin pagetable srcva len = loop (Suc len) (copyin_round pagetable) (srcva, len, [])"

text \<open>The inner loop of \<open>copyinstr\<close>: \<open>(got_null, max, dst)\<close> after at most \<open>n\<close> bytes at \<open>p\<close>.\<close>

fun copyinstr_page :: "memory \<Rightarrow> uint64 \<Rightarrow> nat \<Rightarrow> nat \<Rightarrow> uint8 list \<Rightarrow> bool \<times> nat \<times> uint8 list" where
  "copyinstr_page m p 0 mx dst = (False, mx, dst)"
| "copyinstr_page m p (Suc n) mx dst =
     (if m p = 0 then (True, mx, dst @ [0])
      else copyinstr_page m (p + 1) n (mx - 1) (dst @ [m p]))"

definition copyinstr :: "uint64 \<Rightarrow> uint64 \<Rightarrow> nat \<Rightarrow> ('a vmem_scheme, int \<times> uint8 list) kmon" where
  "copyinstr pagetable srcva mx = loop (Suc mx) (\<lambda>(srcva, mx, dst).
     if mx = 0 then ret (Inr (- 1, dst)) else
     let va0 = PGROUNDDOWN srcva in
     bind (walkaddr pagetable va0) (\<lambda>pa0.
     if pa0 = 0 then ret (Inr (- 1, dst)) else
     let n = min (unat (PGSIZE - (srcva - va0))) mx in
     bind (gets mem) (\<lambda>m.
     case copyinstr_page m (pa0 + (srcva - va0)) n mx dst of (got_null, mx', dst') \<Rightarrow>
       if got_null then ret (Inr (0, dst')) else ret (Inl (va0 + PGSIZE, mx', dst'))))) (srcva, mx, [])"

end
