(* ===== verification/Pagetable.thy ===== *)
theory Pagetable
  imports Vm
begin

text \<open>
  Correctness of the page tables of \<^verbatim>\<open>kernel/vm.c\<close>. The pages of a table are related to a tree
  of three levels (\<open>pt_inv\<close>); \<open>walk\<close> with allocation only makes the tree grow, \<open>mappages\<close>
  changes the leaf entries of the pages it maps and no others, and \<open>copyout\<close> and \<open>copyin\<close>
  reach exactly the bytes the table maps.
\<close>

section \<open>Page-table entries\<close>

lemma and_bit_iff [simp]:
  "(x :: uint64) AND 1 = 0 \<longleftrightarrow> \<not> bit x 0" "(x :: uint64) AND 16 = 0 \<longleftrightarrow> \<not> bit x 4"
  using and_exp_eq_0_iff_not_bit [of x 0] and_exp_eq_0_iff_not_bit [of x 4] by simp_all

lemma aligned_bits: "(p :: uint64) mod 4096 = 0 \<Longrightarrow> n < 12 \<Longrightarrow> \<not> bit p n"
proof -
  assume "p mod 4096 = 0" and n: "n < 12"
  then have "take_bit 12 p = 0" by (simp add: take_bit_eq_mod)
  then have "\<not> bit (take_bit 12 p) n" by simp
  then show ?thesis using n by (simp add: bit_take_bit_iff)
qed

lemma PTE2PA_aligned: "PTE2PA v mod 4096 = 0"
proof -
  have "take_bit 12 (PTE2PA v) = 0"
    by (auto intro!: bit_word_eqI simp: PTE2PA_def bit_simps)
  then show ?thesis by (simp add: take_bit_eq_mod)
qed

definition perm_ok :: "uint64 \<Rightarrow> bool" where
  "perm_ok perm \<longleftrightarrow> take_bit 10 perm = perm"

lemma perm_ok_bit: "perm_ok perm \<Longrightarrow> bit perm n \<Longrightarrow> n < 10"
  unfolding perm_ok_def by (metis bit_take_bit_iff)

lemma PTE2PA_mk [simp]:
  assumes "pa mod 4096 = 0" and "perm_ok perm"
  shows "PTE2PA (PA2PTE pa OR perm OR 1) = pa"
proof (rule bit_word_eqI)
  fix n assume "n < LENGTH(64)"
  moreover have "\<not> bit perm (10 + (n - 12))" using perm_ok_bit [OF assms(2)] by fastforce
  ultimately show "bit (PTE2PA (PA2PTE pa OR perm OR 1)) n = bit pa n"
    using aligned_bits [OF assms(1), of n]
    by (cases "n < 12") (auto simp: PTE2PA_def PA2PTE_def bit_simps)
qed

lemma PTE2PA_mk1 [simp]: "pa mod 4096 = 0 \<Longrightarrow> PTE2PA (PA2PTE pa OR 1) = pa"
  using PTE2PA_mk [of pa 0] by (simp add: perm_ok_def)

lemma bit_mk [simp]: "bit (PA2PTE pa OR perm OR 1) 0" "bit (PA2PTE pa OR 1) 0"
  "bit (PA2PTE pa OR perm OR 1) 4 = bit perm 4"
  by (auto simp: PA2PTE_def bit_simps)

lemma PTE_FLAGS_mk:
  assumes "perm_ok perm"
  shows "PTE_FLAGS (PA2PTE pa OR perm OR 1) = perm OR 1"
proof -
  have m: "(0x3FF :: uint64) = mask 10" by (simp add: mask_eq_exp_minus_1)
  show ?thesis unfolding PTE_FLAGS_def m using perm_ok_bit [OF assms]
    by (auto intro!: bit_word_eqI simp: PA2PTE_def bit_simps)
qed

section \<open>Slots of a table page\<close>

definition slot :: "uint64 \<Rightarrow> nat \<Rightarrow> uint64" where
  "slot p i = p + 8 * of_nat i"

definition idx :: "nat \<Rightarrow> uint64 \<Rightarrow> nat" where
  "idx level va = unat va div 2 ^ (12 + 9 * level) mod 512"

lemma idx_less [simp]: "idx l va < 512"
  by (simp add: idx_def)

lemma pte_addr_slot: "pte_addr pt l va = slot pt (idx l va)"
proof -
  have "unat (PX l va) = idx l va"
  proof -
    have "(0x1FF :: uint64) = mask 9" by (simp add: mask_eq_exp_minus_1)
    then have "PX l va = take_bit 9 (drop_bit (12 + 9 * l) va)"
      by (simp only: PX_def PXSHIFT_def take_bit_eq_mask)
    then show ?thesis
      by (simp only: unsigned_take_bit_eq unsigned_drop_bit_eq)
        (simp add: idx_def drop_bit_eq_div take_bit_eq_mod unat_lt64)
  qed
  from this [symmetric] have "PX l va = of_nat (idx l va)" by simp
  then show ?thesis by (simp add: pte_addr_def slot_def)
qed

lemma slot_eq: "slot p i = p + of_nat (8 * i)"
  by (simp add: slot_def)

lemma slot_in_page [simp]: "i < 512 \<Longrightarrow> in_page p (slot p i)"
  unfolding slot_eq by (rule in_page_offset) simp

lemma slot_byte_in_page [simp]: "i < 512 \<Longrightarrow> k < 8 \<Longrightarrow> in_page p (slot p i + of_nat k)"
proof -
  assume "i < 512" "k < 8"
  then have "in_page p (p + of_nat (8 * i + k))" by (intro in_page_offset) simp
  then show ?thesis by (simp add: slot_eq add.assoc)
qed

lemma slot_nonzero: 
  assumes "p mod 4096 = 0" "p \<noteq> 0" "i < 512" shows "slot p i \<noteq> 0"
proof
  assume z: "slot p i = 0"
  have "in_page p 0" using slot_in_page [OF assms(3), of p] z by simp
  moreover have "in_page 0 (0 :: uint64)" by simp
  ultimately show False using in_page_unique [of p 0 0] assms by simp
qed

lemma store64_other: "8 \<le> unat (x - a) \<Longrightarrow> store64 m a v x = m x"
  by (simp add: store64_def store_bytes_apply)

lemma store64_slot_other:
  assumes "i < 512" "\<not> in_page p x"
  shows "store64 m (slot p i) v x = m x"
proof (rule store64_other, rule ccontr)
  assume "\<not> 8 \<le> unat (x - slot p i)"
  then have "in_page p (slot p i + of_nat (unat (x - slot p i)))"
    by (intro slot_byte_in_page assms) simp
  then show False using assms(2) by simp
qed

lemma slots_apart:
  assumes "i < 512" "j < 512" "i \<noteq> j" "k < 8"
  shows "8 \<le> unat (slot p j + of_nat k - slot p i)"
proof -
  have e: "slot p j + of_nat k - slot p i = of_nat (8 * j + k) - of_nat (8 * i)"
    by (simp add: slot_eq)
  show ?thesis
  proof (cases "i < j")
    case True
    then obtain d where d: "8 * j + k = 8 * i + d" "8 \<le> d" "d < 4096"
      using assms le_Suc_ex [of "8 * i" "8 * j + k"] by auto
    then show ?thesis unfolding e d(1) by (simp add: unat_of_nat_eq)
  next
    case False
    then obtain d where d: "8 * i = 8 * j + k + d" "0 < d" "d < 4096"
      using assms le_Suc_ex [of "8 * j + k" "8 * i"] by auto
    have "unat (- of_nat d :: uint64) = 2 ^ 64 - d"
      using d unat_sub_if' [of 0 "of_nat d :: uint64"] by (simp add: unat_of_nat_eq)
    then show ?thesis using d(2,3) unfolding e d(1) by simp
  qed
qed

lemma load64_store64_slot:
  assumes "p mod 4096 = 0" and "q mod 4096 = 0" and "i < 512" and "j < 512"
  shows "load64 (store64 m (slot p i) v) (slot q j) =
    (if p = q \<and> i = j then v else load64 m (slot q j))"
proof (cases "p = q \<and> i = j")
  case True
  then show ?thesis by (simp add: load64_store64)
next
  case False
  have "load64 (store64 m (slot p i) v) (slot q j) = load64 m (slot q j)"
  proof (rule load64_cong)
    fix k :: nat assume k: "k < 8"
    show "store64 m (slot p i) v (slot q j + of_nat k) = m (slot q j + of_nat k)"
    proof (cases "p = q")
      case True
      then show ?thesis using False assms k slots_apart [of i j k p] by (simp add: store64_other)
    next
      case ne: False
      have "\<not> in_page p (slot q j + of_nat k)"
        using ne assms k by (metis in_page_unique slot_byte_in_page)
      then show ?thesis using assms(3) by (simp add: store64_slot_other)
    qed
  qed
  then show ?thesis using False by auto
qed
section \<open>Walking as a function of memory\<close>

primrec vwalk :: "memory \<Rightarrow> nat \<Rightarrow> uint64 \<Rightarrow> uint64 \<Rightarrow> uint64" where
  "vwalk m 0 pt va = slot pt (idx 0 va)"
| "vwalk m (Suc l) pt va = (let pte = load64 m (slot pt (idx (Suc l) va)) in
     if bit pte 0 then vwalk m l (PTE2PA pte) va else 0)"

text \<open>The leaf entry of a virtual address, 0 when a table on the way is missing.\<close>

primrec leaf :: "memory \<Rightarrow> nat \<Rightarrow> uint64 \<Rightarrow> uint64 \<Rightarrow> uint64" where
  "leaf m 0 pt va = load64 m (slot pt (idx 0 va))"
| "leaf m (Suc l) pt va = (let pte = load64 m (slot pt (idx (Suc l) va)) in
     if bit pte 0 then leaf m l (PTE2PA pte) va else 0)"

text \<open>The physical page of a user address, 0 when it is not mapped for the user.\<close>

definition upage :: "memory \<Rightarrow> uint64 \<Rightarrow> uint64 \<Rightarrow> uint64" where
  "upage m pt va = (let v = leaf m 2 pt va in
     if va < MAXVA \<and> bit v 0 \<and> bit v 4 then PTE2PA v else 0)"

lemma walk_from_False:
  "walk_from l pt va False s e = Ret (vwalk (mem s) l pt va) s e"
  by (induction l arbitrary: pt) (simp_all add: kmon_simps rd_pte_def pte_addr_slot Let_def)

lemma walk_apply [kmon_simps]:
  "va < MAXVA \<Longrightarrow> walk pt va False s e = Ret (vwalk (mem s) 2 pt va) s e"
  by (simp add: walk_def walk_from_False not_le [symmetric])

lemma walk_panics: "MAXVA \<le> va \<Longrightarrow> walk pt va alloc s e = Panic ''walk'' s"
  by (simp add: walk_def kmon_simps)

section \<open>Well-formed tables\<close>

text \<open>
  \<open>pt_inv m L root\<close>: the table at \<open>root\<close> in memory \<open>m\<close> is a tree of three levels; \<open>L\<close> gives the
  level of each of its pages. A valid entry of an upper level points to a page one level below,
  and no page is pointed to twice.
\<close>

definition pt_inv :: "memory \<Rightarrow> (uint64 \<Rightarrow> nat option) \<Rightarrow> uint64 \<Rightarrow> bool" where
  "pt_inv m L root \<longleftrightarrow> L root = Some 2 \<and> (\<forall>p l. L p = Some l \<longrightarrow> l \<le> 2 \<and> p mod 4096 = 0 \<and> p \<noteq> 0) \<and>
     (\<forall>p l i. L p = Some (Suc l) \<longrightarrow> i < 512 \<longrightarrow> bit (load64 m (slot p i)) 0 \<longrightarrow>
        L (PTE2PA (load64 m (slot p i))) = Some l) \<and>
     (\<forall>p l i q k j. L p = Some (Suc l) \<longrightarrow> L q = Some (Suc k) \<longrightarrow> i < 512 \<longrightarrow> j < 512 \<longrightarrow>
        bit (load64 m (slot p i)) 0 \<longrightarrow> bit (load64 m (slot q j)) 0 \<longrightarrow>
        PTE2PA (load64 m (slot p i)) = PTE2PA (load64 m (slot q j)) \<longrightarrow> p = q \<and> i = j)"

lemma pt_inv_page: "pt_inv m L root \<Longrightarrow> L p = Some l \<Longrightarrow> l \<le> 2 \<and> p mod 4096 = 0 \<and> p \<noteq> 0"
  unfolding pt_inv_def by blast

lemma pt_inv_child:
  "pt_inv m L root \<Longrightarrow> L p = Some (Suc l) \<Longrightarrow> i < 512 \<Longrightarrow> bit (load64 m (slot p i)) 0 \<Longrightarrow>
   L (PTE2PA (load64 m (slot p i))) = Some l"
  unfolding pt_inv_def by blast

lemma pt_inv_unique:
  "pt_inv m L root \<Longrightarrow> L p = Some (Suc l) \<Longrightarrow> L q = Some (Suc k) \<Longrightarrow> i < 512 \<Longrightarrow> j < 512 \<Longrightarrow>
   bit (load64 m (slot p i)) 0 \<Longrightarrow> bit (load64 m (slot q j)) 0 \<Longrightarrow>
   PTE2PA (load64 m (slot p i)) = PTE2PA (load64 m (slot q j)) \<Longrightarrow> p = q \<and> i = j"
  unfolding pt_inv_def by blast

lemma pt_inv_root: "pt_inv m L root \<Longrightarrow> L root = Some 2"
  unfolding pt_inv_def by blast

text \<open>A walk that succeeds ends at a slot of a leaf-level page.\<close>

lemma vwalk_leaf:
  "pt_inv m L root \<Longrightarrow> L p = Some l \<Longrightarrow>
   (vwalk m l p va = 0 \<and> leaf m l p va = 0) \<or>
   (\<exists>q. L q = Some 0 \<and> vwalk m l p va = slot q (idx 0 va) \<and> vwalk m l p va \<noteq> 0 \<and>
        leaf m l p va = load64 m (slot q (idx 0 va)))"
proof (induction l arbitrary: p)
  case 0
  then show ?case using pt_inv_page [OF 0] slot_nonzero [of p "idx 0 va"] by auto
next
  case (Suc l)
  then show ?case using pt_inv_child [OF Suc.prems, of "idx (Suc l) va"] by (auto simp: Let_def)
qed

lemma walkaddr_apply [kmon_simps]:
  assumes "pt_inv (mem s) L pt"
  shows "walkaddr pt va s e = Ret (upage (mem s) pt va) s e"
  using vwalk_leaf [OF assms pt_inv_root [OF assms], of va]
  by (auto simp: walkaddr_def kmon_simps rd_pte_def upage_def Let_def not_le [symmetric])

text \<open>Two addresses that reach the same leaf slot are on the same page.\<close>

lemma vwalk_inj:
  "pt_inv m L root \<Longrightarrow> L p = Some l \<Longrightarrow> L q = Some l \<Longrightarrow> vwalk m l p va \<noteq> 0 \<Longrightarrow>
   vwalk m l p va = vwalk m l q va' \<Longrightarrow> p = q \<and> (\<forall>k \<le> l. idx k va = idx k va')"
proof (induction l arbitrary: p q)
  case 0
  have "p mod 4096 = 0" "q mod 4096 = 0" using pt_inv_page 0 by blast+
  then have "p = q" using 0(5) in_page_unique [of p q "slot p (idx 0 va)"]
      slot_in_page [of "idx 0 va" p] slot_in_page [of "idx 0 va'" q] by simp
  moreover have "idx 0 va = idx 0 va'"
    using slots_apart [of "idx 0 va" "idx 0 va'" 0 p] 0(5) \<open>p = q\<close> by fastforce
  ultimately show ?case by simp
next
  case (Suc l)
  let ?a = "load64 m (slot p (idx (Suc l) va))" and ?b = "load64 m (slot q (idx (Suc l) va'))"
  have v: "bit ?a 0" "bit ?b 0" using Suc.prems by (auto simp: Let_def split: if_splits)
  have c: "L (PTE2PA ?a) = Some l" "L (PTE2PA ?b) = Some l"
    using pt_inv_child Suc.prems v by (metis idx_less)+
  have "PTE2PA ?a = PTE2PA ?b \<and> (\<forall>k \<le> l. idx k va = idx k va')"
    by (rule Suc.IH) (use Suc.prems v c in \<open>auto simp: Let_def\<close>)
  moreover from this have "p = q \<and> idx (Suc l) va = idx (Suc l) va'"
    using pt_inv_unique [OF Suc.prems(1-3) _ _ v] by simp
  ultimately show ?case by (simp add: le_Suc_eq)
qed

lemma idx_page:
  assumes "unat va < 2 ^ 39" and "unat va' < 2 ^ 39" and "\<forall>k \<le> 2. idx k va = idx k va'"
  shows "unat va div 4096 = unat va' div 4096"
proof -
  have *: "unat v div 4096 = idx 2 v * 2 ^ 18 + idx 1 v * 2 ^ 9 + idx 0 v" if "unat v < 2 ^ 39" for v
  proof -
    define a where "a = unat v div 4096"
    have "a < 2 ^ 27" using that by (simp add: a_def)
    then have "a div 2 ^ 18 mod 512 = a div 2 ^ 18" by simp
    moreover have "unat v div 2 ^ 21 = a div 2 ^ 9" "unat v div 2 ^ 30 = a div 2 ^ 18"
      by (simp_all add: a_def div_mult2_eq [symmetric])
    moreover have "a = a div 512 div 512 * 262144 + a div 512 mod 512 * 512 + a mod 512"
      using div_mult_mod_eq [of a 512] div_mult_mod_eq [of "a div 512" 512] by linarith
    then have "a = a div 2 ^ 18 * 2 ^ 18 + a div 2 ^ 9 mod 512 * 2 ^ 9 + a mod 512"
      by (simp add: div_mult2_eq [symmetric])
    ultimately show ?thesis by (simp add: idx_def a_def)
  qed
  show ?thesis using assms by (simp add: *)
qed
section \<open>Growing a table\<close>

text \<open>
  \<open>vm_inv s ps L root\<close>: the allocator is well formed with free pages \<open>ps\<close>, the table at \<open>root\<close>
  is well formed with pages \<open>dom L\<close>, and no page is both. \<open>vm_grow\<close> relates a state to a later
  one in which the table may have new pages: they come from the free list, and memory outside
  the table's pages is unchanged. With \<open>vm_ext\<close> every address also has the leaf entry it had.
\<close>

definition vm_inv :: "'a vmem_scheme \<Rightarrow> uint64 list \<Rightarrow> (uint64 \<Rightarrow> nat option) \<Rightarrow> uint64 \<Rightarrow> bool" where
  "vm_inv s ps L root \<longleftrightarrow> kmem_ready s \<and> kmem_inv s ps \<and> pt_inv (mem s) L root \<and> dom L \<inter> set ps = {}"

definition vm_frame :: "'a vmem_scheme \<Rightarrow> 'a vmem_scheme \<Rightarrow> bool" where
  "vm_frame s s' \<longleftrightarrow> (\<exists>c m f. s' = s\<lparr>cpus := c, mem := m, freelist := f\<rparr>)"

definition vm_grow :: "uint64 \<Rightarrow> 'a vmem_scheme \<Rightarrow> uint64 list \<Rightarrow> (uint64 \<Rightarrow> nat option) \<Rightarrow>
    'a vmem_scheme \<Rightarrow> uint64 list \<Rightarrow> (uint64 \<Rightarrow> nat option) \<Rightarrow> bool" where
  "vm_grow root s ps L s' ps' L' \<longleftrightarrow> vm_inv s' ps' L' root \<and> vm_frame s s' \<and>
     (\<exists>qs. ps = qs @ ps' \<and> dom L' = dom L \<union> set qs) \<and> L \<subseteq>\<^sub>m L' \<and>
     (\<forall>x. (\<forall>p \<in> dom L'. \<not> in_page p x) \<longrightarrow> mem s' x = mem s x)"

definition vm_ext :: "uint64 \<Rightarrow> 'a vmem_scheme \<Rightarrow> uint64 list \<Rightarrow> (uint64 \<Rightarrow> nat option) \<Rightarrow>
    'a vmem_scheme \<Rightarrow> uint64 list \<Rightarrow> (uint64 \<Rightarrow> nat option) \<Rightarrow> bool" where
  "vm_ext root s ps L s' ps' L' \<longleftrightarrow> vm_grow root s ps L s' ps' L' \<and>
     (\<forall>k q v. L q = Some k \<longrightarrow> leaf (mem s') k q v = leaf (mem s) k q v) \<and>
     (\<forall>q k i. L q = Some k \<longrightarrow> i < 512 \<longrightarrow> bit (load64 (mem s) (slot q i)) 0 \<longrightarrow>
        load64 (mem s') (slot q i) = load64 (mem s) (slot q i))"

lemma vm_frame_refl [simp]: "vm_frame s s"
proof -
  have "s = s\<lparr>cpus := cpus s, mem := mem s, freelist := freelist s\<rparr>" by simp
  then show ?thesis unfolding vm_frame_def by blast
qed

lemma vm_frame_trans: "vm_frame s s' \<Longrightarrow> vm_frame s' s'' \<Longrightarrow> vm_frame s s''"
  unfolding vm_frame_def by (elim exE) (simp, blast)

lemma vm_ext_refl: "vm_inv s ps L root \<Longrightarrow> vm_ext root s ps L s ps L"
  by (simp add: vm_ext_def vm_grow_def)

lemma load64_zero:
  assumes "i < 512" and "\<And>x. in_page p x \<Longrightarrow> m x = 0"
  shows "load64 m (slot p i) = 0"
proof -
  have "load_bytes m (slot p i) 8 = replicate 8 0"
    using assms by (auto intro!: nth_equalityI)
  also have "\<dots> = le_bytes 8 (0 :: uint64)" by (auto intro!: nth_equalityI simp: nth_le_bytes)
  finally show ?thesis by (simp add: load64_def of_le_le_bytes)
qed

lemma kmem_inv_frame:
  assumes "kmem_inv s ps" and "p mod 4096 = 0" and "p \<notin> set ps" and "same_off_page p (mem s) m"
  shows "kmem_inv (s\<lparr>mem := m\<rparr>) ps"
proof -
  have "load64 m q = load64 (mem s) q" if "q \<in> set ps" for q
    by (rule load64_other_page [of p]) (use assms that in \<open>auto simp: kmem_inv_def pg_ok_def same_off_page_def\<close>)
  then have "flist m (freelist s) ps"
    using assms(1) flist_cong [of ps m "mem s"] by (simp add: kmem_inv_def)
  then show ?thesis using assms(1) by (simp add: kmem_inv_def)
qed

lemma vm_grow_trans:
  assumes a: "vm_grow root s ps L s' ps' L'" and b: "vm_grow root s' ps' L' s'' ps'' L''"
  shows "vm_grow root s ps L s'' ps'' L''"
proof -
  obtain qs qs' where q: "ps = qs @ ps'" "dom L' = dom L \<union> set qs" "ps' = qs' @ ps''"
      "dom L'' = dom L' \<union> set qs'" using a b by (auto simp: vm_grow_def)
  moreover have "mem s'' x = mem s x" if "\<forall>p \<in> dom L''. \<not> in_page p x" for x
    using a b that q(4) by (simp add: vm_grow_def)
  moreover have "ps = (qs @ qs') @ ps''" "dom L'' = dom L \<union> set (qs @ qs')" using q by auto
  moreover have "L \<subseteq>\<^sub>m L''" "vm_frame s s''" "vm_inv s'' ps'' L'' root"
    using a b map_le_trans [of L L' L''] vm_frame_trans [of s s' s''] by (auto simp: vm_grow_def)
  ultimately show ?thesis unfolding vm_grow_def by blast
qed

lemma vm_ext_trans:
  assumes a: "vm_ext root s ps L s' ps' L'" and b: "vm_ext root s' ps' L' s'' ps'' L''"
  shows "vm_ext root s ps L s'' ps'' L''"
proof -
  have "L \<subseteq>\<^sub>m L'" using a by (simp add: vm_ext_def vm_grow_def)
  then have "L' q = Some k" if "L q = Some k" for q k using that by (metis domI map_le_def)
  then show ?thesis using a b vm_grow_trans [of root s ps L s' ps' L' s'' ps'' L'']
    by (auto simp: vm_ext_def)
qed

text \<open>
  What one round of \<open>walk\<close> does when an upper-level entry is missing: memory after the new
  page is taken, zeroed and entered at slot \<open>i\<close> of page \<open>p\<close>.
\<close>

definition enter_table :: "memory \<Rightarrow> uint64 \<Rightarrow> nat \<Rightarrow> uint64 \<Rightarrow> memory" where
  "enter_table m p i pg = store64 (memset (memset m pg 5 4096) pg 0 4096) (slot p i) (PA2PTE pg OR 1)"

lemma enter_table_slot:
  assumes "p mod 4096 = 0" "pg mod 4096 = 0" "p \<noteq> pg" "i < 512" "q mod 4096 = 0" "j < 512"
  shows "load64 (enter_table m p i pg) (slot q j) =
    (if q = p \<and> j = i then PA2PTE pg OR 1 else if q = pg then 0 else load64 m (slot q j))"
proof -
  let ?m = "memset (memset m pg 5 4096) pg 0 4096"
  have "load64 ?m (slot pg j) = 0" by (rule load64_zero) (simp_all add: assms memset_page)
  moreover have "load64 ?m (slot q j) = load64 m (slot q j)" if "q \<noteq> pg"
  proof (rule load64_cong)
    fix k :: nat assume "k < 8"
    then have "\<not> in_page pg (slot q j + of_nat k)"
      using assms that by (metis in_page_unique slot_byte_in_page)
    then show "?m (slot q j + of_nat k) = m (slot q j + of_nat k)" by (simp add: memset_page)
  qed
  ultimately show ?thesis using assms by (auto simp: enter_table_def load64_store64_slot)
qed

lemma enter_table_other:
  assumes "i < 512" "\<not> in_page p x" "\<not> in_page pg x"
  shows "enter_table m p i pg x = m x"
  using assms by (simp add: enter_table_def store64_slot_other memset_page)

lemma leaf_zero_page:
  assumes "\<And>j. j < 512 \<Longrightarrow> load64 m (slot pg j) = 0"
  shows "leaf m l pg v = 0"
  using assms by (cases l) simp_all

lemma enter_table_leaf:
  assumes inv: "pt_inv m L root" and p: "L p = Some (Suc l)" "i < 512" "\<not> bit (load64 m (slot p i)) 0"
    and pg: "pg mod 4096 = 0" "pg \<notin> dom L"
  shows "L q = Some k \<Longrightarrow> leaf (enter_table m p i pg) k q v = leaf m k q v"
proof (induction k arbitrary: q)
  case 0
  have "q mod 4096 = 0" "q \<noteq> pg" "q \<noteq> p" "p \<noteq> pg" "p mod 4096 = 0"
    using 0 p pg pt_inv_page [OF inv] by auto
  then show ?case using p pg by (simp add: enter_table_slot)
next
  case (Suc k)
  have a: "q mod 4096 = 0" "q \<noteq> pg" "p \<noteq> pg" "p mod 4096 = 0"
    using Suc.prems p pg pt_inv_page [OF inv] by auto
  show ?case
  proof (cases "q = p \<and> idx (Suc k) v = i")
    case True
    have "leaf (enter_table m p i pg) k pg v = 0"
      by (rule leaf_zero_page) (use a p pg in \<open>simp add: enter_table_slot\<close>)
    then show ?thesis using True a p pg by (simp add: enter_table_slot)
  next
    case False
    have "load64 (enter_table m p i pg) (slot q (idx (Suc k) v)) = load64 m (slot q (idx (Suc k) v))"
      using False a p pg by (auto simp: enter_table_slot)
    then show ?thesis
      using Suc.IH pt_inv_child [OF inv Suc.prems, of "idx (Suc k) v"] by (simp add: Let_def)
  qed
qed

lemma enter_table_pt_inv:
  assumes inv: "pt_inv m L root" and p: "L p = Some (Suc l)" "i < 512" "\<not> bit (load64 m (slot p i)) 0"
    and pg: "pg mod 4096 = 0" "pg \<noteq> 0" "pg \<notin> dom L"
  shows "pt_inv (enter_table m p i pg) (L(pg \<mapsto> l)) root"
proof -
  let ?L = "L(pg \<mapsto> l)" let ?e = "\<lambda>q j. load64 (enter_table m p i pg) (slot q j)"
  have pp: "p mod 4096 = 0" "p \<noteq> pg" "Suc l \<le> 2" using p pg pt_inv_page [OF inv p(1)] by auto
  have page: "k \<le> 2 \<and> q mod 4096 = 0 \<and> q \<noteq> 0" if "?L q = Some k" for q k
    using that pt_inv_page [OF inv, of q k] pg pp by (auto split: if_splits)
  have e: "?e q j = (if q = p \<and> j = i then PA2PTE pg OR 1 else if q = pg then 0 else load64 m (slot q j))"
    if "?L q = Some k" "j < 512" for q j k
    using that page [of q k] pp p(2) pg by (simp add: enter_table_slot)
  have tgt: "(q = p \<and> j = i \<and> PTE2PA (?e q j) = pg) \<or> (L q = Some (Suc k) \<and> ?e q j = load64 m (slot q j)
      \<and> L (PTE2PA (?e q j)) = Some k)" if "?L q = Some (Suc k)" "j < 512" "bit (?e q j) 0" for q j k
  proof (cases "q = p \<and> j = i")
    case True
    then show ?thesis using e [OF that(1,2)] pg by simp
  next
    case False
    then have "q \<noteq> pg" "?e q j = load64 m (slot q j)" using e [OF that(1,2)] that(3) by (auto split: if_splits)
    then show ?thesis using that pt_inv_child [OF inv, of q k j] by simp
  qed
  show ?thesis unfolding pt_inv_def
  proof (intro conjI allI impI)
    show "?L root = Some 2" using pt_inv_root [OF inv] pg by auto
  next
    fix q k j assume a: "?L q = Some (Suc k)" "j < 512" "bit (?e q j) 0"
    show "?L (PTE2PA (?e q j)) = Some k"
      using tgt [OF a] a p pp pg by (auto simp: domI)
  next
    fix q k j q' k' j'
    assume a: "?L q = Some (Suc k)" and a': "?L q' = Some (Suc k')" and j: "j < 512" "j' < 512"
      and v: "bit (?e q j) 0" "bit (?e q' j') 0" and eq: "PTE2PA (?e q j) = PTE2PA (?e q' j')"
    show "q = q'" "j = j'"
      using tgt [OF a j(1) v(1)] tgt [OF a' j(2) v(2)] eq pg v j
        pt_inv_unique [OF inv, of q k q' k' j j'] by (auto simp: domI)
  qed (use page in blast)+
qed
lemma enter_table_ext:
  assumes inv: "vm_inv s (pg # ps) L root" and p: "L p = Some (Suc l)" "i < 512"
    and free: "\<not> bit (load64 (mem s) (slot p i)) 0"
  shows "vm_ext root s (pg # ps) L (s\<lparr>freelist := load64 (mem s) pg,
     cpus := calm (harts s) (cur s) (cpus s), mem := enter_table (mem s) p i pg\<rparr>) ps (L(pg \<mapsto> l))"
    (is "vm_ext root s _ L ?s ps ?L")
proof -
  have k: "kmem_ready s" "kmem_inv s (pg # ps)" "pt_inv (mem s) L root" and d: "dom L \<inter> set (pg # ps) = {}"
    using inv by (simp_all add: vm_inv_def)
  have pg: "pg mod 4096 = 0" "pg \<noteq> 0" "pg \<notin> dom L" "pg \<notin> set ps"
    using k(2) d by (auto simp: kmem_inv_def pg_ok_def)
  have pp: "p mod 4096 = 0" "p \<notin> set ps" using d p pt_inv_page [OF k(3) p(1)] by auto
  let ?s1 = "s\<lparr>freelist := load64 (mem s) pg, cpus := calm (harts s) (cur s) (cpus s),
     mem := memset (mem s) pg 5 4096\<rparr>"
  let ?m2 = "memset (mem ?s1) pg 0 4096"
  have 1: "kmem_inv ?s1 ps" using kalloc_links [OF k(2)] by simp
  have 2: "kmem_inv (?s1\<lparr>mem := ?m2\<rparr>) ps"
    by (rule kmem_inv_frame [OF 1 pg(1,4)]) (simp add: same_off_page_def memset_page)
  have 3: "kmem_inv (?s1\<lparr>mem := ?m2, mem := enter_table (mem s) p i pg\<rparr>) ps"
  proof (rule kmem_inv_frame [OF 2 pp])
    show "same_off_page p (mem (?s1\<lparr>mem := ?m2\<rparr>)) (enter_table (mem s) p i pg)"
      using p(2) by (simp add: same_off_page_def enter_table_def store64_slot_other)
  qed
  have inv': "vm_inv ?s ps ?L root"
    using 3 k(1) d pg enter_table_pt_inv [OF k(3) p free pg(1-3)]
    by (auto simp: vm_inv_def kmem_ready_def kmem_inv_def)
  have lf: "\<forall>k q v. L q = Some k \<longrightarrow> leaf (mem ?s) k q v = leaf (mem s) k q v"
    using enter_table_leaf [OF k(3) p free pg(1,3)] by simp
  have keep: "load64 (mem ?s) (slot q j) = load64 (mem s) (slot q j)"
    if "L q = Some n" "j < 512" "bit (load64 (mem s) (slot q j)) 0" for q n j
  proof -
    have "q mod 4096 = 0" "q \<noteq> pg" "p \<noteq> pg" using that p pg(3) pt_inv_page [OF k(3), of q n] by auto
    then show ?thesis using that p(2) pp(1) pg(1) free by (auto simp: enter_table_slot)
  qed
  have out: "mem ?s x = mem s x" if "\<forall>p \<in> dom ?L. \<not> in_page p x" for x
    using that p by (auto intro!: enter_table_other)
  have "?s = s\<lparr>cpus := calm (harts s) (cur s) (cpus s), mem := enter_table (mem s) p i pg,
     freelist := load64 (mem s) pg\<rparr>" by simp
  then have "vm_frame s ?s" unfolding vm_frame_def by blast
  moreover have "L \<subseteq>\<^sub>m ?L" using pg(3) by (auto simp: map_le_def)
  moreover have "pg # ps = [pg] @ ps" "dom ?L = dom L \<union> set [pg]" by auto
  ultimately show ?thesis using inv' lf keep out unfolding vm_ext_def vm_grow_def by blast
qed

text \<open>\<open>walk\<close> with allocation only grows the table, and returns the leaf slot or, out of memory, 0.\<close>

lemma walk_from_grows:
  "vm_inv s ps L root \<Longrightarrow> L p = Some l \<Longrightarrow>
   runs (walk_from l p va True) s e (\<lambda>a s' e'. e' = e \<and> (\<exists>ps' L'. vm_ext root s ps L s' ps' L' \<and>
     (if a = 0 then ps' = [] else a = vwalk (mem s') l p va)))"
proof (induction l arbitrary: s ps L p)
  case 0
  then show ?case using vm_ext_refl [OF 0(1)] pt_inv_page [of "mem s" L root p 0]
    by (auto simp: runs_def kmon_simps pte_addr_slot vm_inv_def slot_nonzero)
next
  case (Suc l)
  let ?i = "idx (Suc l) va" let ?v = "load64 (mem s) (slot p ?i)"
  have ready: "kmem_ready s" "kmem_inv s ps" "pt_inv (mem s) L root"
    using Suc.prems by (simp_all add: vm_inv_def)
  consider (v) "bit ?v 0" | (none) "\<not> bit ?v 0" "ps = []" | (new) pg qs where "\<not> bit ?v 0" "ps = pg # qs"
    by (cases ps) auto
  then show ?case
  proof cases
    case v
    then have c: "L (PTE2PA ?v) = Some l" using pt_inv_child [OF ready(3) Suc.prems(2)] by simp
    obtain a s' ps' L' where r: "walk_from l (PTE2PA ?v) va True s e = Ret a s' e"
        "vm_ext root s ps L s' ps' L'" "if a = 0 then ps' = [] else a = vwalk (mem s') l (PTE2PA ?v) va"
      using Suc.IH [OF Suc.prems(1) c] by (auto simp: runs_def)
    have "load64 (mem s') (slot p ?i) = ?v"
      using r(2) Suc.prems(2) v by (simp add: vm_ext_def)
    then have "if a = 0 then ps' = [] else a = vwalk (mem s') (Suc l) p va" using r(3) v by simp
    then show ?thesis using r(1,2) v
      by (auto simp: runs_def kmon_simps rd_pte_def pte_addr_slot simp del: vwalk.simps)
  next
    case none
    then have "freelist s = 0" using ready kmem_inv_head(2) [of s] by simp
    moreover have "vm_ext root s ps L (s\<lparr>cpus := calm (harts s) (cur s) (cpus s)\<rparr>) ps L"
    proof -
      have "s\<lparr>cpus := calm (harts s) (cur s) (cpus s)\<rparr> =
        s\<lparr>cpus := calm (harts s) (cur s) (cpus s), mem := mem s, freelist := freelist s\<rparr>" by simp
      then have "vm_frame s (s\<lparr>cpus := calm (harts s) (cur s) (cpus s)\<rparr>)"
        unfolding vm_frame_def by blast
      then show ?thesis using Suc.prems(1) by (simp add: vm_ext_def vm_grow_def vm_inv_def)
    qed
    ultimately show ?thesis using none ready kalloc_none [OF ready(1)]
      by (auto simp: runs_def kmon_simps rd_pte_def pte_addr_slot)
  next
    case (new pg qs)
    let ?s1 = "s\<lparr>freelist := load64 (mem s) pg, cpus := calm (harts s) (cur s) (cpus s),
       mem := enter_table (mem s) p ?i pg\<rparr>"
    have fl: "freelist s = pg" "pg \<noteq> 0" using kmem_inv_head(1) ready(2) new(2) by auto
    have pg: "pg mod 4096 = 0" "pg \<noteq> p" "p mod 4096 = 0"
      using ready Suc.prems new(2) pt_inv_page [OF ready(3) Suc.prems(2)]
      by (auto simp: kmem_inv_def pg_ok_def vm_inv_def)
    have e1: "vm_ext root s (pg # qs) L ?s1 qs (L(pg \<mapsto> l))"
      using Suc.prems new by (intro enter_table_ext) simp_all
    then have i1: "vm_inv ?s1 qs (L(pg \<mapsto> l)) root" by (simp add: vm_ext_def vm_grow_def)
    have lp: "(L(pg \<mapsto> l)) pg = Some l" by simp
    obtain a s' ps' L' where r: "walk_from l pg va True ?s1 e = Ret a s' e"
        "vm_ext root ?s1 qs (L(pg \<mapsto> l)) s' ps' L'" "if a = 0 then ps' = [] else a = vwalk (mem s') l pg va"
      using Suc.IH [OF i1 lp] unfolding runs_def by blast
    have "load64 (mem ?s1) (slot p ?i) = PA2PTE pg OR 1" using pg by (simp add: enter_table_slot)
    moreover have "(L(pg \<mapsto> l)) p = Some (Suc l)" using Suc.prems(2) pg by simp
    ultimately have "load64 (mem s') (slot p ?i) = PA2PTE pg OR 1"
      using r(2) unfolding vm_ext_def by (metis bit_mk(2) idx_less)
    then have "if a = 0 then ps' = [] else a = vwalk (mem s') (Suc l) p va" using r(3) pg by simp
    moreover have "walk_from (Suc l) p va True s e = Ret a s' e"
      using new(1) fl r(1) kalloc_some [OF ready(1)]
      by (simp add: kmon_simps rd_pte_def pte_addr_slot zero_page_def wr_pte_def enter_table_def)
    ultimately show ?thesis using vm_ext_trans [OF e1 r(2)] new(2)
      by (auto simp: runs_def simp del: vwalk.simps walk_from.simps)
  qed
qed

lemma leaf_vwalk:
  "pt_inv m L root \<Longrightarrow> L p = Some l \<Longrightarrow>
   leaf m l p va = (if vwalk m l p va = 0 then 0 else load64 m (vwalk m l p va))"
  using vwalk_leaf [of m L root p l va] by auto

lemma idx_same_page: "unat va div 4096 = unat va' div 4096 \<Longrightarrow> idx k va = idx k va'"
  by (simp add: idx_def power_add div_mult2_eq)

lemma vwalk_same_page:
  "unat va div 4096 = unat va' div 4096 \<Longrightarrow> vwalk m l p va = vwalk m l p va'"
  using idx_same_page [of va va'] by (induction l arbitrary: p) (simp_all add: Let_def)

text \<open>Storing a leaf entry changes the translation of that page only.\<close>

lemma store_leaf:
  assumes inv: "pt_inv m L root" and w: "vwalk m 2 root va \<noteq> 0"
  shows "pt_inv (store64 m (vwalk m 2 root va) v) L root"
    and "unat va < 2 ^ 39 \<Longrightarrow> unat va' < 2 ^ 39 \<Longrightarrow> leaf (store64 m (vwalk m 2 root va) v) 2 root va' =
      (if unat va' div 4096 = unat va div 4096 then v else leaf m 2 root va')"
    and "\<exists>q. L q = Some 0 \<and> (\<exists>i < 512. vwalk m 2 root va = slot q i)"
proof -
  let ?m = "store64 m (vwalk m 2 root va) v"
  obtain q where q: "L q = Some 0" "vwalk m 2 root va = slot q (idx 0 va)"
    using vwalk_leaf [OF inv pt_inv_root [OF inv], of va] w by auto
  then show "\<exists>q. L q = Some 0 \<and> (\<exists>i < 512. vwalk m 2 root va = slot q i)" using idx_less by blast
  have qa: "q mod 4096 = 0" using pt_inv_page [OF inv q(1)] by simp
  have up: "load64 ?m (slot p i) = load64 m (slot p i)" if "L p = Some (Suc l)" "i < 512" for p l i
  proof -
    have "p mod 4096 = 0" "p \<noteq> q" using that q pt_inv_page [OF inv that(1)] by auto
    then show ?thesis using that qa q(2) by (simp add: load64_store64_slot)
  qed
  show inv': "pt_inv ?m L root"
    using inv unfolding pt_inv_def by (simp add: up cong: imp_cong)
  have vw: "L p = Some l \<Longrightarrow> vwalk ?m l p x = vwalk m l p x" for p l x
  proof (induction l arbitrary: p)
    case (Suc l)
    then show ?case using pt_inv_child [OF inv Suc.prems, of "idx (Suc l) x"] up [OF Suc.prems]
      by (auto simp: Let_def)
  qed simp
  assume va: "unat va < 2 ^ 39" "unat va' < 2 ^ 39"
  let ?w = "vwalk m 2 root"
  have lf: "leaf ?m 2 root va' = (if ?w va' = 0 then 0 else load64 ?m (?w va'))"
    and lf0: "leaf m 2 root va' = (if ?w va' = 0 then 0 else load64 m (?w va'))"
    using leaf_vwalk [OF inv' pt_inv_root [OF inv]] leaf_vwalk [OF inv pt_inv_root [OF inv]]
      vw [OF pt_inv_root [OF inv]] by simp_all
  show "leaf ?m 2 root va' = (if unat va' div 4096 = unat va div 4096 then v else leaf m 2 root va')"
  proof (cases "unat va' div 4096 = unat va div 4096")
    case True
    then have "?w va' = ?w va" by (rule vwalk_same_page)
    then show ?thesis using True w by (simp add: lf load64_store64)
  next
    case False
    then have ne: "?w va' \<noteq> ?w va"
      using vwalk_inj [OF inv pt_inv_root [OF inv] pt_inv_root [OF inv] w, of va']
        idx_page [OF va] by auto
    have "load64 ?m (?w va') = load64 m (?w va')" if nz: "?w va' \<noteq> 0"
    proof -
      obtain q' where q': "L q' = Some 0" "?w va' = slot q' (idx 0 va')"
        using vwalk_leaf [OF inv pt_inv_root [OF inv], of va'] nz by auto
      then show ?thesis using ne q qa pt_inv_page [OF inv q'(1)] by (auto simp: load64_store64_slot)
    qed
    then show ?thesis using False by (simp add: lf lf0)
  qed
qed

section \<open>mappages\<close>

text \<open>
  \<open>leafs_set root a pa perm k m m'\<close>: between \<open>m\<close> and \<open>m'\<close> the \<open>k\<close> pages from \<open>a\<close> on have been
  mapped to the physical pages from \<open>pa\<close> on, and no other address changed its leaf entry.
\<close>

definition leafs_set :: "uint64 \<Rightarrow> uint64 \<Rightarrow> uint64 \<Rightarrow> uint64 \<Rightarrow> nat \<Rightarrow> memory \<Rightarrow> memory \<Rightarrow> bool" where
  "leafs_set root a pa perm k m m' \<longleftrightarrow> (\<forall>v. unat v < 2 ^ 38 \<longrightarrow> leaf m' 2 root v =
     (if unat a div 4096 \<le> unat v div 4096 \<and> unat v div 4096 < unat a div 4096 + k
      then PA2PTE (pa + of_nat (4096 * (unat v div 4096 - unat a div 4096))) OR perm OR 1
      else leaf m 2 root v))"

lemma MAXVA_nat: "va < MAXVA \<longleftrightarrow> unat va < 2 ^ 38" for va :: uint64
  by (simp add: word_less_nat_alt)

lemma aligned_step: "(pa :: uint64) mod 4096 = 0 \<Longrightarrow> (pa + 4096) mod 4096 = 0"
  by (simp add: aligned_unat unat_word_ariths mod_mod_cancel)

lemma vm_inv_store_leaf:
  assumes inv: "vm_inv s ps L root" and w: "vwalk (mem s) 2 root va \<noteq> 0"
  shows "vm_grow root s ps L (s\<lparr>mem := store64 (mem s) (vwalk (mem s) 2 root va) v\<rparr>) ps L"
proof -
  let ?s = "s\<lparr>mem := store64 (mem s) (vwalk (mem s) 2 root va) v\<rparr>"
  have p: "pt_inv (mem s) L root" using inv by (simp add: vm_inv_def)
  obtain q i where q: "L q = Some 0" "i < 512" "vwalk (mem s) 2 root va = slot q i"
    using store_leaf(3) [OF p w] by blast
  have "q mod 4096 = 0" "q \<notin> set ps" using q(1) inv pt_inv_page [OF p q(1)] by (auto simp: vm_inv_def)
  then have "kmem_inv ?s ps" using inv q
    by (intro kmem_inv_frame) (auto simp: vm_inv_def same_off_page_def store64_slot_other)
  then have "vm_inv ?s ps L root" using inv store_leaf(1) [OF p w, of v]
    by (simp add: vm_inv_def kmem_ready_def)
  moreover have "mem ?s x = mem s x" if "\<forall>p \<in> dom L. \<not> in_page p x" for x
  proof -
    have "\<not> in_page q x" using that q(1) by blast
    then show ?thesis using q by (simp add: store64_slot_other)
  qed
  moreover have "?s = s\<lparr>cpus := cpus s, mem := mem ?s, freelist := freelist s\<rparr>" by simp
  then have "vm_frame s ?s" unfolding vm_frame_def by blast
  ultimately show ?thesis unfolding vm_grow_def by auto
qed

text \<open>One round of the loop of \<open>mappages\<close>.\<close>

lemma map_one:
  assumes inv: "vm_inv s ps L root" and a: "a < MAXVA" and new: "\<not> bit (leaf (mem s) 2 root a) 0"
  shows "runs (mappages_round root perm lst (a, pa)) s e
     (\<lambda>r s' e'. e' = e \<and> (\<exists>ps' L'. vm_grow root s ps L s' ps' L' \<and>
        (r = (if a = lst then Inr 0 else Inl (a + 4096, pa + 4096)) \<and>
           leafs_set root a pa perm 1 (mem s) (mem s') \<or>
         r = Inr (- 1) \<and> ps' = [] \<and> leafs_set root a pa perm 0 (mem s) (mem s'))))"
proof -
  have root: "L root = Some 2" using inv by (simp add: vm_inv_def pt_inv_def)
  obtain x s1 ps' L' where w: "walk_from 2 root a True s e = Ret x s1 e"
      "vm_ext root s ps L s1 ps' L'" "if x = 0 then ps' = [] else x = vwalk (mem s1) 2 root a"
    using walk_from_grows [OF inv root, of a e] unfolding runs_def by blast
  have w': "walk root a True s e = Ret x s1 e" using a w(1) by (simp add: walk_def not_le [symmetric])
  have lf: "leaf (mem s1) 2 root v = leaf (mem s) 2 root v" for v using w(2) root by (simp add: vm_ext_def)
  have g: "vm_grow root s ps L s1 ps' L'" using w(2) by (simp add: vm_ext_def)
  then have inv1: "vm_inv s1 ps' L' root" by (simp add: vm_grow_def)
  then have p1: "pt_inv (mem s1) L' root" by (simp add: vm_inv_def)
  show ?thesis
  proof (cases "x = 0")
    case True
    then show ?thesis using w' w(3) g lf by (auto simp: runs_def kmon_simps leafs_set_def mappages_round_def)
  next
    case False
    then have x: "x = vwalk (mem s1) 2 root a" "vwalk (mem s1) 2 root a \<noteq> 0" using w(3) by auto
    have v: "load64 (mem s1) x = leaf (mem s) 2 root a"
      using leaf_vwalk [OF p1 pt_inv_root [OF p1], of a] x lf by simp
    let ?s2 = "s1\<lparr>mem := store64 (mem s1) x (PA2PTE pa OR perm OR 1)\<rparr>"
    have g2: "vm_grow root s ps L ?s2 ps' L'"
      using vm_grow_trans [OF g vm_inv_store_leaf [OF inv1 x(2)]] x(1) by simp
    have "leaf (mem ?s2) 2 root v = (if unat v div 4096 = unat a div 4096
        then PA2PTE pa OR perm OR 1 else leaf (mem s) 2 root v)" if "unat v < 2 ^ 38" for v
      using store_leaf(2) [OF p1 x(2), of v] x(1) that a [unfolded MAXVA_nat] by (simp add: lf)
    then have "leafs_set root a pa perm 1 (mem s) (mem ?s2)"
      by (auto simp: leafs_set_def)
    then show ?thesis using w' False v new g2
      by (auto simp: runs_def kmon_simps rd_pte_def wr_pte_def mappages_round_def)
  qed
qed

lemma leafs_set_step:
  assumes "leafs_set root a pa perm 1 m m1" and "leafs_set root (a + 4096) (pa + 4096) perm k m1 m2"
    and "unat a + 4096 < 2 ^ 64"
  shows "leafs_set root a pa perm (Suc k) m m2"
proof -
  have "unat (a + 4096) = unat a + 4096" using assms(3) unat_add_nat [of a 4096] by simp
  then have d: "unat (a + 4096) div 4096 = unat a div 4096 + 1" by simp
  have e: "pa + 4096 + of_nat (4096 * (n - (i + 1))) = pa + of_nat (4096 * (n - i))" if "i + 1 \<le> n" for n i
  proof -
    have "4096 * (n - i) = 4096 + 4096 * (n - (i + 1))" using that by simp
    then show ?thesis by (simp only: of_nat_add) simp
  qed
  show ?thesis unfolding leafs_set_def
  proof (intro allI impI)
    fix v :: uint64 assume v: "unat v < 2 ^ 38"
    show "leaf m2 2 root v = (if unat a div 4096 \<le> unat v div 4096 \<and> unat v div 4096 < unat a div 4096 + Suc k
      then PA2PTE (pa + of_nat (4096 * (unat v div 4096 - unat a div 4096))) OR perm OR 1
      else leaf m 2 root v)"
      using assms(1,2) v e [of "unat a div 4096" "unat v div 4096"] unfolding leafs_set_def d
      by (cases "unat v div 4096 = unat a div 4096") auto
  qed
qed

lemma mappages_loop:
  assumes "vm_inv s ps L root" and "unat a + 4096 * Suc n \<le> 2 ^ 38"
    and "lst = a + of_nat (4096 * n)" and "n < fuel"
    and "\<And>i. i \<le> n \<Longrightarrow> \<not> bit (leaf (mem s) 2 root (a + of_nat (4096 * i))) 0"
  shows "runs (loop fuel (mappages_round root perm lst) (a, pa)) s e
     (\<lambda>r s' e'. e' = e \<and> (\<exists>ps' L' k. vm_grow root s ps L s' ps' L' \<and>
        leafs_set root a pa perm k (mem s) (mem s') \<and>
        (r = 0 \<and> k = Suc n \<or> r = - 1 \<and> k \<le> n \<and> ps' = [])))"
  using assms
proof (induction n arbitrary: s ps L a pa fuel)
  case (0 s ps L a pa fuel)
  obtain f where f: "fuel = Suc f" using "0.prems"(4) by (cases fuel) auto
  have "a < MAXVA" "\<not> bit (leaf (mem s) 2 root a) 0"
    using "0.prems"(2) "0.prems"(5) [of 0] by (simp_all only: MAXVA_nat) simp_all
  then show ?case using map_one [OF "0.prems"(1), of a perm lst pa e] "0.prems"(3)
    unfolding f runs_def by (fastforce simp: kmon_simps)
next
  case (Suc n)
  obtain f where f: "fuel = Suc f" "n < f" using Suc.prems(4) by (cases fuel) auto
  have a: "a < MAXVA" "\<not> bit (leaf (mem s) 2 root a) 0"
    using Suc.prems(2) Suc.prems(5) [of 0] by (simp_all only: MAXVA_nat) simp_all
  have up: "unat (a + 4096) = unat a + 4096" using Suc.prems(2) unat_add_nat [of a 4096] by simp
  have lst: "lst = (a + 4096) + of_nat (4096 * n)" using Suc.prems(3) by (simp add: algebra_simps)
  have ne: "a \<noteq> lst"
  proof
    assume "a = lst"
    then have "(of_nat (4096 * Suc n) :: uint64) = 0" using Suc.prems(3) by simp
    moreover have "unat (of_nat (4096 * Suc n) :: uint64) = 4096 * Suc n"
      using Suc.prems(2) by (intro unat_of_nat_eq) simp
    ultimately show False by simp
  qed
  obtain r s1 ps1 L1 where r: "mappages_round root perm lst (a, pa) s e = Ret r s1 e"
      "vm_grow root s ps L s1 ps1 L1"
      "r = Inl (a + 4096, pa + 4096) \<and> leafs_set root a pa perm 1 (mem s) (mem s1) \<or>
       r = Inr (- 1) \<and> ps1 = [] \<and> leafs_set root a pa perm 0 (mem s) (mem s1)"
    using map_one [OF Suc.prems(1) a, of perm lst pa e] ne unfolding runs_def by auto
  from r(3) show ?case
  proof (elim disjE conjE)
    assume "r = Inr (- 1)" "ps1 = []" "leafs_set root a pa perm 0 (mem s) (mem s1)"
    then show ?thesis using r(1,2) unfolding f runs_def by (fastforce simp: kmon_simps)
  next
    assume rl: "r = Inl (a + 4096, pa + 4096)" "leafs_set root a pa perm 1 (mem s) (mem s1)"
    have inv1: "vm_inv s1 ps1 L1 root" using r(2) by (simp add: vm_grow_def)
    have free: "\<not> bit (leaf (mem s1) 2 root (a + 4096 + of_nat (4096 * i))) 0" if "i \<le> n" for i
    proof -
      let ?v = "a + of_nat (4096 * Suc i)"
      have v: "unat ?v = unat a + 4096 * Suc i" using that Suc.prems(2) by (intro unat_add_nat) simp
      have d: "unat ?v div 4096 = unat a div 4096 + Suc i" unfolding v by simp
      have "unat ?v < 2 ^ 38" using v that Suc.prems(2) by simp
      then have "leaf (mem s1) 2 root ?v = leaf (mem s) 2 root ?v"
        using rl(2) [unfolded leafs_set_def, rule_format, of ?v] unfolding d by simp
      then show ?thesis using Suc.prems(5) [of "Suc i"] that by (simp add: algebra_simps)
    qed
    obtain q s2 ps2 L2 k where q: "loop f (mappages_round root perm lst) (a + 4096, pa + 4096) s1 e = Ret q s2 e"
        "vm_grow root s1 ps1 L1 s2 ps2 L2" "leafs_set root (a + 4096) (pa + 4096) perm k (mem s1) (mem s2)"
        "q = 0 \<and> k = Suc n \<or> q = - 1 \<and> k \<le> n \<and> ps2 = []"
      using Suc.IH [OF inv1 _ lst f(2) free, of "pa + 4096"] Suc.prems(2) up unfolding runs_def by auto
    have "leafs_set root a pa perm (Suc k) (mem s) (mem s2)"
      using leafs_set_step [OF rl(2) q(3)] Suc.prems(2) by simp
    moreover have "loop fuel (mappages_round root perm lst) (a, pa) s e = Ret q s2 e"
      using r(1) rl(1) q(1) by (simp add: f kmon_simps)
    ultimately show ?thesis using vm_grow_trans [OF r(2) q(2)] q(4) unfolding runs_def by fastforce
  qed
qed

text \<open>The number of pages a range of \<open>sz\<close> bytes at \<open>va\<close> touches.\<close>

definition npages_of :: "uint64 \<Rightarrow> uint64 \<Rightarrow> nat" where
  "npages_of va sz = (unat va + unat sz - 1) div 4096 - unat va div 4096 + 1"

lemma mappages_runs:
  assumes inv: "vm_inv s ps L root" and sz: "sz \<noteq> 0" "unat va + unat sz \<le> 2 ^ 38"
    and free: "\<And>i. i < npages_of va sz \<Longrightarrow>
      \<not> bit (leaf (mem s) 2 root (PGROUNDDOWN va + of_nat (4096 * i))) 0"
  shows "runs (mappages root va sz pa perm) s e (\<lambda>r s' e'. e' = e \<and>
     (\<exists>ps' L' k. vm_grow root s ps L s' ps' L' \<and>
        leafs_set root (PGROUNDDOWN va) pa perm k (mem s) (mem s') \<and>
        (r = 0 \<and> k = npages_of va sz \<or> r = - 1 \<and> k < npages_of va sz \<and> ps' = [])))"
proof -
  let ?a = "PGROUNDDOWN va" let ?l = "PGROUNDDOWN (va + sz - 1)"
  define n where "n = (unat va + unat sz - 1) div 4096 - unat va div 4096"
  have pos: "0 < unat sz" using sz(1) by (simp add: unat_gt_0)
  have "va + sz - 1 = va + of_nat (unat sz - 1)" using pos by simp
  then have e: "unat (va + sz - 1) = unat va + unat sz - 1"
    using sz(2) pos unat_add_nat [of va "unat sz - 1"] by (simp add: add_diff_eq)
  have n: "npages_of va sz = Suc n" by (simp add: npages_of_def n_def)
  have le: "unat va div 4096 \<le> (unat va + unat sz - 1) div 4096" using pos by (intro div_le_mono) simp
  then obtain d where d: "(unat va + unat sz - 1) div 4096 = unat va div 4096 + d" using le_Suc_ex by blast
  have l: "unat ?l = unat ?a + 4096 * n" unfolding unat_PGROUNDDOWN e n_def d by simp
  have lst: "?l = ?a + of_nat (4096 * n)"
  proof -
    have "unat (?a + of_nat (4096 * n)) = unat ?l"
      using l unat_lt64 [of ?l] by (subst unat_add_nat) simp_all
    then show ?thesis by (simp add: word_unat_eq_iff)
  qed
  have fuel: "unat (?l - ?a) div 4096 = n"
  proof -
    have "unat (?l - ?a) = 4096 * n" using l by (simp add: unat_sub word_le_nat_alt)
    then show ?thesis by simp
  qed
  have top: "unat ?a + 4096 * Suc n \<le> 2 ^ 38"
  proof -
    have "unat ?l \<le> unat va + unat sz - 1" by (simp add: unat_PGROUNDDOWN e)
    then have "unat ?l div 4096 < 67108864" using sz(2) pos by simp
    moreover have "unat ?l = 4096 * (unat ?l div 4096)" by (simp add: unat_PGROUNDDOWN)
    ultimately have "unat ?l + 4096 \<le> 274877906944" by linarith
    then show ?thesis using l by simp
  qed
  have eq: "mappages root va sz pa perm = loop (Suc n) (mappages_round root perm ?l) (?a, pa)"
    using sz(1) by (simp only: mappages_def Let_def fuel if_False)
  show ?thesis unfolding eq n less_Suc_eq_le
    by (rule mappages_loop [OF inv top lst]) (use free n in \<open>simp_all add: less_Suc_eq_le\<close>)
qed

section \<open>User memory\<close>

text \<open>
  \<open>uphys m pt va\<close> is the physical address of a user byte, when the page is mapped for the user;
  \<open>umapped m pt va n\<close> says that the \<open>n\<close> bytes from \<open>va\<close> on all are.
\<close>

definition uphys :: "memory \<Rightarrow> uint64 \<Rightarrow> uint64 \<Rightarrow> uint64" where
  "uphys m pt va = upage m pt (PGROUNDDOWN va) + (va - PGROUNDDOWN va)"

definition umapped :: "memory \<Rightarrow> uint64 \<Rightarrow> uint64 \<Rightarrow> nat \<Rightarrow> bool" where
  "umapped m pt va n \<longleftrightarrow> (\<forall>i < n. upage m pt (PGROUNDDOWN (va + of_nat i)) \<noteq> 0)"

definition uload :: "memory \<Rightarrow> uint64 \<Rightarrow> uint64 \<Rightarrow> nat \<Rightarrow> uint8 list" where
  "uload m pt va n = map (\<lambda>i. m (uphys m pt (va + of_nat i))) [0..<n]"

text \<open>Distinct user bytes have distinct physical addresses, and none of them is in the table.\<close>

definition udisjoint :: "memory \<Rightarrow> (uint64 \<Rightarrow> nat option) \<Rightarrow> uint64 \<Rightarrow> uint64 \<Rightarrow> nat \<Rightarrow> bool" where
  "udisjoint m L pt va n \<longleftrightarrow>
     (\<forall>i < n. \<forall>j < n. uphys m pt (va + of_nat i) = uphys m pt (va + of_nat j) \<longrightarrow> i = j) \<and>
     (\<forall>i < n. \<forall>p \<in> dom L. \<not> in_page p (uphys m pt (va + of_nat i)))"

lemma udisjoint_table: "udisjoint m L pt va n \<Longrightarrow> i < n \<Longrightarrow> p \<in> dom L \<Longrightarrow>
  \<not> in_page p (uphys m pt (va + of_nat i))"
  unfolding udisjoint_def by blast

lemma udisjoint_inj: "udisjoint m L pt va n \<Longrightarrow> i < n \<Longrightarrow> j < n \<Longrightarrow>
  uphys m pt (va + of_nat i) = uphys m pt (va + of_nat j) \<Longrightarrow> i = j"
  unfolding udisjoint_def by blast

lemma udisjoint_shift:
  assumes "udisjoint m L pt va n" and "\<And>i. i < n - k \<Longrightarrow> va' + of_nat i = va + of_nat (k + i)"
  shows "udisjoint m L pt va' (n - k)"
  unfolding udisjoint_def
proof (intro conjI allI impI ballI)
  fix i j assume a: "i < n - k" "j < n - k" "uphys m pt (va' + of_nat i) = uphys m pt (va' + of_nat j)"
  then have "k + i = k + j"
    using udisjoint_inj [OF assms(1), of "k + i" "k + j"] unfolding assms(2) [OF a(1)] assms(2) [OF a(2)] by simp
  then show "i = j" by simp
next
  fix i p assume "i < n - k" "p \<in> dom L"
  then show "\<not> in_page p (uphys m pt (va' + of_nat i))"
    using udisjoint_table [OF assms(1), of "k + i" p] by (simp add: assms(2))
qed

lemma off_PGROUNDDOWN: "va - PGROUNDDOWN va = of_nat (unat va mod 4096)"
proof -
  have "PGROUNDDOWN va = of_nat (unat (PGROUNDDOWN va))" by simp
  also have "\<dots> = of_nat (unat va - unat va mod 4096)"
    by (simp only: unat_PGROUNDDOWN minus_mod_eq_div_mult)
  also have "\<dots> = va - of_nat (unat va mod 4096)" by (subst of_nat_diff) simp_all
  finally show ?thesis by simp
qed

lemma PGROUNDDOWN_same:
  assumes "unat va mod 4096 + j < 4096"
  shows "PGROUNDDOWN (va + of_nat j) = PGROUNDDOWN va"
proof -
  have "unat va + j < 2 ^ 64"
  proof -
    have "unat va div 4096 * 4096 + 4096 \<le> 2 ^ 64"
      using aligned_room [of "PGROUNDDOWN va"] by (simp add: unat_PGROUNDDOWN)
    then show ?thesis using assms div_mult_mod_eq [of "unat va" 4096] by linarith
  qed
  then have "unat (va + of_nat j) = unat va + j" by (intro unat_add_nat) simp
  moreover have "(unat va + j) div 4096 = unat va div 4096"
    using assms div_mult_mod_eq [of "unat va" 4096] by (intro iffD2 [OF div_page]) linarith
  ultimately show ?thesis by (simp add: word_unat_eq_iff unat_PGROUNDDOWN)
qed

lemma PGROUNDDOWN_next: "PGROUNDDOWN va + 4096 = va + of_nat (4096 - unat va mod 4096)"
proof -
  have "va + of_nat (4096 - unat va mod 4096) = va - of_nat (unat va mod 4096) + 4096"
    by (subst of_nat_diff) simp_all
  then show ?thesis using off_PGROUNDDOWN [of va] by (simp add: algebra_simps)
qed

lemma uphys_chunk:
  assumes "unat va mod 4096 + j < 4096"
  shows "uphys m pt (va + of_nat j) = upage m pt (PGROUNDDOWN va) + of_nat (unat va mod 4096) + of_nat j"
  using PGROUNDDOWN_same [OF assms] off_PGROUNDDOWN [of va] by (simp add: uphys_def algebra_simps)

text \<open>Memory that agrees on the table's pages has the same table.\<close>

lemma pt_inv_cong:
  assumes inv: "pt_inv m L root" and eq: "\<And>p x. p \<in> dom L \<Longrightarrow> in_page p x \<Longrightarrow> m' x = m x"
  shows "pt_inv m' L root" and "upage m' root = upage m root"
proof -
  have e: "load64 m' (slot p i) = load64 m (slot p i)" if "L p = Some l" "i < 512" for p l i
    using that by (intro load64_cong eq [of p]) auto
  show "pt_inv m' L root" using inv unfolding pt_inv_def by (simp add: e cong: imp_cong)
  have "L p = Some l \<Longrightarrow> leaf m' l p v = leaf m l p v" for p l v
  proof (induction l arbitrary: p)
    case (Suc l)
    then show ?case using pt_inv_child [OF inv Suc.prems, of "idx (Suc l) v"] e [OF Suc.prems]
      by (auto simp: Let_def)
  qed (simp add: e)
  then show "upage m' root = upage m root"
    using pt_inv_root [OF inv] by (auto simp: upage_def fun_eq_iff)
qed

definition copied :: "memory \<Rightarrow> (nat \<Rightarrow> uint64) \<Rightarrow> uint8 list \<Rightarrow> memory \<Rightarrow> bool" where
  "copied m addr bs m' \<longleftrightarrow> (\<forall>i < length bs. m' (addr i) = bs ! i) \<and>
     (\<forall>x. x \<notin> addr ` {..<length bs} \<longrightarrow> m' x = m x)"

lemma copied_cong:
  "(\<And>i. i < length bs \<Longrightarrow> addr i = addr' i) \<Longrightarrow> copied m addr bs m' = copied m addr' bs m'"
  by (simp add: copied_def cong: image_cong_simp)

lemma copied_store_bytes:
  assumes "\<And>i. i < length bs \<Longrightarrow> addr i = a + of_nat i" and "length bs \<le> 4096"
  shows "copied m addr bs (store_bytes m a bs)"
proof -
  have "x \<in> addr ` {..<length bs}" if "unat (x - a) < length bs" for x
    using assms(1) [OF that] that by (auto intro!: image_eqI [of _ _ "unat (x - a)"])
  then show ?thesis using assms by (auto simp: copied_def store_bytes_apply unat_of_nat_eq)
qed

lemma copied_append:
  assumes "copied m addr bs m1" and "copied m1 (\<lambda>i. addr (length bs + i)) cs m2"
    and "\<And>i j. i < length bs + length cs \<Longrightarrow> j < length bs + length cs \<Longrightarrow> addr i = addr j \<Longrightarrow> i = j"
  shows "copied m addr (bs @ cs) m2"
  unfolding copied_def
proof (intro conjI allI impI)
  fix i assume i: "i < length (bs @ cs)"
  show "m2 (addr i) = (bs @ cs) ! i"
  proof (cases "i < length bs")
    case True
    have "addr i \<notin> (\<lambda>i. addr (length bs + i)) ` {..<length cs}"
    proof
      assume "addr i \<in> (\<lambda>i. addr (length bs + i)) ` {..<length cs}"
      then obtain j where "j < length cs" "addr i = addr (length bs + j)" by auto
      then show False using assms(3) [of i "length bs + j"] True by simp
    qed
    then show ?thesis using True assms(1,2) by (simp add: copied_def nth_append)
  next
    case False
    then obtain j where "i = length bs + j" "j < length cs" using i le_Suc_ex [of "length bs" i] by auto
    then show ?thesis using assms(2) by (simp add: copied_def)
  qed
next
  fix x assume x: "x \<notin> addr ` {..<length (bs @ cs)}"
  then have "x \<notin> addr ` {..<length bs}" "x \<notin> (\<lambda>i. addr (length bs + i)) ` {..<length cs}" by auto
  then show "m2 x = m x" using assms(1,2) by (simp add: copied_def)
qed


lemma chunk_len:
  "unat ((4096 :: uint64) - of_nat (unat va mod 4096)) = 4096 - unat va mod 4096" for va :: uint64
proof -
  have "(4096 :: uint64) - of_nat (unat va mod 4096) = of_nat (4096 - unat va mod 4096)"
    by (subst of_nat_diff) simp_all
  then show ?thesis by (simp only:) (rule unat_of_nat_eq, simp)
qed

lemma copyout_chunk:
  assumes inv: "pt_inv (mem s) L pt" and dis: "udisjoint (mem s) L pt va (length src)"
    and src: "src \<noteq> []" and pa: "upage (mem s) pt (PGROUNDDOWN va) \<noteq> 0"
  obtains n va' m1 where "0 < n" "n \<le> length src"
    "copyout_round pt (va, src) s e = Ret (Inl (va', drop n src)) (s\<lparr>mem := m1\<rparr>) e"
    "\<And>i. i < length src - n \<Longrightarrow> va' + of_nat i = va + of_nat (n + i)"
    "copied (mem s) (\<lambda>i. uphys (mem s) pt (va + of_nat i)) (take n src) m1"
    "pt_inv m1 L pt" "uphys m1 pt = uphys (mem s) pt" "umapped m1 pt = umapped (mem s) pt"
    "\<And>i. i < n \<Longrightarrow> upage (mem s) pt (PGROUNDDOWN (va + of_nat i)) \<noteq> 0"
proof -
  let ?m = "mem s" let ?off = "unat va mod 4096" let ?pa = "upage ?m pt (PGROUNDDOWN va)"
  let ?n = "min (4096 - ?off) (length src)" let ?va = "va + of_nat (4096 - ?off)"
  let ?addr = "\<lambda>i. uphys ?m pt (va + of_nat i)"
  let ?m1 = "store_bytes ?m (?pa + of_nat ?off) (take ?n src)"
  have "?off < 4096" by simp
  then have n: "0 < ?n" "?n \<le> length src" using src by auto
  have step: "copyout_round pt (va, src) s e = Ret (Inl (?va, drop ?n src)) (s\<lparr>mem := ?m1\<rparr>) e"
    using pa src by (simp add: copyout_round_def walkaddr_apply [OF inv] Let_def kmon_simps
        off_PGROUNDDOWN chunk_len PGROUNDDOWN_next)
  have c1: "copied ?m ?addr (take ?n src) ?m1"
    by (rule copied_store_bytes) (use n in \<open>auto simp: uphys_chunk\<close>)
  have "?m1 x = ?m x" if "p \<in> dom L" "in_page p x" for p x
  proof -
    have "x \<notin> ?addr ` {..<length (take ?n src)}"
      using that n udisjoint_table [OF dis _ that(1)] by auto
    then show ?thesis using c1 by (simp add: copied_def)
  qed
  note t1 = pt_inv_cong [OF inv this]
  have nxt: "?va + of_nat i = va + of_nat (?n + i)" if "i < length src - ?n" for i
    using that by (auto simp: min_def split: if_splits)
  have "upage ?m pt (PGROUNDDOWN (va + of_nat i)) \<noteq> 0" if "i < ?n" for i
  proof -
    have "?off + i < 4096" using that by (auto simp: less_diff_conv)
    then show ?thesis using pa PGROUNDDOWN_same [of va i] by simp
  qed
  then show thesis
    using that [OF n step nxt c1 t1(1)] t1(2) by (auto simp: uphys_def umapped_def fun_eq_iff)
qed

lemma umapped_shift:
  assumes "\<And>i. i < n \<Longrightarrow> upage m pt (PGROUNDDOWN (va + of_nat i)) \<noteq> 0"
    and "\<And>i. i < j \<Longrightarrow> va' + of_nat i = va + of_nat (n + i)"
  shows "umapped m pt va (n + j) \<longleftrightarrow> umapped m pt va' j"
proof
  assume l: "umapped m pt va (n + j)"
  show "umapped m pt va' j" unfolding umapped_def
  proof (intro allI impI)
    fix i assume "i < j"
    then show "upage m pt (PGROUNDDOWN (va' + of_nat i)) \<noteq> 0"
      using l [unfolded umapped_def, rule_format, of "n + i"] unfolding assms(2) [OF \<open>i < j\<close>] by simp
  qed
next
  assume r: "umapped m pt va' j"
  show "umapped m pt va (n + j)" unfolding umapped_def
  proof (intro allI impI)
    fix i assume i: "i < n + j"
    show "upage m pt (PGROUNDDOWN (va + of_nat i)) \<noteq> 0"
    proof (cases "i < n")
      case False
      then obtain k where k: "i = n + k" "k < j" using i le_Suc_ex [of n i] by auto
      then show ?thesis using r [unfolded umapped_def, rule_format, OF k(2)] unfolding assms(2) [OF k(2)] by simp
    qed (rule assms(1))
  qed
qed

text \<open>
  What \<open>copyout\<close> does from any point of its loop: it copies the bytes up to the first page that
  is not mapped, and succeeds when there is none.
\<close>

definition copyout_post :: "'a vmem_scheme \<Rightarrow> uint64 \<Rightarrow> uint64 \<Rightarrow> uint8 list \<Rightarrow> int \<Rightarrow> 'a vmem_scheme \<Rightarrow> bool" where
  "copyout_post s pt va src r s' \<longleftrightarrow> (\<exists>k m. s' = s\<lparr>mem := m\<rparr> \<and> k \<le> length src \<and>
     copied (mem s) (\<lambda>i. uphys (mem s) pt (va + of_nat i)) (take k src) m \<and> umapped (mem s) pt va k \<and>
     (r = 0 \<and> k = length src \<or> r = - 1 \<and> \<not> umapped (mem s) pt va (length src)))"

lemma copyout_postI:
  "copied (mem s) (\<lambda>i. uphys (mem s) pt (va + of_nat i)) (take k src) m \<Longrightarrow> umapped (mem s) pt va k \<Longrightarrow>
   k \<le> length src \<Longrightarrow> (r = 0 \<and> k = length src \<or> r = - 1 \<and> \<not> umapped (mem s) pt va (length src)) \<Longrightarrow>
   copyout_post s pt va src r (s\<lparr>mem := m\<rparr>)"
  unfolding copyout_post_def by blast

lemma copyout_post_same:
  "(r = 0 \<and> src = [] \<or> r = - 1 \<and> \<not> umapped (mem s) pt va (length src)) \<Longrightarrow> copyout_post s pt va src r s"
  using copyout_postI [of s pt va 0 src "mem s" r] by (auto simp: copied_def umapped_def)

lemma copyout_loop:
  assumes "pt_inv (mem s) L pt" and "udisjoint (mem s) L pt va (length src)" and "length src < fuel"
  shows "runs (loop fuel (copyout_round pt) (va, src)) s e
    (\<lambda>r s' e'. e' = e \<and> copyout_post s pt va src r s')"
  using assms
proof (induction fuel arbitrary: s va src)
  case 0
  then show ?case by simp
next
  case (Suc fuel)
  note walk = walkaddr_apply [OF Suc.prems(1)]
  consider "src = []" | "src \<noteq> []" "upage (mem s) pt (PGROUNDDOWN va) = 0"
    | "src \<noteq> []" "upage (mem s) pt (PGROUNDDOWN va) \<noteq> 0" by blast
  then show ?case
  proof cases
    case 1
    then show ?thesis using copyout_post_same [of 0 src s pt va]
      by (simp add: runs_def kmon_simps copyout_round_def)
  next
    case 2
    have "\<not> umapped (mem s) pt va (length src)"
      using 2 by (auto simp: umapped_def intro!: exI [of _ 0])
    then show ?thesis using 2 copyout_post_same [of "- 1" src s pt va]
      by (simp add: runs_def kmon_simps copyout_round_def walk Let_def)
  next
    case 3
    obtain n va' m1 where n: "0 < n" "n \<le> length src"
      and step: "copyout_round pt (va, src) s e = Ret (Inl (va', drop n src)) (s\<lparr>mem := m1\<rparr>) e"
      and nxt: "\<And>i. i < length src - n \<Longrightarrow> va' + of_nat i = va + of_nat (n + i)"
      and c1: "copied (mem s) (\<lambda>i. uphys (mem s) pt (va + of_nat i)) (take n src) m1"
      and t1: "pt_inv m1 L pt" "uphys m1 pt = uphys (mem s) pt" "umapped m1 pt = umapped (mem s) pt"
      and up: "\<And>i. i < n \<Longrightarrow> upage (mem s) pt (PGROUNDDOWN (va + of_nat i)) \<noteq> 0"
      using copyout_chunk [OF Suc.prems(1,2) 3] by blast
    have less: "length (drop n src) < fuel" using Suc.prems(3) n by simp
    have "udisjoint m1 L pt va' (length (drop n src))"
      using udisjoint_shift [OF Suc.prems(2) nxt] by (simp add: udisjoint_def t1)
    then obtain r s2 where r: "loop fuel (copyout_round pt) (va', drop n src) (s\<lparr>mem := m1\<rparr>) e = Ret r s2 e"
        "copyout_post (s\<lparr>mem := m1\<rparr>) pt va' (drop n src) r s2"
      using Suc.IH [of "s\<lparr>mem := m1\<rparr>" va' "drop n src"] t1(1) less by (auto simp: runs_def)
    obtain k m2 where k: "s2 = s\<lparr>mem := m2\<rparr>" "k \<le> length src - n" "umapped (mem s) pt va' k"
        "copied m1 (\<lambda>i. uphys (mem s) pt (va' + of_nat i)) (take k (drop n src)) m2"
        "r = 0 \<and> k = length src - n \<or> r = - 1 \<and> \<not> umapped (mem s) pt va' (length src - n)"
      using r(2) by (auto simp: copyout_post_def t1)
    have "copied (mem s) (\<lambda>i. uphys (mem s) pt (va + of_nat i)) (take n src @ take k (drop n src)) m2"
    proof (rule copied_append [OF c1])
      have "uphys (mem s) pt (va' + of_nat i) = uphys (mem s) pt (va + of_nat (length (take n src) + i))"
        if "i < length (take k (drop n src))" for i
        using nxt [of i] that k(2) n by (simp add: add.assoc)
      then show "copied m1 (\<lambda>i. uphys (mem s) pt (va + of_nat (length (take n src) + i))) (take k (drop n src)) m2"
        by (rule iffD1 [OF copied_cong k(4)])
    qed (use n k(2) in \<open>auto intro: udisjoint_inj [OF Suc.prems(2)]\<close>)
    then have c2: "copied (mem s) (\<lambda>i. uphys (mem s) pt (va + of_nat i)) (take (n + k) src) m2"
      by (simp only: take_add)
    have um: "umapped (mem s) pt va (n + j) \<longleftrightarrow> umapped (mem s) pt va' j" if "j \<le> length src - n" for j
      by (rule umapped_shift [OF up nxt]) (use that in auto)
    have "copyout_post s pt va src r s2" unfolding k(1)
      by (rule copyout_postI [OF c2]) (use um [of k] um [of "length src - n"] k n in auto)
    then show ?thesis using step r(1) by (simp add: runs_def kmon_simps)
  qed
qed

lemma uload_append:
  assumes "\<And>i. i < j \<Longrightarrow> va' + of_nat i = va + of_nat (n + i)"
  shows "uload m pt va (n + j) = uload m pt va n @ uload m pt va' j"
proof (rule nth_equalityI)
  fix k assume "k < length (uload m pt va (n + j))"
  then have k: "k < n + j" by (simp add: uload_def)
  show "uload m pt va (n + j) ! k = (uload m pt va n @ uload m pt va' j) ! k"
  proof (cases "k < n")
    case True
    then show ?thesis by (simp add: uload_def nth_append)
  next
    case False
    then have "va' + of_nat (k - n) = va + of_nat k" and "k - n < j"
      using assms [of "k - n"] k by simp_all
    then show ?thesis using False k by (simp add: uload_def nth_append del: of_nat_diff)
  qed
qed (simp add: uload_def)

text \<open>\<open>copyin\<close> changes nothing and returns the bytes up to the first unmapped page.\<close>

definition copyin_post :: "'a vmem_scheme \<Rightarrow> uint64 \<Rightarrow> uint64 \<Rightarrow> nat \<Rightarrow> uint8 list \<Rightarrow> int \<times> uint8 list \<Rightarrow> bool" where
  "copyin_post s pt va len dst r \<longleftrightarrow> (\<exists>k \<le> len. umapped (mem s) pt va k \<and>
     snd r = dst @ uload (mem s) pt va k \<and>
     (fst r = 0 \<and> k = len \<or> fst r = - 1 \<and> \<not> umapped (mem s) pt va len))"

lemma copyin_loop:
  assumes "pt_inv (mem s) L pt" and "len < fuel"
  shows "runs (loop fuel (copyin_round pt) (va, len, dst)) s e
    (\<lambda>r s' e'. s' = s \<and> e' = e \<and> copyin_post s pt va len dst r)"
  using assms(2)
proof (induction fuel arbitrary: va len dst)
  case 0
  then show ?case by simp
next
  case (Suc fuel)
  note walk = walkaddr_apply [OF assms(1)]
  let ?m = "mem s" let ?off = "unat va mod 4096" let ?pa = "upage ?m pt (PGROUNDDOWN va)"
  consider "len = 0" | "len \<noteq> 0" "?pa = 0" | "len \<noteq> 0" "?pa \<noteq> 0" by blast
  then show ?case
  proof cases
    case 1
    then show ?thesis
      by (simp add: runs_def kmon_simps copyin_round_def copyin_post_def umapped_def uload_def)
  next
    case 2
    have "\<not> umapped ?m pt va len" using 2 by (auto simp: umapped_def intro!: exI [of _ 0])
    then show ?thesis using 2
      by (auto simp: runs_def kmon_simps copyin_round_def copyin_post_def umapped_def uload_def walk Let_def
          intro!: exI [of _ 0])
  next
    case 3
    define n where "n = min (4096 - ?off) len"
    define va' where "va' = va + of_nat (4096 - ?off)"
    have off: "?off < 4096" by simp
    then have n: "0 < n" "n \<le> len" "?off + n \<le> 4096" using 3 by (auto simp: n_def)
    have ld: "load_bytes ?m (?pa + of_nat ?off) n = uload ?m pt va n"
      using n by (auto intro!: nth_equalityI simp: uload_def uphys_chunk)
    have step: "copyin_round pt (va, len, dst) s e = Ret (Inl (va', len - n, dst @ uload ?m pt va n)) s e"
      using 3 by (simp add: copyin_round_def walk Let_def kmon_simps off_PGROUNDDOWN chunk_len
          PGROUNDDOWN_next va'_def ld flip: n_def)
    have nxt: "va' + of_nat i = va + of_nat (n + i)" if "i < len - n" for i
      using that by (auto simp: n_def va'_def min_def split: if_splits)
    have up: "upage ?m pt (PGROUNDDOWN (va + of_nat i)) \<noteq> 0" if "i < n" for i
      using 3 PGROUNDDOWN_same [of va i] n that by simp
    have less: "len - n < fuel" using Suc.prems n by simp
    obtain r where r: "loop fuel (copyin_round pt) (va', len - n, dst @ uload ?m pt va n) s e = Ret r s e"
        "copyin_post s pt va' (len - n) (dst @ uload ?m pt va n) r"
      using Suc.IH [of "len - n" va' "dst @ uload ?m pt va n"] less by (auto simp: runs_def)
    obtain k where k: "k \<le> len - n" "umapped ?m pt va' k" "snd r = (dst @ uload ?m pt va n) @ uload ?m pt va' k"
        "fst r = 0 \<and> k = len - n \<or> fst r = - 1 \<and> \<not> umapped ?m pt va' (len - n)"
      using r(2) by (auto simp: copyin_post_def)
    have um: "umapped ?m pt va (n + j) \<longleftrightarrow> umapped ?m pt va' j" if "j \<le> len - n" for j
      by (rule umapped_shift [OF up nxt]) (use that in auto)
    have "uload ?m pt va (n + k) = uload ?m pt va n @ uload ?m pt va' k"
      by (rule uload_append [OF nxt]) (use k(1) in auto)
    then have "copyin_post s pt va len dst r" unfolding copyin_post_def
      using k n um [of k] um [of "len - n"] by (intro exI [of _ "n + k"]) auto
    then show ?thesis using step r(1) by (simp add: runs_def kmon_simps)
  qed
qed

text \<open>After a complete \<open>copyout\<close> the user's view of the range is the bytes copied.\<close>

lemma copied_uload:
  assumes inv: "pt_inv m L pt" and dis: "udisjoint m L pt va (length src)"
    and c: "copied m (\<lambda>i. uphys m pt (va + of_nat i)) src m'"
  shows "pt_inv m' L pt" and "uload m' pt va (length src) = src" and "umapped m' pt = umapped m pt"
proof -
  have "m' x = m x" if "p \<in> dom L" "in_page p x" for p x
  proof -
    have "x \<notin> (\<lambda>i. uphys m pt (va + of_nat i)) ` {..<length src}"
      using that udisjoint_table [OF dis _ that(1)] by auto
    then show ?thesis using c by (simp add: copied_def)
  qed
  note t = pt_inv_cong [OF inv this]
  show "pt_inv m' L pt" by (rule t)
  have "uphys m' pt = uphys m pt" using t(2) by (auto simp: uphys_def fun_eq_iff)
  then show "uload m' pt va (length src) = src"
    using c by (auto intro!: nth_equalityI simp: uload_def copied_def)
  show "umapped m' pt = umapped m pt" using t(2) by (auto simp: umapped_def fun_eq_iff)
qed

section \<open>Properties\<close>

text \<open>
  (C9) \<open>mappages\<close> on a well-formed table, for a range below \<^verbatim>\<open>MAXVA\<close> none of whose pages is
  mapped yet. It returns 0 and then every page of the range translates to its physical page
  with the given permissions, or it returns -1 because the free list is empty, having mapped a
  prefix. No other address changes its translation, the table stays a tree whose new pages were
  free before, and memory outside the table's pages is unchanged.
\<close>

theorem mappages_correct:
  assumes "vm_inv s ps L root" and "sz \<noteq> 0" and "unat va + unat sz \<le> 2 ^ 38"
    and "\<And>i. i < npages_of va sz \<Longrightarrow>
      \<not> bit (leaf (mem s) 2 root (PGROUNDDOWN va + of_nat (4096 * i))) 0"
  shows "runs (mappages root va sz pa perm) s e (\<lambda>r s' e'. e' = e \<and>
     (\<exists>ps' L' k. vm_grow root s ps L s' ps' L' \<and>
        leafs_set root (PGROUNDDOWN va) pa perm k (mem s) (mem s') \<and>
        (r = 0 \<and> k = npages_of va sz \<or> r = - 1 \<and> k < npages_of va sz \<and> ps' = [])))"
  using assms by (rule mappages_runs)

text \<open>Witness: one page mapped into an empty table with two pages to spare.\<close>

definition vm_ex :: vmem where
  "vm_ex = kmem.extend kmem_ex (vmem.fields 0)"

lemma vm_ex_fields [simp]:
  "mem vm_ex = mem kmem_ex" "freelist vm_ex = freelist kmem_ex" "ksym_end vm_ex = ksym_end kmem_ex"
  "harts vm_ex = harts kmem_ex" "cur vm_ex = cur kmem_ex" "cpus vm_ex = cpus kmem_ex"
  "locks vm_ex = locks kmem_ex"
  by (simp_all add: vm_ex_def kmem.extend_def vmem.fields_def)

lemma vm_ex_zero: "i < 512 \<Longrightarrow> load64 (mem vm_ex) (slot 0x80104000 i) = 0"
proof (rule load64_zero)
  fix x :: uint64 assume "in_page 0x80104000 x"
  then have "\<not> in_page 0x80101000 x" "\<not> in_page 0x80102000 x"
    using in_page_unique [of "0x80104000" "0x80101000" x] in_page_unique [of "0x80104000" "0x80102000" x]
    by auto
  then show "mem vm_ex x = 0" by (simp add: store64_page)
qed

lemma vm_ex_inv: "vm_inv vm_ex [0x80101000, 0x80102000] [0x80104000 \<mapsto> 2] 0x80104000"
proof -
  have "pt_inv (mem vm_ex) [0x80104000 \<mapsto> 2] 0x80104000"
    using vm_ex_zero by (simp add: pt_inv_def)
  then show ?thesis using kmem_ex_inv kmem_ex_ready
    by (simp add: vm_inv_def kmem_inv_def kmem_ready_def del: kmem_ex_ready)
qed

theorem mappages_correct_witness:
  "runs (mappages 0x80104000 0x5000 0x1000 0x80105000 0x16) vm_ex [] (\<lambda>r s' e'. e' = [] \<and>
     (\<exists>ps' k. leafs_set 0x80104000 0x5000 0x80105000 0x16 k (mem vm_ex) (mem s') \<and>
        (r = 0 \<and> k = 1 \<or> r = - 1 \<and> k = 0 \<and> ps' = [])))"
proof -
  have n: "npages_of 0x5000 0x1000 = 1" and d: "PGROUNDDOWN 0x5000 = 0x5000"
    by (simp_all add: npages_of_def PGROUNDDOWN_def)
  have z: "leaf (mem vm_ex) 2 0x80104000 0x5000 = 0"
    by (rule leaf_zero_page) (rule vm_ex_zero)
  have "runs (mappages 0x80104000 0x5000 0x1000 0x80105000 0x16) vm_ex [] (\<lambda>r s' e'. e' = [] \<and>
     (\<exists>ps' L' k. vm_grow 0x80104000 vm_ex [0x80101000, 0x80102000] [0x80104000 \<mapsto> 2] s' ps' L' \<and>
        leafs_set 0x80104000 (PGROUNDDOWN 0x5000) 0x80105000 0x16 k (mem vm_ex) (mem s') \<and>
        (r = 0 \<and> k = npages_of 0x5000 0x1000 \<or> r = - 1 \<and> k < npages_of 0x5000 0x1000 \<and> ps' = [])))"
    by (rule mappages_correct [OF vm_ex_inv]) (use z in \<open>simp_all add: n d\<close>)
  then show ?thesis unfolding n d by (rule runs_mono) auto
qed

text \<open>
  (C10) \<open>copyout\<close> and \<open>copyin\<close>. On a well-formed table whose user pages are disjoint, \<open>copyout\<close>
  returns 0 exactly when every page of the range is mapped for the user; then the range holds
  the bytes copied, nothing else in memory changed, and \<open>copyin\<close> of the same range succeeds and
  gives the same bytes back. Otherwise it returns -1, having changed only bytes of the range
  before the first unmapped page.
\<close>

theorem copyout_copyin:
  assumes inv: "pt_inv (mem s) L pt" and dis: "udisjoint (mem s) L pt va (length src)"
  shows "runs (copyout pt va src) s e (\<lambda>r s' e'. e' = e \<and>
     (\<exists>k \<le> length src. s' = s\<lparr>mem := mem s'\<rparr> \<and> umapped (mem s) pt va k \<and>
        copied (mem s) (\<lambda>i. uphys (mem s) pt (va + of_nat i)) (take k src) (mem s') \<and>
        (if umapped (mem s) pt va (length src)
         then r = 0 \<and> k = length src \<and>
           runs (copyin pt va (length src)) s' e (\<lambda>q s'' e''. q = (0, src) \<and> s'' = s' \<and> e'' = e)
         else r = - 1)))"
proof -
  obtain r s' where r: "copyout pt va src s e = Ret r s' e" "copyout_post s pt va src r s'"
    using copyout_loop [OF inv dis, of "Suc (length src)" e] by (auto simp: runs_def copyout_def)
  then obtain k m where k: "s' = s\<lparr>mem := m\<rparr>" "k \<le> length src" "umapped (mem s) pt va k"
      "copied (mem s) (\<lambda>i. uphys (mem s) pt (va + of_nat i)) (take k src) m"
      "r = 0 \<and> k = length src \<or> r = - 1 \<and> \<not> umapped (mem s) pt va (length src)"
    by (auto simp: copyout_post_def)
  have "runs (copyin pt va (length src)) s' e (\<lambda>q s'' e''. q = (0, src) \<and> s'' = s' \<and> e'' = e)"
    if full: "umapped (mem s) pt va (length src)" "k = length src"
  proof -
    have c: "copied (mem s) (\<lambda>i. uphys (mem s) pt (va + of_nat i)) src m" using k(4) full(2) by simp
    note u = copied_uload [OF inv dis c]
    have "pt_inv (mem s') L pt" using u(1) k(1) by simp
    from copyin_loop [OF this, of "length src" "Suc (length src)" va "[]" e]
    show ?thesis unfolding copyin_def
      by (rule runs_mono) (use u full k(1) in \<open>auto simp: copyin_post_def prod_eq_iff\<close>)
  qed
  then show ?thesis using r(1) k unfolding runs_def by (auto intro!: exI [of _ k])
qed

text \<open>Witness: a table with one user page at address 0, and the string \<open>hi\<close> copied to it.\<close>

definition utab :: memory where
  "utab = store64 (store64 (store64 (\<lambda>_. 0) (slot 0x80104000 0) (PA2PTE 0x80105000 OR 1))
     (slot 0x80105000 0) (PA2PTE 0x80106000 OR 1)) (slot 0x80106000 0) (PA2PTE 0x80107000 OR 0x16 OR 1)"

definition utab_pages :: "uint64 \<Rightarrow> nat option" where
  "utab_pages = [0x80104000 \<mapsto> 2, 0x80105000 \<mapsto> 1, 0x80106000 \<mapsto> 0]"

lemma utab_slot:
  "i < 512 \<Longrightarrow> load64 utab (slot 0x80104000 i) = (if i = 0 then PA2PTE 0x80105000 OR 1 else 0)"
  "i < 512 \<Longrightarrow> load64 utab (slot 0x80105000 i) = (if i = 0 then PA2PTE 0x80106000 OR 1 else 0)"
  "i < 512 \<Longrightarrow> load64 utab (slot 0x80106000 i) = (if i = 0 then PA2PTE 0x80107000 OR 0x16 OR 1 else 0)"
  using load64_zero [of i _ "\<lambda>_. 0"] by (simp_all add: utab_def load64_store64_slot)

lemma utab_inv: "pt_inv utab utab_pages 0x80104000"
  unfolding pt_inv_def utab_pages_def by (auto simp: utab_slot split: if_splits)

lemma utab_upage: "upage utab 0x80104000 0 = 0x80107000"
proof -
  have "idx k 0 = 0" for k by (simp add: idx_def)
  then have "leaf utab (Suc (Suc 0)) 0x80104000 0 = PA2PTE 0x80107000 OR 0x16 OR 1"
    by (simp add: utab_slot Let_def)
  then have "leaf utab 2 0x80104000 0 = PA2PTE 0x80107000 OR 0x16 OR 1" by (simp only: numeral_2_eq_2)
  moreover have "perm_ok 0x16" by (simp add: perm_ok_def)
  ultimately show ?thesis
    using PTE2PA_mk [of "0x80107000" "0x16"] bit_mk(1,3) [of "0x80107000" "0x16"]
    by (simp add: upage_def bit_numeral_rec)
qed

theorem copyout_copyin_witness:
  "runs (copyout 0x80104000 0 [104, 105]) (vm_ex\<lparr>mem := utab\<rparr>) [] (\<lambda>r s' e'. r = 0 \<and>
     runs (copyin 0x80104000 0 2) s' [] (\<lambda>q s'' e''. q = (0, [104, 105])))"
proof -
  have p: "uphys utab 0x80104000 (0 + of_nat i) = 0x80107000 + of_nat i"
    "upage utab 0x80104000 (PGROUNDDOWN (0 + of_nat i)) = 0x80107000" if "i < 2" for i
    using uphys_chunk [of 0 i utab "0x80104000"] PGROUNDDOWN_same [of 0 i] that utab_upage
    by (simp_all add: PGROUNDDOWN_def)
  have np: "\<not> in_page q (0x80107000 + of_nat i)" if "q \<in> dom utab_pages" "i < 2" for q i
    using that in_page_unique [of q "0x80107000" "0x80107000 + of_nat i"] in_page_offset [of i "0x80107000"]
    by (auto simp: utab_pages_def split: if_splits)
  have u: "umapped utab 0x80104000 0 2" using p(2) by (simp add: umapped_def)
  have len: "length [104, 105 :: uint8] = 2" by simp
  have "udisjoint utab utab_pages 0x80104000 0 2" unfolding udisjoint_def
    using p(1) [of 0] p(1) [of 1] np [OF domI, where i = 0] np [OF domI, where i = 1] by (auto dest!: less_2_cases)
  then have d: "udisjoint (mem (vm_ex\<lparr>mem := utab\<rparr>)) utab_pages 0x80104000 0 (length [104, 105 :: uint8])"
    by (simp only: len) simp
  have i: "pt_inv (mem (vm_ex\<lparr>mem := utab\<rparr>)) utab_pages 0x80104000" using utab_inv by simp
  show ?thesis
    by (rule runs_mono [OF copyout_copyin [OF i d, of "[]", unfolded len]]) (use u in \<open>auto elim: runs_mono\<close>)
qed
end
