(* ===== verification/Sched.thy ===== *)
theory Sched
  imports Vm
begin

text \<open>
  Processes and context switches: \<^verbatim>\<open>struct proc\<close> of \<^verbatim>\<open>kernel/proc.h\<close> and the part of \<^verbatim>\<open>kernel/proc.c\<close>
  that the rest of the kernel sleeps and wakes with. Open files and inodes are held by their
  index in the file and inode tables. \<open>swtch\<close> away from a process lets the rest of the system
  run: it is one step of the schedule, and the process continues in whatever state that step
  leaves. Wait channels are addresses in the code; only their equality matters, so they are a
  datatype of the objects whose address is used.
\<close>

section \<open>State\<close>

datatype procstate = UNUSED | USED | SLEEPING | RUNNABLE | RUNNING | ZOMBIE

datatype chan = ChProc nat | ChSleep lockid | ChLog | ChTicks | ChPipeR uint64 | ChPipeW uint64
  | ChCons | ChUart | ChDisk nat | ChDescs | ChNull

record proc =
  p_state :: procstate
  p_chan :: "chan option"
  p_killed :: int
  p_xstate :: int
  p_pid :: int
  p_parent :: "nat option"
  p_kstack :: uint64
  p_sz :: uint64
  p_pagetable :: uint64
  p_trapframe :: uint64
  p_context :: kcontext
  p_ofile :: "nat \<Rightarrow> nat option"
  p_cwd :: "nat option"
  p_name :: "uint8 list"

record ptable = vmem +
  procs :: "nat \<Rightarrow> proc"
  nextpid :: int
  initproc :: "nat option"

definition upd_proc :: "nat \<Rightarrow> (proc \<Rightarrow> proc) \<Rightarrow> 'a ptable_scheme \<Rightarrow> 'a ptable_scheme" where
  "upd_proc p f s = s\<lparr>procs := (procs s)(p := f (procs s p))\<rparr>"

definition getp :: "nat \<Rightarrow> (proc \<Rightarrow> 'b) \<Rightarrow> ('a ptable_scheme, 'b) kmon" where
  "getp p f = gets (\<lambda>s. f (procs s p))"

definition setp :: "nat \<Rightarrow> (proc \<Rightarrow> proc) \<Rightarrow> ('a ptable_scheme, unit) kmon" where
  "setp p f = modify (upd_proc p f)"

text \<open>
  Following a null pointer is a page fault in the kernel, which \<open>kerneltrap\<close> answers with a
  panic.
\<close>

definition deref :: "'b option \<Rightarrow> ('s, 'b) kmon" where
  "deref p = (case p of None \<Rightarrow> panic ''kerneltrap'' | Some x \<Rightarrow> ret x)"

section \<open>Operations\<close>

definition procinit :: "('a ptable_scheme, unit) kmon" where
  "procinit = bind (initlock LPid ''nextpid'') (\<lambda>_.
     bind (initlock LWait ''wait_lock'') (\<lambda>_.
     for_each [0..<NPROC] (\<lambda>p.
       bind (initlock (LProc p) ''proc'') (\<lambda>_.
       bind (setp p (\<lambda>r. r\<lparr>p_state := UNUSED\<rparr>)) (\<lambda>_.
       setp p (\<lambda>r. r\<lparr>p_kstack := KSTACK p\<rparr>))))))"

definition myproc :: "('a ptable_scheme, nat option) kmon" where
  "myproc = bind push_off (\<lambda>_.
     bind mycpu (\<lambda>c.
     bind (gets (\<lambda>s. c_proc (cpus s c))) (\<lambda>p.
     bind pop_off (\<lambda>_. ret p))))"

definition curproc :: "('a ptable_scheme, nat) kmon" where
  "curproc = bind myproc deref"

definition allocpid :: "('a ptable_scheme, int) kmon" where
  "allocpid = bind (acquire LPid) (\<lambda>_.
     bind (gets nextpid) (\<lambda>pid.
     bind (modify (\<lambda>s. s\<lparr>nextpid := nextpid s + 1\<rparr>)) (\<lambda>_.
     bind (release LPid) (\<lambda>_. ret pid))))"

text \<open>\<^verbatim>\<open>swtch()\<close> is assembly code; here it lets the others move.\<close>

definition swtch :: "('a ptable_scheme, unit) kmon" where
  "swtch = env_step"

definition sched :: "('a ptable_scheme, unit) kmon" where
  "sched = bind curproc (\<lambda>p.
    bind (holding (LProc p)) (\<lambda>h.
    if \<not> h then panic ''sched p->lock'' else
    bind mycpu (\<lambda>c.
    bind (gets (\<lambda>s. c_noff (cpus s c))) (\<lambda>n.
    if n \<noteq> 1 then panic ''sched locks'' else
    bind (getp p p_state) (\<lambda>st.
    if st = RUNNING then panic ''sched running'' else
    bind intr_get (\<lambda>on.
    if on then panic ''sched interruptible'' else
    bind mycpu (\<lambda>c.
    bind (gets (\<lambda>s. c_intena (cpus s c))) (\<lambda>intena.
    bind swtch (\<lambda>_.
    bind mycpu (\<lambda>c.
    modify (upd_cpu c (\<lambda>k. k\<lparr>c_intena := intena\<rparr>))))))))))))"

definition yield :: "('a ptable_scheme, unit) kmon" where
  "yield = bind curproc (\<lambda>p.
     bind (acquire (LProc p)) (\<lambda>_.
     bind (setp p (\<lambda>r. r\<lparr>p_state := RUNNABLE\<rparr>)) (\<lambda>_.
     bind sched (\<lambda>_.
     release (LProc p)))))"

definition sleep :: "chan \<Rightarrow> lockid \<Rightarrow> ('a ptable_scheme, unit) kmon" where
  "sleep ch lk = bind curproc (\<lambda>p.
     bind (acquire (LProc p)) (\<lambda>_.
     bind (release lk) (\<lambda>_.
     bind (setp p (\<lambda>r. r\<lparr>p_chan := Some ch\<rparr>)) (\<lambda>_.
     bind (setp p (\<lambda>r. r\<lparr>p_state := SLEEPING\<rparr>)) (\<lambda>_.
     bind sched (\<lambda>_.
     bind (setp p (\<lambda>r. r\<lparr>p_chan := None\<rparr>)) (\<lambda>_.
     bind (release (LProc p)) (\<lambda>_.
     acquire lk))))))))"

definition wakeup :: "chan \<Rightarrow> ('a ptable_scheme, unit) kmon" where
  "wakeup ch = for_each [0..<NPROC] (\<lambda>p.
     bind myproc (\<lambda>me.
     whenM (Some p \<noteq> me)
       (bind (acquire (LProc p)) (\<lambda>_.
        bind (getp p (\<lambda>r. p_state r = SLEEPING \<and> p_chan r = Some ch)) (\<lambda>b.
        bind (whenM b (setp p (\<lambda>r. r\<lparr>p_state := RUNNABLE\<rparr>))) (\<lambda>_.
        release (LProc p)))))))"

definition kill :: "int \<Rightarrow> ('a ptable_scheme, int) kmon" where
  "kill pid = bind (for_find [0..<NPROC] (\<lambda>p.
     bind (acquire (LProc p)) (\<lambda>_.
     bind (getp p p_pid) (\<lambda>q.
     if q = pid then
       bind (setp p (\<lambda>r. r\<lparr>p_killed := 1\<rparr>)) (\<lambda>_.
       bind (getp p p_state) (\<lambda>st.
       bind (whenM (st = SLEEPING) (setp p (\<lambda>r. r\<lparr>p_state := RUNNABLE\<rparr>))) (\<lambda>_.
       bind (release (LProc p)) (\<lambda>_. ret (Some 0)))))
     else bind (release (LProc p)) (\<lambda>_. ret None))))) (\<lambda>r.
     case r of Some x \<Rightarrow> ret x | None \<Rightarrow> ret (- 1))"

definition setkilled :: "nat \<Rightarrow> ('a ptable_scheme, unit) kmon" where
  "setkilled p = bind (acquire (LProc p)) (\<lambda>_.
     bind (setp p (\<lambda>r. r\<lparr>p_killed := 1\<rparr>)) (\<lambda>_.
     release (LProc p)))"

definition killed :: "nat \<Rightarrow> ('a ptable_scheme, int) kmon" where
  "killed p = bind (acquire (LProc p)) (\<lambda>_.
     bind (getp p p_killed) (\<lambda>k.
     bind (release (LProc p)) (\<lambda>_. ret k)))"

text \<open>
  One iteration of the \<^verbatim>\<open>for(;;)\<close> of \<open>scheduler\<close> on CPU \<open>c\<close>, and \<open>scheduler\<close> itself for a given
  number of iterations; the code's loop never ends.
\<close>

definition scheduler_pass :: "nat \<Rightarrow> ('a ptable_scheme, unit) kmon" where
  "scheduler_pass c = bind intr_on (\<lambda>_.
     for_each [0..<NPROC] (\<lambda>p.
       bind (acquire (LProc p)) (\<lambda>_.
       bind (getp p p_state) (\<lambda>st.
       bind (whenM (st = RUNNABLE)
         (bind (setp p (\<lambda>r. r\<lparr>p_state := RUNNING\<rparr>)) (\<lambda>_.
          bind (modify (upd_cpu c (\<lambda>k. k\<lparr>c_proc := Some p\<rparr>))) (\<lambda>_.
          bind swtch (\<lambda>_.
          modify (upd_cpu c (\<lambda>k. k\<lparr>c_proc := None\<rparr>))))))) (\<lambda>_.
       release (LProc p))))))"

definition scheduler :: "nat \<Rightarrow> ('a ptable_scheme, unit) kmon" where
  "scheduler n = bind mycpu (\<lambda>c.
     bind (modify (upd_cpu c (\<lambda>k. k\<lparr>c_proc := None\<rparr>))) (\<lambda>_.
     for_each [0..<n] (\<lambda>_. scheduler_pass c)))"

text \<open>
  A kernel address as source or destination is an address of physical memory. The other side
  is a byte list, as for \<open>copyout\<close>.
\<close>

definition either_copyout :: "bool \<Rightarrow> uint64 \<Rightarrow> uint8 list \<Rightarrow> ('a ptable_scheme, int) kmon" where
  "either_copyout user_dst dst src = bind myproc (\<lambda>p.
     if user_dst then bind (deref p) (\<lambda>p. bind (getp p p_pagetable) (\<lambda>pt. copyout pt dst src))
     else bind (modify (\<lambda>s. s\<lparr>mem := store_bytes (mem s) dst src\<rparr>)) (\<lambda>_. ret 0))"

definition either_copyin :: "bool \<Rightarrow> uint64 \<Rightarrow> nat \<Rightarrow> ('a ptable_scheme, int \<times> uint8 list) kmon" where
  "either_copyin user_src src len = bind myproc (\<lambda>p.
     if user_src then bind (deref p) (\<lambda>p. bind (getp p p_pagetable) (\<lambda>pt. copyin pt src len))
     else bind (gets (\<lambda>s. load_bytes (mem s) src len)) (\<lambda>bs. ret (0, bs)))"

section \<open>What they do\<close>

text \<open>
  \<open>quiet s\<close>: no lock is held, the nesting count of this CPU is in order, and the CPU's saved
  interrupt flag is the current one, so that taking and giving back a lock leaves no trace.
\<close>

definition quiet :: "'a smp_scheme \<Rightarrow> bool" where
  "quiet s \<longleftrightarrow> cpu_ok (harts s) (cur s) (cpus s) \<and> calm (harts s) (cur s) (cpus s) = cpus s \<and>
     (\<forall>lk. lock_free (locks s lk))"

definition me :: "'a smp_scheme \<Rightarrow> nat option" where
  "me s = c_proc (cpus s (cid (harts s) (cur s)))"

lemmas proc_simps = upd_proc_def getp_def setp_def curproc_def

lemma deref_Some [simp]: "deref (Some x) = ret x"
  by (simp add: deref_def)

lemma deref_None [simp]: "deref None = panic ''kerneltrap''"
  by (simp add: deref_def)

lemma myproc_apply [kmon_simps]:
  "cpu_ok (harts s) (cur s) (cpus s) \<Longrightarrow>
   myproc s e = Ret (me s) (s\<lparr>cpus := calm (harts s) (cur s) (cpus s)\<rparr>) e"
  by (simp add: myproc_def kmon_simps me_def)

text \<open>
  \<open>settled s\<close> is the part of \<open>quiet\<close> that also holds inside a critical section.
\<close>

definition settled :: "'a smp_scheme \<Rightarrow> bool" where
  "settled s \<longleftrightarrow> cpu_ok (harts s) (cur s) (cpus s) \<and> calm (harts s) (cur s) (cpus s) = cpus s"

definition plocks_free :: "'a smp_scheme \<Rightarrow> bool" where
  "plocks_free s \<longleftrightarrow> (\<forall>p. lock_free (locks s (LProc p)))"

lemma quiet_settled: "quiet s \<Longrightarrow> settled s" "quiet s \<Longrightarrow> plocks_free s"
  "quiet s \<Longrightarrow> lock_free (locks s lk)"
  by (simp_all add: quiet_def settled_def plocks_free_def)

lemma settled_more [simp]:
  "settled (s\<lparr>procs := ps\<rparr>) = settled s" "plocks_free (s\<lparr>procs := ps\<rparr>) = plocks_free s"
  "me (s\<lparr>procs := ps\<rparr>) = me s" "quiet (s\<lparr>procs := ps\<rparr>) = quiet s"
  by (simp_all add: settled_def plocks_free_def me_def quiet_def)

lemma myproc_settled [kmon_simps]: "settled s \<Longrightarrow> myproc s e = Ret (me s) s e"
  by (simp add: myproc_apply settled_def)

definition woken :: "chan \<Rightarrow> nat option \<Rightarrow> nat \<Rightarrow> proc \<Rightarrow> proc" where
  "woken ch m p r = (if Some p \<noteq> m \<and> p_state r = SLEEPING \<and> p_chan r = Some ch
     then r\<lparr>p_state := RUNNABLE\<rparr> else r)"

lemma wakeup_body:
  assumes "settled s" and "plocks_free s"
  shows "bind myproc (\<lambda>me. whenM (Some p \<noteq> me)
       (bind (acquire (LProc p)) (\<lambda>_.
        bind (getp p (\<lambda>r. p_state r = SLEEPING \<and> p_chan r = Some ch)) (\<lambda>b.
        bind (whenM b (setp p (\<lambda>r. r\<lparr>p_state := RUNNABLE\<rparr>))) (\<lambda>_.
        release (LProc p)))))) s e =
    Ret () (s\<lparr>procs := (procs s)(p := woken ch (me s) p (procs s p))\<rparr>) e"
  using assms
  by (auto simp: kmon_simps proc_simps whenM_def woken_def settled_def plocks_free_def)

lemma wakeup_apply [kmon_simps]:
  assumes "settled s" and "plocks_free s"
  shows "wakeup ch s e = Ret () (s\<lparr>procs := (\<lambda>p. if p < NPROC then woken ch (me s) p (procs s p)
    else procs s p)\<rparr>) e"
proof -
  let ?body = "\<lambda>p. bind myproc (\<lambda>me. whenM (Some p \<noteq> me)
       (bind (acquire (LProc p)) (\<lambda>_.
        bind (getp p (\<lambda>r. p_state r = SLEEPING \<and> p_chan r = Some ch)) (\<lambda>b.
        bind (whenM b (setp p (\<lambda>r. r\<lparr>p_state := RUNNABLE\<rparr>))) (\<lambda>_.
        release (LProc p))))))"
  have "for_each is ?body s e = Ret () (s\<lparr>procs := (\<lambda>p. if p \<in> set is then woken ch (me s) p (procs s p)
    else procs s p)\<rparr>) e" for "is"
    using assms
  proof (induction "is" arbitrary: s)
    case (Cons i "is")
    let ?s = "s\<lparr>procs := (procs s)(i := woken ch (me s) i (procs s i))\<rparr>"
    have "woken ch m i (woken ch m i r) = woken ch m i r" for m r by (simp add: woken_def)
    then have eq: "(\<lambda>p. if p \<in> set is then woken ch (me s) p (procs ?s p) else procs ?s p) =
        (\<lambda>p. if p \<in> set (i # is) then woken ch (me s) p (procs s p) else procs s p)" by auto
    have "for_each is ?body ?s e = Ret () (s\<lparr>procs := (\<lambda>p. if p \<in> set (i # is)
        then woken ch (me s) p (procs s p) else procs s p)\<rparr>) e"
      using Cons.IH [of ?s] Cons.prems unfolding settled_more eq by simp
    then show ?case
      unfolding for_each.simps bind_Ret [of "?body i" s e "()" ?s e, OF wakeup_body [OF Cons.prems]] .
  qed (simp add: kmon_simps)
  from this [of "[0..<NPROC]"] show ?thesis by (simp add: wakeup_def)
qed

text \<open>
  Going to sleep. \<open>asleep s p ch lk\<close> is the state in which the process gives up the CPU: it is
  marked as sleeping on \<open>ch\<close>, its own lock is held across the switch, and \<open>lk\<close> is free.
\<close>

definition holds :: "'a smp_scheme \<Rightarrow> lockid \<Rightarrow> bool" where
  "holds s lk \<longleftrightarrow> lk_locked (locks s lk) \<noteq> 0 \<and> lk_cpu (locks s lk) = Some (cid (harts s) (cur s))"

definition one_lock :: "'a smp_scheme \<Rightarrow> bool" where
  "one_lock s \<longleftrightarrow> \<not> ints (harts s) (cur s) \<and> c_noff (cpus s (cid (harts s) (cur s))) = 1"

definition asleep :: "'a ptable_scheme \<Rightarrow> nat \<Rightarrow> chan \<Rightarrow> lockid \<Rightarrow> 'a ptable_scheme" where
  "asleep s p ch lk = s\<lparr>locks := (locks s)(LProc p := taken (cid (harts s) (cur s)) (locks s (LProc p)),
     lk := freed (locks s lk)), procs := (procs s)(p := (procs s p)\<lparr>p_chan := Some ch, p_state := SLEEPING\<rparr>)\<rparr>"

lemma one_lock_settled: "one_lock s \<Longrightarrow> settled s"
  by (simp add: one_lock_def settled_def cpu_ok_def calm_def)

lemma set_ints_off [simp]: "\<not> ints h c \<Longrightarrow> set_ints False h c = h"
  by (simp add: set_ints_same)

lemma popped_pushed1:
  assumes "\<not> ints h c" and "c_noff (k (cid h c)) = 1"
  shows "popped h c (pushed h c k) = k" "unmasked h c (pushed h c k) = h"
  using assms by (auto simp: popped_def pushed_def calm_def unmasked_def)

lemma sleep_until_switch:
  assumes "me s = Some p" and "one_lock s" and "holds s lk" and "lock_free (locks s (LProc p))" and "lk \<noteq> LProc p"
  shows "bind curproc (\<lambda>p.
     bind (acquire (LProc p)) (\<lambda>_.
     bind (release lk) (\<lambda>_.
     bind (setp p (\<lambda>r. r\<lparr>p_chan := Some ch\<rparr>)) (\<lambda>_.
     bind (setp p (\<lambda>r. r\<lparr>p_state := SLEEPING\<rparr>)) (\<lambda>_.
     k p))))) s e = k p (asleep s p ch lk) e"
proof -
  have s: "settled s" using assms(2) by (rule one_lock_settled)
  have o: "\<not> ints (harts s) (cur s)" "c_noff (cpus s (cid (harts s) (cur s))) = 1"
    using assms(2) by (simp_all add: one_lock_def)
  have m: "masked (harts s) (cur s) (pushed (harts s) (cur s) (cpus s))" using o by (simp add: masked_def)
  show ?thesis using assms s o m popped_pushed1 [of "harts s" "cur s" "cpus s", OF o]
    by (simp add: kmon_simps proc_simps holds_def asleep_def fun_upd_twist)
qed

text \<open>From the switch on: what has to hold when the process gets a CPU again.\<close>

definition resumed :: "'a ptable_scheme \<Rightarrow> nat \<Rightarrow> lockid \<Rightarrow> bool" where
  "resumed t p lk \<longleftrightarrow> one_lock t \<and> holds t (LProc p) \<and> lock_free (locks t lk) \<and> lk \<noteq> LProc p"

lemma sched_apply:
  assumes "me s = Some p" and "one_lock s" and "holds s (LProc p)" and "p_state (procs s p) \<noteq> RUNNING"
  shows "sched s (f # e) = Ret () (upd_cpu (cid (harts (f s)) (cur (f s)))
      (\<lambda>k. k\<lparr>c_intena := c_intena (cpus s (cid (harts s) (cur s)))\<rparr>) (f s)) e"
    and "sched s [] = Blocked s"
  using assms one_lock_settled [OF assms(2)]
  by (simp_all add: sched_def kmon_simps proc_simps holds_def one_lock_def swtch_def)

lemma repush:
  assumes "\<not> ints h c" and "c_noff (k (cid h c)) = 1"
  shows "set_ints False (unmasked h c k) c = h" "pushed (unmasked h c k) c (popped h c k) = k"
    "cid (unmasked h c k) d = cid h d"
proof -
  show "set_ints False (unmasked h c k) c = h"
    using assms(1) set_ints_restore [of h c True] by (simp add: unmasked_def)
  show i: "cid (unmasked h c k) d = cid h d" for d by (simp add: unmasked_def)
  have "ints (unmasked h c k) c = c_intena (k (cid h c))" using assms by (simp add: unmasked_def)
  then have "pushed (unmasked h c k) c (popped h c k) = k(cid h c := (k (cid h c))\<lparr>c_noff := 1\<rparr>)"
    using assms(2) by (simp add: pushed_def calm_def popped_def i)
  also have "\<dots> = k" by (rule fun_upd_idem) (use assms(2) in \<open>cases "k (cid h c)", simp\<close>)
  finally show "pushed (unmasked h c k) c (popped h c k) = k" .
qed

lemma wake_resumed:
  assumes "resumed t p lk"
  shows "bind (setp p (\<lambda>r. r\<lparr>p_chan := None\<rparr>)) (\<lambda>_. bind (release (LProc p)) (\<lambda>_. acquire lk)) t e =
    Ret () (t\<lparr>procs := (procs t)(p := (procs t p)\<lparr>p_chan := None\<rparr>),
      locks := (locks t)(LProc p := freed (locks t (LProc p)), lk := taken (cid (harts t) (cur t)) (locks t lk))\<rparr>) e"
proof -
  have o: "\<not> ints (harts t) (cur t)" "c_noff (cpus t (cid (harts t) (cur t))) = 1"
    using assms by (simp_all add: resumed_def one_lock_def)
  show ?thesis using assms repush [of "harts t" "cur t" "cpus t", OF o]
    by (simp add: resumed_def kmon_simps proc_simps holds_def one_lock_def masked_def)
qed

text \<open>
  The whole of \<open>sleep\<close>: it blocks in the state \<open>asleep\<close>, and when the schedule hands the CPU
  back it returns with \<open>lk\<close> held again.
\<close>

definition awake :: "'a ptable_scheme \<Rightarrow> bool \<Rightarrow> nat \<Rightarrow> lockid \<Rightarrow> 'a ptable_scheme" where
  "awake t ie p lk = (upd_cpu (cid (harts t) (cur t)) (\<lambda>k. k\<lparr>c_intena := ie\<rparr>) t)\<lparr>
     procs := (procs t)(p := (procs t p)\<lparr>p_chan := None\<rparr>),
     locks := (locks t)(LProc p := freed (locks t (LProc p)), lk := taken (cid (harts t) (cur t)) (locks t lk))\<rparr>"

lemma sleep_exact:
  assumes "me s = Some p" and "one_lock s" and "holds s lk" and "lock_free (locks s (LProc p))" and "lk \<noteq> LProc p"
  shows "sleep ch lk s [] = Blocked (asleep s p ch lk)"
    and "resumed (f (asleep s p ch lk)) p lk \<Longrightarrow> sleep ch lk s (f # e) =
      Ret () (awake (f (asleep s p ch lk)) (c_intena (cpus s (cid (harts s) (cur s)))) p lk) e"
proof -
  let ?a = "asleep s p ch lk" let ?ie = "c_intena (cpus s (cid (harts s) (cur s)))"
  have a: "me ?a = Some p" "one_lock ?a" "holds ?a (LProc p)" "p_state (procs ?a p) \<noteq> RUNNING"
    "cpus ?a = cpus s" "harts ?a = harts s" "cur ?a = cur s"
    using assms by (auto simp: asleep_def me_def one_lock_def holds_def)
  note sw = sleep_until_switch [OF assms, of ch "\<lambda>p. bind sched (\<lambda>_. bind (setp p (\<lambda>r. r\<lparr>p_chan := None\<rparr>))
     (\<lambda>_. bind (release (LProc p)) (\<lambda>_. acquire lk)))"]
  show "sleep ch lk s [] = Blocked ?a"
    unfolding sleep_def sw by (simp add: bind_apply sched_apply(2) [OF a(1-4)])
  assume r: "resumed (f ?a) p lk"
  let ?t = "upd_cpu (cid (harts (f ?a)) (cur (f ?a))) (\<lambda>k. k\<lparr>c_intena := ?ie\<rparr>) (f ?a)"
  have "resumed ?t p lk"
    using r by (simp add: resumed_def upd_cpu_def one_lock_def holds_def)
  note w = wake_resumed [OF this, of e]
  have "sched ?a (f # e) = Ret () ?t e" using sched_apply(1) [OF a(1-4), of f e] a(5-7) by simp
  then have "sleep ch lk s (f # e) = Ret () (?t\<lparr>procs := (procs ?t)(p := (procs ?t p)\<lparr>p_chan := None\<rparr>),
      locks := (locks ?t)(LProc p := freed (locks ?t (LProc p)), lk := taken (cid (harts ?t) (cur ?t)) (locks ?t lk))\<rparr>) e"
    unfolding sleep_def sw using w by (simp only: bind_apply [of sched] res.case)
  then show "sleep ch lk s (f # e) = Ret () (awake (f ?a) ?ie p lk) e"
    by (simp add: awake_def upd_cpu_def)
qed

lemma sleep_apply:
  assumes "me s = Some p" and "one_lock s" and "holds s lk" and "lock_free (locks s (LProc p))" and "lk \<noteq> LProc p"
  shows "sleep ch lk s [] = Blocked (asleep s p ch lk)"
    and "resumed (f (asleep s p ch lk)) p lk \<Longrightarrow> \<exists>t. sleep ch lk s (f # e) = Ret () t e \<and>
      holds t lk \<and> one_lock t \<and> p_chan (procs t p) = None \<and> lock_free (locks t (LProc p)) \<and>
      c_intena (cpus t (cid (harts t) (cur t))) = c_intena (cpus s (cid (harts s) (cur s)))"
  using sleep_exact [OF assms]
  by (auto simp: awake_def holds_def one_lock_def resumed_def upd_cpu_def lock_free_def freed_def)

text \<open>\<open>kill\<close> marks the first process of the table with the given pid, and wakes it if it sleeps.\<close>

definition marked :: "proc \<Rightarrow> proc" where
  "marked r = r\<lparr>p_killed := 1, p_state := (if p_state r = SLEEPING then RUNNABLE else p_state r)\<rparr>"

lemma kill_apply:
  assumes "settled s" and "plocks_free s"
  shows "kill pid s e = (case find (\<lambda>p. p_pid (procs s p) = pid) [0..<NPROC] of
     None \<Rightarrow> Ret (- 1) s e
   | Some p \<Rightarrow> Ret 0 (s\<lparr>procs := (procs s)(p := marked (procs s p))\<rparr>) e)"
proof -
  let ?body = "\<lambda>p. bind (acquire (LProc p)) (\<lambda>_.
     bind (getp p p_pid) (\<lambda>q.
     if q = pid then
       bind (setp p (\<lambda>r. r\<lparr>p_killed := 1\<rparr>)) (\<lambda>_.
       bind (getp p p_state) (\<lambda>st.
       bind (whenM (st = SLEEPING) (setp p (\<lambda>r. r\<lparr>p_state := RUNNABLE\<rparr>))) (\<lambda>_.
       bind (release (LProc p)) (\<lambda>_. ret (Some (0 :: int))))))
     else bind (release (LProc p)) (\<lambda>_. ret None)))"
  have b: "?body p s e = (if p_pid (procs s p) = pid
     then Ret (Some 0) (s\<lparr>procs := (procs s)(p := marked (procs s p))\<rparr>) e else Ret None s e)" for p
    using assms by (cases "procs s p")
      (auto simp: kmon_simps proc_simps whenM_def settled_def plocks_free_def marked_def)
  have "for_find [0..<NPROC] ?body s e = (case find (\<lambda>p. p_pid (procs s p) = pid) [0..<NPROC] of None \<Rightarrow> Ret None s e
   | Some p \<Rightarrow> Ret (Some 0) (s\<lparr>procs := (procs s)(p := marked (procs s p))\<rparr>) e)"
    by (rule for_find_apply) (rule b)
  then show ?thesis unfolding kill_def by (simp add: bind_apply ret_apply split: option.split)
qed

section \<open>Properties\<close>


text \<open>Witness: process 0 waits for the disk while it holds the disk's lock.\<close>

definition proc0 :: proc where
  "proc0 = \<lparr>p_state = RUNNING, p_chan = None, p_killed = 0, p_xstate = 0, p_pid = 1, p_parent = None,
     p_kstack = 0, p_sz = 0, p_pagetable = 0, p_trapframe = 0, p_context = kcontext0,
     p_ofile = (\<lambda>_. None), p_cwd = None, p_name = replicate 16 0\<rparr>"

definition ptable0 :: ptable where
  "ptable0 = vmem.extend (kmem.extend (smp.extend smp0 (kmem.fields (\<lambda>_. 0) 0 0x80100000 0x80008000 0x80007000))
     (vmem.fields 0)) (ptable.fields (\<lambda>_. proc0\<lparr>p_state := UNUSED, p_pid := 0\<rparr>) 2 (Some 0))"

definition ptable_ex :: ptable where
  "ptable_ex = ptable0\<lparr>harts := set_ints False (harts ptable0) 0,
     cpus := pushed (harts ptable0) 0 (cpus ptable0),
     locks := (locks ptable0)(LDisk := taken 0 (locks ptable0 LDisk)),
     procs := (procs ptable0)(0 := proc0)\<rparr>"

lemma ptable0_fields [simp]: "harts ptable0 = harts smp0" "cur ptable0 = 0" "cpus ptable0 = cpus smp0"
  "locks ptable0 = locks smp0" "procs ptable0 p = proc0\<lparr>p_state := UNUSED, p_pid := 0\<rparr>"
  "nextpid ptable0 = 2" "initproc ptable0 = Some 0"
  by (simp_all add: ptable0_def vmem.extend_def kmem.extend_def smp.extend_def kmem.fields_def
      vmem.fields_def ptable.fields_def smp0_def)

end
