(* ===== verification/Uart.thy ===== *)
theory Uart
  imports Sched
begin

text \<open>
  The 16550 UART driver, \<^verbatim>\<open>kernel/uart.c\<close>, except \<open>uartintr\<close>, which calls the console and is in
  the theory \<open>Console\<close>. The device is a parameter: \<open>uart_dev h r\<close> is what a read of register
  \<open>r\<close> returns after the accesses \<open>h\<close>, any function of that history. A poll that fails lets the
  rest of the system move once, as a failed swap of a spin lock does.
\<close>

section \<open>State\<close>

datatype uacc = URead nat uint8 | UWrite nat uint8

record uart = ptable +
  uart_dev :: "uacc list \<Rightarrow> nat \<Rightarrow> uint8"
  uart_hist :: "uacc list"
  uart_tx_buf :: "uint8 list"
  uart_tx_w :: uint64
  uart_tx_r :: uint64
  panicked :: bool

abbreviation (input) RHR :: nat where "RHR \<equiv> 0"
abbreviation (input) THR :: nat where "THR \<equiv> 0"
abbreviation (input) IER :: nat where "IER \<equiv> 1"
abbreviation (input) IER_RX_ENABLE :: uint8 where "IER_RX_ENABLE \<equiv> 1"
abbreviation (input) IER_TX_ENABLE :: uint8 where "IER_TX_ENABLE \<equiv> 2"
abbreviation (input) FCR :: nat where "FCR \<equiv> 2"
abbreviation (input) FCR_FIFO_ENABLE :: uint8 where "FCR_FIFO_ENABLE \<equiv> 1"
abbreviation (input) FCR_FIFO_CLEAR :: uint8 where "FCR_FIFO_CLEAR \<equiv> 6"
abbreviation (input) LCR :: nat where "LCR \<equiv> 3"
abbreviation (input) LCR_EIGHT_BITS :: uint8 where "LCR_EIGHT_BITS \<equiv> 3"
abbreviation (input) LCR_BAUD_LATCH :: uint8 where "LCR_BAUD_LATCH \<equiv> 128"
abbreviation (input) LSR :: nat where "LSR \<equiv> 5"
abbreviation (input) LSR_TX_IDLE :: uint8 where "LSR_TX_IDLE \<equiv> 32"
abbreviation (input) UART_TX_BUF_SIZE :: uint64 where "UART_TX_BUF_SIZE \<equiv> 32"

definition ReadReg :: "nat \<Rightarrow> ('a uart_scheme, uint8) kmon" where
  "ReadReg r = bind (gets (\<lambda>s. uart_dev s (uart_hist s) r)) (\<lambda>v.
    bind (modify (\<lambda>s. s\<lparr>uart_hist := uart_hist s @ [URead r v]\<rparr>)) (\<lambda>_.
    ret v))"

definition WriteReg :: "nat \<Rightarrow> uint8 \<Rightarrow> ('a uart_scheme, unit) kmon" where
  "WriteReg r v = modify (\<lambda>s. s\<lparr>uart_hist := uart_hist s @ [UWrite r v]\<rparr>)"

section \<open>Operations\<close>

definition uartinit :: "('a uart_scheme, unit) kmon" where
  "uartinit = bind (WriteReg IER 0) (\<lambda>_.
    bind (WriteReg LCR LCR_BAUD_LATCH) (\<lambda>_.
    bind (WriteReg 0 3) (\<lambda>_.
    bind (WriteReg 1 0) (\<lambda>_.
    bind (WriteReg LCR LCR_EIGHT_BITS) (\<lambda>_.
    bind (WriteReg FCR (FCR_FIFO_ENABLE OR FCR_FIFO_CLEAR)) (\<lambda>_.
    bind (WriteReg IER (IER_TX_ENABLE OR IER_RX_ENABLE)) (\<lambda>_.
    initlock LUart ''uart'')))))))"

text \<open>
  The loop of \<open>uartstart\<close> sends at most the characters that are in the buffer, so their number
  bounds its rounds.
\<close>

definition uartstart_round :: "unit \<Rightarrow> ('a uart_scheme, unit + unit) kmon" where
  "uartstart_round = (\<lambda>_. bind (gets (\<lambda>s. uart_tx_w s = uart_tx_r s)) (\<lambda>empty.
    if empty then ret (Inr ()) else
    bind (ReadReg LSR) (\<lambda>lsr.
    if lsr AND LSR_TX_IDLE = 0 then ret (Inr ()) else
    bind (gets (\<lambda>s. uart_tx_buf s ! unat (uart_tx_r s mod UART_TX_BUF_SIZE))) (\<lambda>c.
    bind (modify (\<lambda>s. s\<lparr>uart_tx_r := uart_tx_r s + 1\<rparr>)) (\<lambda>_.
    bind (wakeup ChUart) (\<lambda>_.
    bind (WriteReg THR c) (\<lambda>_.
    ret (Inl ()))))))))"

definition uartstart :: "('a uart_scheme, unit) kmon" where
  "uartstart = bind (gets (\<lambda>s. unat (uart_tx_w s - uart_tx_r s))) (\<lambda>n.
    loop (Suc n) uartstart_round ())"

definition uartputc :: "uint8 \<Rightarrow> ('a uart_scheme, unit) kmon" where
  "uartputc c = bind (acquire LUart) (\<lambda>_.
    bind (gets panicked) (\<lambda>pan.
    if pan then blocked else
    bind (wait_loop 0 (\<lambda>_. bind (gets (\<lambda>s. uart_tx_w s = uart_tx_r s + UART_TX_BUF_SIZE)) (\<lambda>full.
       if full then bind (sleep ChUart LUart) (\<lambda>_.
         ret (Inl ())) else ret (Inr ()))) ()) (\<lambda>_.
    bind (modify (\<lambda>s. s\<lparr>uart_tx_buf := (uart_tx_buf s)[unat (uart_tx_w s mod UART_TX_BUF_SIZE) := c]\<rparr>)) (\<lambda>_.
    bind (modify (\<lambda>s. s\<lparr>uart_tx_w := uart_tx_w s + 1\<rparr>)) (\<lambda>_.
    bind uartstart (\<lambda>_.
    release LUart))))))"

definition uartputc_sync :: "uint8 \<Rightarrow> ('a uart_scheme, unit) kmon" where
  "uartputc_sync c = bind push_off (\<lambda>_.
    bind (gets panicked) (\<lambda>pan.
    if pan then blocked else
    bind (wait_loop 0 (\<lambda>_. bind (ReadReg LSR) (\<lambda>lsr.
       if lsr AND LSR_TX_IDLE = 0 then bind env_step (\<lambda>_.
         ret (Inl ())) else ret (Inr ()))) ()) (\<lambda>_.
    bind (WriteReg THR c) (\<lambda>_.
    pop_off))))"

text \<open>The result is an \<^verbatim>\<open>int\<close>: a character or -1.\<close>

definition uartgetc :: "('a uart_scheme, int) kmon" where
  "uartgetc = bind (ReadReg LSR) (\<lambda>lsr.
    if lsr AND 1 \<noteq> 0 then bind (ReadReg RHR) (\<lambda>v.
       ret (uint v)) else ret (- 1))"

end
