(* ===== verification/Printf.thy ===== *)
theory Printf
  imports Uart
begin

text \<open>
  Formatted kernel output, \<^verbatim>\<open>kernel/printf.c\<close>, with \<open>consputc\<close> of \<^verbatim>\<open>kernel/console.c\<close> and
  \<open>procdump\<close> of \<^verbatim>\<open>kernel/proc.c\<close>. Strings are byte lists without the terminating zero; the
  variable arguments are a list, and reading an argument of the wrong type, undefined in C,
  stops the model with a panic of its own.
\<close>

section \<open>State and operations\<close>

record prstate = uart +
  pr_locking :: bool

datatype parg = AInt int | APtr uint64 | AStr "uint8 list option"

definition bytes_of :: "string \<Rightarrow> uint8 list" where
  "bytes_of s = map of_char s"

definition BACKSPACE :: int where
  "BACKSPACE = 0x100"

definition consputc :: "int \<Rightarrow> ('a uart_scheme, unit) kmon" where
  "consputc c = (if c = BACKSPACE
     then bind (uartputc_sync 8) (\<lambda>_.
       bind (uartputc_sync 32) (\<lambda>_.
       uartputc_sync 8))
     else uartputc_sync (word_of_int c))"

definition digits :: "uint8 list" where
  "digits = bytes_of ''0123456789abcdef''"

text \<open>
  The \<^verbatim>\<open>do .. while\<close> of \<open>printint\<close>: the digits of \<open>x\<close>, the least significant first. The callers
  pass base 10 or 16.
\<close>

function digits_rev :: "nat \<Rightarrow> nat \<Rightarrow> uint8 list" where
  "digits_rev base x = (if base < 2 then [] else
     digits ! (x mod base) # (if x div base = 0 then [] else digits_rev base (x div base)))"
  by pat_completeness auto

termination digits_rev
  by (relation "measure snd") (auto simp: div_greater_zero_iff intro: div_less_dividend)

declare digits_rev.simps [simp del]

definition printint_buf :: "int \<Rightarrow> nat \<Rightarrow> bool \<Rightarrow> uint8 list" where
  "printint_buf xx base sign = (let neg = sign \<and> xx < 0;
       x = (if neg then - word_of_int xx else word_of_int xx) :: uint32;
       buf = digits_rev base (unat x)
     in if neg then buf @ [45] else buf)"

definition printint :: "int \<Rightarrow> nat \<Rightarrow> bool \<Rightarrow> ('a uart_scheme, unit) kmon" where
  "printint xx base sign = for_each (rev (printint_buf xx base sign)) (\<lambda>c. consputc (uint c))"

definition printptr :: "uint64 \<Rightarrow> ('a uart_scheme, unit) kmon" where
  "printptr x = bind (consputc 48) (\<lambda>_.
    bind (consputc 120) (\<lambda>_.
    for_each [0..<16] (\<lambda>i. consputc (uint (digits ! unat (drop_bit 60 (push_bit (4 * i) x)))))))"

definition print_str :: "uint8 list \<Rightarrow> ('a uart_scheme, unit) kmon" where
  "print_str s = for_each s (\<lambda>c. consputc (uint c))"

text \<open>The loop of \<open>printf\<close> over the format; a zero byte or the end of the list ends it.\<close>

fun printf_loop :: "uint8 list \<Rightarrow> parg list \<Rightarrow> ('a uart_scheme, unit) kmon" where
  "printf_loop [] ap = ret ()"
| "printf_loop (c # fmt) ap =
     (if c = 0 then ret ()
      else if c \<noteq> 37 then bind (consputc (uint c)) (\<lambda>_.
        printf_loop fmt ap)
      else case fmt of [] \<Rightarrow> ret () | d # fmt' \<Rightarrow>
        if d = 0 then ret ()
        else if d = 100 then (case ap of AInt i # ap' \<Rightarrow> bind (printint i 10 True) (\<lambda>_.
          printf_loop fmt' ap')
          | _ \<Rightarrow> panic ''va_arg'')
        else if d = 120 then (case ap of AInt i # ap' \<Rightarrow> bind (printint i 16 True) (\<lambda>_.
          printf_loop fmt' ap')
          | _ \<Rightarrow> panic ''va_arg'')
        else if d = 112 then (case ap of APtr x # ap' \<Rightarrow> bind (printptr x) (\<lambda>_.
          printf_loop fmt' ap')
          | _ \<Rightarrow> panic ''va_arg'')
        else if d = 115 then (case ap of AStr (Some s) # ap' \<Rightarrow> bind (print_str s) (\<lambda>_.
          printf_loop fmt' ap')
          | AStr None # ap' \<Rightarrow> bind (print_str (bytes_of ''(null)'')) (\<lambda>_.
            printf_loop fmt' ap')
          | _ \<Rightarrow> panic ''va_arg'')
        else if d = 37 then bind (consputc 37) (\<lambda>_.
          printf_loop fmt' ap)
        else bind (consputc 37) (\<lambda>_.
          bind (consputc (uint d)) (\<lambda>_.
          printf_loop fmt' ap)))"

definition printf :: "string \<Rightarrow> parg list \<Rightarrow> ('a prstate_scheme, unit) kmon" where
  "printf fmt ap = bind (gets pr_locking) (\<lambda>locking.
    bind (whenM locking (acquire LPr)) (\<lambda>_.
    bind (printf_loop (bytes_of fmt) ap) (\<lambda>_.
    whenM locking (release LPr))))"

text \<open>
  What the C function \<^verbatim>\<open>panic\<close> does before it spins for ever. In the functions of this library a
  panic is the result \<open>Panic\<close>, which carries the message.
\<close>

definition panic_print :: "string \<Rightarrow> ('a prstate_scheme, unit) kmon" where
  "panic_print msg = bind (modify (\<lambda>s. s\<lparr>pr_locking := False\<rparr>)) (\<lambda>_.
    bind (printf ''panic: '' []) (\<lambda>_.
    bind (printf msg []) (\<lambda>_.
    bind (printf [CHR 0x0A] []) (\<lambda>_.
    bind (modify (\<lambda>s. s\<lparr>panicked := True\<rparr>)) (\<lambda>_.
    blocked)))))"

definition printfinit :: "('a prstate_scheme, unit) kmon" where
  "printfinit = bind (initlock LPr ''pr'') (\<lambda>_.
    modify (\<lambda>s. s\<lparr>pr_locking := True\<rparr>))"

fun procstate_name :: "procstate \<Rightarrow> string" where
  "procstate_name UNUSED = ''unused''"
| "procstate_name USED = ''used''"
| "procstate_name SLEEPING = ''sleep ''"
| "procstate_name RUNNABLE = ''runble''"
| "procstate_name RUNNING = ''run   ''"
| "procstate_name ZOMBIE = ''zombie''"

definition procdump :: "('a prstate_scheme, unit) kmon" where
  "procdump = bind (printf [CHR 0x0A] []) (\<lambda>_.
    for_each [0..<NPROC] (\<lambda>p.
       bind (gets (\<lambda>s. procs s p)) (\<lambda>r.
         if p_state r = UNUSED then ret () else
         bind (printf ''%d %s %s'' [AInt (p_pid r), AStr (Some (bytes_of (procstate_name (p_state r)))),
           AStr (Some (takeWhile (\<lambda>c. c \<noteq> 0) (p_name r)))]) (\<lambda>_.
         printf [CHR 0x0A] []))))"

end
