(* ===== verification/Console.thy ===== *)
theory Console
  imports Printf
begin

text \<open>
  The console, \<^verbatim>\<open>kernel/console.c\<close>, and \<open>uartintr\<close> of \<^verbatim>\<open>kernel/uart.c\<close>. The input buffer has
  three 32-bit counters that wrap: characters between \<open>r\<close> and \<open>w\<close> are complete lines to read,
  those between \<open>w\<close> and \<open>e\<close> are being edited. The device switch holds a name for each driver's
  read and write functions; the console is the only driver.
\<close>

section \<open>State and operations\<close>

datatype devfn = DevConsole

record console = prstate +
  cons_buf :: "uint8 list"
  cons_r :: uint32
  cons_w :: uint32
  cons_e :: uint32
  devsw :: "nat \<Rightarrow> devfn option"
  dev_fuel :: nat

abbreviation (input) INPUT_BUF_SIZE :: uint32 where "INPUT_BUF_SIZE \<equiv> 128"
abbreviation (input) CONSOLE :: nat where "CONSOLE \<equiv> 1"

definition ctrl :: "char \<Rightarrow> int" where
  "ctrl x = of_char x - 64"

text \<open>The loop stops early when a byte cannot be fetched; \<open>i\<close> bytes have been sent by then.\<close>

definition consolewrite :: "bool \<Rightarrow> uint64 \<Rightarrow> int \<Rightarrow> ('a console_scheme, int) kmon" where
  "consolewrite user_src src n = bind (for_find [0..<nat n] (\<lambda>i.
       bind (either_copyin user_src (src + of_nat i) 1) (\<lambda>x.
         if fst x = - 1 then ret (Some (int i)) else
         bind (uartputc (hd (snd x))) (\<lambda>_.
         ret None)))) (\<lambda>r.
    case r of Some i \<Rightarrow> ret i | None \<Rightarrow> ret (max 0 n))"

text \<open>
  A round of the nested loops of \<open>consoleread\<close>: it leaves with \<open>None\<close> when the reader was killed
  and with the rest of \<open>n\<close> otherwise.
\<close>

definition consoleread_round :: "bool \<Rightarrow> int \<Rightarrow> uint64 \<times> int \<Rightarrow>
    ('a console_scheme, (uint64 \<times> int) + int option) kmon" where
  "consoleread_round user_dst target = (\<lambda>(dst, n).
     if \<not> n > 0 then ret (Inr (Some n)) else
     bind (gets (\<lambda>s. cons_r s = cons_w s)) (\<lambda>empty.
       if empty then bind curproc (\<lambda>p.
         bind (killed p) (\<lambda>k.
         if k \<noteq> 0 then ret (Inr None) else
         bind (sleep ChCons LCons) (\<lambda>_.
         ret (Inl (dst, n))))) else
       bind (gets (\<lambda>s. cons_buf s ! unat (cons_r s mod INPUT_BUF_SIZE))) (\<lambda>c.
       bind (modify (\<lambda>s. s\<lparr>cons_r := cons_r s + 1\<rparr>)) (\<lambda>_.
       if uint c = ctrl (CHR ''D'') then bind (whenM (n < target) (modify (\<lambda>s. s\<lparr>cons_r := cons_r s - 1\<rparr>))) (\<lambda>_.
         ret (Inr (Some n))) else
       bind (either_copyout user_dst dst [c]) (\<lambda>r.
       if r = - 1 then ret (Inr (Some n)) else
       if c = 10 then ret (Inr (Some (n - 1))) else ret (Inl (dst + 1, n - 1)))))))"

definition consoleread :: "bool \<Rightarrow> uint64 \<Rightarrow> int \<Rightarrow> ('a console_scheme, int) kmon" where
  "consoleread user_dst dst n = bind (acquire LCons) (\<lambda>_.
    bind (wait_loop (nat n) (consoleread_round user_dst n) (dst, n)) (\<lambda>r.
    bind (release LCons) (\<lambda>_.
    case r of None \<Rightarrow> ret (- 1) | Some n' \<Rightarrow> ret (n - n'))))"

text \<open>The \<^verbatim>\<open>while\<close> of the line-kill key; at most the characters being edited are erased.\<close>

definition kill_line :: "('a console_scheme, unit) kmon" where
  "kill_line = bind (gets (\<lambda>s. unat (cons_e s - cons_w s))) (\<lambda>n.
    loop (Suc n) (\<lambda>_. bind (gets (\<lambda>s. cons_e s \<noteq> cons_w s \<and>
           cons_buf s ! unat ((cons_e s - 1) mod INPUT_BUF_SIZE) \<noteq> 10)) (\<lambda>b.
       if b then bind (modify (\<lambda>s. s\<lparr>cons_e := cons_e s - 1\<rparr>)) (\<lambda>_.
           bind (consputc BACKSPACE) (\<lambda>_.
           ret (Inl ())))
         else ret (Inr ()))) ())"

definition console_key :: "int \<Rightarrow> ('a console_scheme, unit) kmon" where
  "console_key c = bind (gets (\<lambda>s. c \<noteq> 0 \<and> cons_e s - cons_r s < INPUT_BUF_SIZE)) (\<lambda>room.
    if \<not> room then ret () else
    let c = (if c = 13 then 10 else c) in
    bind (consputc c) (\<lambda>_.
    bind (modify (\<lambda>s. s\<lparr>cons_buf := (cons_buf s)[unat (cons_e s mod INPUT_BUF_SIZE) := word_of_int c]\<rparr>)) (\<lambda>_.
    bind (modify (\<lambda>s. s\<lparr>cons_e := cons_e s + 1\<rparr>)) (\<lambda>_.
    bind (gets (\<lambda>s. c = 10 \<or> c = ctrl (CHR ''D'') \<or> cons_e s - cons_r s = INPUT_BUF_SIZE)) (\<lambda>full.
    whenM full (bind (modify (\<lambda>s. s\<lparr>cons_w := cons_e s\<rparr>)) (\<lambda>_.
       wakeup ChCons)))))))"

definition consoleintr :: "int \<Rightarrow> ('a console_scheme, unit) kmon" where
  "consoleintr c = bind (acquire LCons) (\<lambda>_.
    bind ((if c = ctrl (CHR ''P'') then procdump
      else if c = ctrl (CHR ''U'') then kill_line
      else if c = ctrl (CHR ''H'') \<or> c = 127 then
        bind (gets (\<lambda>s. cons_e s \<noteq> cons_w s)) (\<lambda>b.
          whenM b (bind (modify (\<lambda>s. s\<lparr>cons_e := cons_e s - 1\<rparr>)) (\<lambda>_.
            consputc BACKSPACE)))
      else console_key c)) (\<lambda>_.
    release LCons))"

definition consoleinit :: "('a console_scheme, unit) kmon" where
  "consoleinit = bind (initlock LCons ''cons'') (\<lambda>_.
    bind uartinit (\<lambda>_.
    modify (\<lambda>s. s\<lparr>devsw := (devsw s)(CONSOLE := Some DevConsole)\<rparr>)))"

text \<open>
  \<open>uartintr\<close> reads characters until the device has none left; \<open>dev_fuel\<close> bounds how many.
\<close>

definition uartintr :: "('a console_scheme, unit) kmon" where
  "uartintr = bind (gets dev_fuel) (\<lambda>n.
    bind (loop (Suc n) (\<lambda>_. bind uartgetc (\<lambda>c.
       if c = - 1 then ret (Inr ()) else bind (consoleintr c) (\<lambda>_.
         ret (Inl ())))) ()) (\<lambda>_.
    bind (acquire LUart) (\<lambda>_.
    bind uartstart (\<lambda>_.
    release LUart))))"

end
