(* ===== verification/Sleeplock.thy ===== *)
theory Sleeplock
  imports Console
begin

text \<open>
  Sleep locks, \<^verbatim>\<open>kernel/sleeplock.c\<close> and \<^verbatim>\<open>kernel/sleeplock.h\<close>. A sleep lock is named by the
  \<open>lockid\<close> of the spin lock inside it.
\<close>

section \<open>State and operations\<close>

record sleeplock =
  sl_locked :: uint32
  sl_name :: string
  sl_pid :: int

record slocks = console +
  slock :: "lockid \<Rightarrow> sleeplock"

definition upd_slock :: "lockid \<Rightarrow> (sleeplock \<Rightarrow> sleeplock) \<Rightarrow> 'a slocks_scheme \<Rightarrow> 'a slocks_scheme" where
  "upd_slock lk f s = s\<lparr>slock := (slock s)(lk := f (slock s lk))\<rparr>"

definition initsleeplock :: "lockid \<Rightarrow> string \<Rightarrow> ('a slocks_scheme, unit) kmon" where
  "initsleeplock lk name = bind (initlock lk ''sleep lock'') (\<lambda>_.
    bind (modify (upd_slock lk (\<lambda>l. l\<lparr>sl_name := name\<rparr>))) (\<lambda>_.
    bind (modify (upd_slock lk (\<lambda>l. l\<lparr>sl_locked := 0\<rparr>))) (\<lambda>_.
    modify (upd_slock lk (\<lambda>l. l\<lparr>sl_pid := 0\<rparr>)))))"

definition acquiresleep :: "lockid \<Rightarrow> ('a slocks_scheme, unit) kmon" where
  "acquiresleep lk = bind (acquire lk) (\<lambda>_.
    bind (wait_loop 0 (\<lambda>_. bind (gets (\<lambda>s. sl_locked (slock s lk) \<noteq> 0)) (\<lambda>b.
       if b then bind (sleep (ChSleep lk) lk) (\<lambda>_.
         ret (Inl ())) else ret (Inr ()))) ()) (\<lambda>_.
    bind (modify (upd_slock lk (\<lambda>l. l\<lparr>sl_locked := 1\<rparr>))) (\<lambda>_.
    bind curproc (\<lambda>p.
    bind (getp p p_pid) (\<lambda>pid.
    bind (modify (upd_slock lk (\<lambda>l. l\<lparr>sl_pid := pid\<rparr>))) (\<lambda>_.
    release lk))))))"

definition releasesleep :: "lockid \<Rightarrow> ('a slocks_scheme, unit) kmon" where
  "releasesleep lk = bind (acquire lk) (\<lambda>_.
    bind (modify (upd_slock lk (\<lambda>l. l\<lparr>sl_locked := 0\<rparr>))) (\<lambda>_.
    bind (modify (upd_slock lk (\<lambda>l. l\<lparr>sl_pid := 0\<rparr>))) (\<lambda>_.
    bind (wakeup (ChSleep lk)) (\<lambda>_.
    release lk))))"

definition holdingsleep :: "lockid \<Rightarrow> ('a slocks_scheme, bool) kmon" where
  "holdingsleep lk = bind (acquire lk) (\<lambda>_.
    bind (gets (\<lambda>s. sl_locked (slock s lk) \<noteq> 0)) (\<lambda>b.
    bind ((if b then bind curproc (\<lambda>p.
       getp p (\<lambda>r. p_pid r)) else ret 0)) (\<lambda>r.
    bind (gets (\<lambda>s. sl_pid (slock s lk))) (\<lambda>q.
    bind (release lk) (\<lambda>_.
    ret (b \<and> q = r))))))"

end
