(* ===== verification/Virtio.thy ===== *)
theory Virtio
  imports Sleeplock
begin

text \<open>
  Disk buffers (\<^verbatim>\<open>kernel/buf.h\<close>) and the virtio disk driver, \<^verbatim>\<open>kernel/virtio_disk.c\<close> with
  \<^verbatim>\<open>kernel/virtio.h\<close>. A descriptor's address field names the object whose address the code
  stores. The registers of the device answer as a function of the accesses made so far
  (\<open>vio_dev\<close>); the contents of the disk are \<open>vdisk\<close>, which only the device changes.
\<close>

section \<open>State\<close>

datatype bref = BHead | B nat

record buf =
  b_valid :: bool
  b_disk :: bool
  b_dev :: uint32
  b_blockno :: uint32
  b_refcnt :: uint32
  b_prev :: bref
  b_next :: bref
  b_data :: "uint8 list"

abbreviation (input) BSIZE :: nat where "BSIZE \<equiv> 1024"
abbreviation (input) NUM :: nat where "NUM \<equiv> 8"
abbreviation (input) VRING_DESC_F_NEXT :: uint16 where "VRING_DESC_F_NEXT \<equiv> 1"
abbreviation (input) VRING_DESC_F_WRITE :: uint16 where "VRING_DESC_F_WRITE \<equiv> 2"
abbreviation (input) VIRTIO_BLK_T_IN :: uint32 where "VIRTIO_BLK_T_IN \<equiv> 0"
abbreviation (input) VIRTIO_BLK_T_OUT :: uint32 where "VIRTIO_BLK_T_OUT \<equiv> 1"
abbreviation (input) VIRTIO_MMIO_MAGIC_VALUE :: nat where "VIRTIO_MMIO_MAGIC_VALUE \<equiv> 0x000"
abbreviation (input) VIRTIO_MMIO_VERSION :: nat where "VIRTIO_MMIO_VERSION \<equiv> 0x004"
abbreviation (input) VIRTIO_MMIO_DEVICE_ID :: nat where "VIRTIO_MMIO_DEVICE_ID \<equiv> 0x008"
abbreviation (input) VIRTIO_MMIO_VENDOR_ID :: nat where "VIRTIO_MMIO_VENDOR_ID \<equiv> 0x00c"
abbreviation (input) VIRTIO_MMIO_DEVICE_FEATURES :: nat where "VIRTIO_MMIO_DEVICE_FEATURES \<equiv> 0x010"
abbreviation (input) VIRTIO_MMIO_DRIVER_FEATURES :: nat where "VIRTIO_MMIO_DRIVER_FEATURES \<equiv> 0x020"
abbreviation (input) VIRTIO_MMIO_QUEUE_SEL :: nat where "VIRTIO_MMIO_QUEUE_SEL \<equiv> 0x030"
abbreviation (input) VIRTIO_MMIO_QUEUE_NUM_MAX :: nat where "VIRTIO_MMIO_QUEUE_NUM_MAX \<equiv> 0x034"
abbreviation (input) VIRTIO_MMIO_QUEUE_NUM :: nat where "VIRTIO_MMIO_QUEUE_NUM \<equiv> 0x038"
abbreviation (input) VIRTIO_MMIO_QUEUE_READY :: nat where "VIRTIO_MMIO_QUEUE_READY \<equiv> 0x044"
abbreviation (input) VIRTIO_MMIO_QUEUE_NOTIFY :: nat where "VIRTIO_MMIO_QUEUE_NOTIFY \<equiv> 0x050"
abbreviation (input) VIRTIO_MMIO_INTERRUPT_STATUS :: nat where "VIRTIO_MMIO_INTERRUPT_STATUS \<equiv> 0x060"
abbreviation (input) VIRTIO_MMIO_INTERRUPT_ACK :: nat where "VIRTIO_MMIO_INTERRUPT_ACK \<equiv> 0x064"
abbreviation (input) VIRTIO_MMIO_STATUS :: nat where "VIRTIO_MMIO_STATUS \<equiv> 0x070"
abbreviation (input) VIRTIO_MMIO_QUEUE_DESC_LOW :: nat where "VIRTIO_MMIO_QUEUE_DESC_LOW \<equiv> 0x080"
abbreviation (input) VIRTIO_MMIO_QUEUE_DESC_HIGH :: nat where "VIRTIO_MMIO_QUEUE_DESC_HIGH \<equiv> 0x084"
abbreviation (input) VIRTIO_MMIO_DRIVER_DESC_LOW :: nat where "VIRTIO_MMIO_DRIVER_DESC_LOW \<equiv> 0x090"
abbreviation (input) VIRTIO_MMIO_DRIVER_DESC_HIGH :: nat where "VIRTIO_MMIO_DRIVER_DESC_HIGH \<equiv> 0x094"
abbreviation (input) VIRTIO_MMIO_DEVICE_DESC_LOW :: nat where "VIRTIO_MMIO_DEVICE_DESC_LOW \<equiv> 0x0a0"
abbreviation (input) VIRTIO_MMIO_DEVICE_DESC_HIGH :: nat where "VIRTIO_MMIO_DEVICE_DESC_HIGH \<equiv> 0x0a4"
abbreviation (input) VIRTIO_CONFIG_S_ACKNOWLEDGE :: uint32 where "VIRTIO_CONFIG_S_ACKNOWLEDGE \<equiv> 1"
abbreviation (input) VIRTIO_CONFIG_S_DRIVER :: uint32 where "VIRTIO_CONFIG_S_DRIVER \<equiv> 2"
abbreviation (input) VIRTIO_CONFIG_S_DRIVER_OK :: uint32 where "VIRTIO_CONFIG_S_DRIVER_OK \<equiv> 4"
abbreviation (input) VIRTIO_CONFIG_S_FEATURES_OK :: uint32 where "VIRTIO_CONFIG_S_FEATURES_OK \<equiv> 8"
abbreviation (input) VIRTIO_BLK_F_RO :: nat where "VIRTIO_BLK_F_RO \<equiv> 5"
abbreviation (input) VIRTIO_BLK_F_SCSI :: nat where "VIRTIO_BLK_F_SCSI \<equiv> 7"
abbreviation (input) VIRTIO_BLK_F_CONFIG_WCE :: nat where "VIRTIO_BLK_F_CONFIG_WCE \<equiv> 11"
abbreviation (input) VIRTIO_BLK_F_MQ :: nat where "VIRTIO_BLK_F_MQ \<equiv> 12"
abbreviation (input) VIRTIO_F_ANY_LAYOUT :: nat where "VIRTIO_F_ANY_LAYOUT \<equiv> 27"
abbreviation (input) VIRTIO_RING_F_INDIRECT_DESC :: nat where "VIRTIO_RING_F_INDIRECT_DESC \<equiv> 28"
abbreviation (input) VIRTIO_RING_F_EVENT_IDX :: nat where "VIRTIO_RING_F_EVENT_IDX \<equiv> 29"

datatype daddr = DNull | DOps nat | DData nat | DStatus nat

record virtq_desc =
  vd_addr :: daddr
  vd_len :: uint32
  vd_flags :: uint16
  vd_next :: uint16

record virtio_blk_req =
  req_type :: uint32
  req_reserved :: uint32
  req_sector :: uint64

record disk =
  d_desc_pa :: uint64
  d_avail_pa :: uint64
  d_used_pa :: uint64
  d_desc :: "nat \<Rightarrow> virtq_desc"
  d_avail_idx :: uint16
  d_avail_ring :: "nat \<Rightarrow> uint16"
  d_used_idx_dev :: uint16
  d_used_ring :: "nat \<Rightarrow> uint32"
  d_free :: "nat \<Rightarrow> bool"
  d_used_idx :: uint16
  d_info_b :: "nat \<Rightarrow> nat option"
  d_info_status :: "nat \<Rightarrow> uint8"
  d_ops :: "nat \<Rightarrow> virtio_blk_req"

datatype vacc = VRead nat uint32 | VWrite nat uint32

record diskst = slocks +
  bufs :: "nat \<Rightarrow> buf"
  bhead_prev :: bref
  bhead_next :: bref
  disk :: disk
  vio_dev :: "vacc list \<Rightarrow> nat \<Rightarrow> uint32"
  vio_hist :: "vacc list"
  vdisk :: "nat \<Rightarrow> uint8 list"

definition upd_disk :: "(disk \<Rightarrow> disk) \<Rightarrow> ('a diskst_scheme, unit) kmon" where
  "upd_disk f = modify (\<lambda>s. s\<lparr>disk := f (disk s)\<rparr>)"

definition getd :: "(disk \<Rightarrow> 'b) \<Rightarrow> ('a diskst_scheme, 'b) kmon" where
  "getd f = gets (\<lambda>s. f (disk s))"

definition upd_buf :: "nat \<Rightarrow> (buf \<Rightarrow> buf) \<Rightarrow> ('a diskst_scheme, unit) kmon" where
  "upd_buf b f = modify (\<lambda>s. s\<lparr>bufs := (bufs s)(b := f (bufs s b))\<rparr>)"

definition getbuf :: "nat \<Rightarrow> (buf \<Rightarrow> 'b) \<Rightarrow> ('a diskst_scheme, 'b) kmon" where
  "getbuf b f = gets (\<lambda>s. f (bufs s b))"

definition rd_vio :: "nat \<Rightarrow> ('a diskst_scheme, uint32) kmon" where
  "rd_vio r = bind (gets (\<lambda>s. vio_dev s (vio_hist s) r)) (\<lambda>v.
    bind (modify (\<lambda>s. s\<lparr>vio_hist := vio_hist s @ [VRead r v]\<rparr>)) (\<lambda>_.
    ret v))"

definition wr_vio :: "nat \<Rightarrow> uint32 \<Rightarrow> ('a diskst_scheme, unit) kmon" where
  "wr_vio r v = modify (\<lambda>s. s\<lparr>vio_hist := vio_hist s @ [VWrite r v]\<rparr>)"

section \<open>Start-up\<close>

definition virtq_desc0 :: virtq_desc where
  "virtq_desc0 = \<lparr>vd_addr = DNull, vd_len = 0, vd_flags = 0, vd_next = 0\<rparr>"

definition virtio_disk_init :: "('a diskst_scheme, unit) kmon" where
  "virtio_disk_init = bind (initlock LDisk ''virtio_disk'') (\<lambda>_.
    bind (rd_vio VIRTIO_MMIO_MAGIC_VALUE) (\<lambda>m1.
    if m1 \<noteq> 0x74726976 then panic ''could not find virtio disk'' else
    bind (rd_vio VIRTIO_MMIO_VERSION) (\<lambda>m2.
    if m2 \<noteq> 2 then panic ''could not find virtio disk'' else
    bind (rd_vio VIRTIO_MMIO_DEVICE_ID) (\<lambda>m3.
    if m3 \<noteq> 2 then panic ''could not find virtio disk'' else
    bind (rd_vio VIRTIO_MMIO_VENDOR_ID) (\<lambda>m4.
    if m4 \<noteq> 0x554d4551 then panic ''could not find virtio disk'' else
    bind (wr_vio VIRTIO_MMIO_STATUS 0) (\<lambda>_.
    bind (wr_vio VIRTIO_MMIO_STATUS VIRTIO_CONFIG_S_ACKNOWLEDGE) (\<lambda>_.
    bind (wr_vio VIRTIO_MMIO_STATUS (VIRTIO_CONFIG_S_ACKNOWLEDGE OR VIRTIO_CONFIG_S_DRIVER)) (\<lambda>_.
    bind (rd_vio VIRTIO_MMIO_DEVICE_FEATURES) (\<lambda>f.
    bind (wr_vio VIRTIO_MMIO_DRIVER_FEATURES (fold (\<lambda>i f. f AND NOT (push_bit i 1))
       [VIRTIO_BLK_F_RO, VIRTIO_BLK_F_SCSI, VIRTIO_BLK_F_CONFIG_WCE, VIRTIO_BLK_F_MQ, VIRTIO_F_ANY_LAYOUT,
        VIRTIO_RING_F_EVENT_IDX, VIRTIO_RING_F_INDIRECT_DESC] f)) (\<lambda>_.
    bind (wr_vio VIRTIO_MMIO_STATUS (VIRTIO_CONFIG_S_ACKNOWLEDGE OR VIRTIO_CONFIG_S_DRIVER OR VIRTIO_CONFIG_S_FEATURES_OK)) (\<lambda>_.
    bind (rd_vio VIRTIO_MMIO_STATUS) (\<lambda>status.
    if status AND VIRTIO_CONFIG_S_FEATURES_OK = 0 then panic ''virtio disk FEATURES_OK unset'' else
    bind (wr_vio VIRTIO_MMIO_QUEUE_SEL 0) (\<lambda>_.
    bind (rd_vio VIRTIO_MMIO_QUEUE_READY) (\<lambda>ready.
    if ready \<noteq> 0 then panic ''virtio disk should not be ready'' else
    bind (rd_vio VIRTIO_MMIO_QUEUE_NUM_MAX) (\<lambda>mx.
    if mx = 0 then panic ''virtio disk has no queue 0'' else
    if mx < of_nat NUM then panic ''virtio disk max queue too short'' else
    bind kalloc (\<lambda>a.
    bind (upd_disk (\<lambda>d. d\<lparr>d_desc_pa := a\<rparr>)) (\<lambda>_.
    bind kalloc (\<lambda>b.
    bind (upd_disk (\<lambda>d. d\<lparr>d_avail_pa := b\<rparr>)) (\<lambda>_.
    bind kalloc (\<lambda>c.
    bind (upd_disk (\<lambda>d. d\<lparr>d_used_pa := c\<rparr>)) (\<lambda>_.
    if a = 0 \<or> b = 0 \<or> c = 0 then panic ''virtio disk kalloc'' else
    bind (upd_disk (\<lambda>d. d\<lparr>d_desc := (\<lambda>_. virtq_desc0)\<rparr>)) (\<lambda>_.
    bind (upd_disk (\<lambda>d. d\<lparr>d_avail_idx := 0, d_avail_ring := (\<lambda>_. 0)\<rparr>)) (\<lambda>_.
    bind (upd_disk (\<lambda>d. d\<lparr>d_used_idx_dev := 0, d_used_ring := (\<lambda>_. 0)\<rparr>)) (\<lambda>_.
    bind (wr_vio VIRTIO_MMIO_QUEUE_NUM (of_nat NUM)) (\<lambda>_.
    bind (wr_vio VIRTIO_MMIO_QUEUE_DESC_LOW (ucast a)) (\<lambda>_.
    bind (wr_vio VIRTIO_MMIO_QUEUE_DESC_HIGH (ucast (drop_bit 32 a))) (\<lambda>_.
    bind (wr_vio VIRTIO_MMIO_DRIVER_DESC_LOW (ucast b)) (\<lambda>_.
    bind (wr_vio VIRTIO_MMIO_DRIVER_DESC_HIGH (ucast (drop_bit 32 b))) (\<lambda>_.
    bind (wr_vio VIRTIO_MMIO_DEVICE_DESC_LOW (ucast c)) (\<lambda>_.
    bind (wr_vio VIRTIO_MMIO_DEVICE_DESC_HIGH (ucast (drop_bit 32 c))) (\<lambda>_.
    bind (wr_vio VIRTIO_MMIO_QUEUE_READY 1) (\<lambda>_.
    bind (for_each [0..<NUM] (\<lambda>i. upd_disk (\<lambda>d. d\<lparr>d_free := (d_free d)(i := True)\<rparr>))) (\<lambda>_.
    wr_vio VIRTIO_MMIO_STATUS (status OR VIRTIO_CONFIG_S_DRIVER_OK))))))))))))))))))))))))))))))))))"

section \<open>Descriptors\<close>

definition alloc_desc :: "('a diskst_scheme, int) kmon" where
  "alloc_desc = bind (for_find [0..<NUM] (\<lambda>i.
       bind (getd (\<lambda>d. d_free d i)) (\<lambda>f.
         if f then bind (upd_disk (\<lambda>d. d\<lparr>d_free := (d_free d)(i := False)\<rparr>)) (\<lambda>_.
           ret (Some (int i)))
         else ret None))) (\<lambda>r.
    case r of Some i \<Rightarrow> ret i | None \<Rightarrow> ret (- 1))"

definition free_desc :: "int \<Rightarrow> ('a diskst_scheme, unit) kmon" where
  "free_desc i = (if i \<ge> int NUM then panic ''free_desc 1'' else
     bind (getd (\<lambda>d. d_free d (nat i))) (\<lambda>f.
       if f then panic ''free_desc 2'' else
       bind (upd_disk (\<lambda>d. d\<lparr>d_desc := (d_desc d)(nat i := virtq_desc0)\<rparr>)) (\<lambda>_.
       bind (upd_disk (\<lambda>d. d\<lparr>d_free := (d_free d)(nat i := True)\<rparr>)) (\<lambda>_.
       wakeup ChDescs))))"

text \<open>A chain never has more than \<open>NUM\<close> descriptors: freeing one twice panics.\<close>

definition free_chain :: "int \<Rightarrow> ('a diskst_scheme, unit) kmon" where
  "free_chain i = loop (Suc NUM) (\<lambda>i.
     bind (getd (\<lambda>d. vd_flags (d_desc d (nat i)))) (\<lambda>flag.
       bind (getd (\<lambda>d. vd_next (d_desc d (nat i)))) (\<lambda>nxt.
       bind (free_desc i) (\<lambda>_.
       ret (if flag AND VRING_DESC_F_NEXT \<noteq> 0 then Inl (uint nxt) else Inr ()))))) i"

text \<open>The three indices, or \<open>None\<close> for the return value -1.\<close>

definition alloc3_desc :: "('a diskst_scheme, (int \<times> int \<times> int) option) kmon" where
  "alloc3_desc = bind alloc_desc (\<lambda>i0.
    if i0 < 0 then ret None else
    bind alloc_desc (\<lambda>i1.
    if i1 < 0 then bind (free_desc i0) (\<lambda>_.
       ret None) else
    bind alloc_desc (\<lambda>i2.
    if i2 < 0 then bind (free_desc i0) (\<lambda>_.
       bind (free_desc i1) (\<lambda>_.
       ret None)) else
    ret (Some (i0, i1, i2)))))"

section \<open>Requests\<close>

definition virtio_submit :: "nat \<Rightarrow> bool \<Rightarrow> uint64 \<Rightarrow> nat \<times> nat \<times> nat \<Rightarrow> ('a diskst_scheme, unit) kmon" where
  "virtio_submit b write sector = (\<lambda>(i0, i1, i2).
     bind (upd_disk (\<lambda>d. d\<lparr>d_ops := (d_ops d)(i0 := \<lparr>req_type = (if write then VIRTIO_BLK_T_OUT else VIRTIO_BLK_T_IN),
           req_reserved = 0, req_sector = sector\<rparr>)\<rparr>)) (\<lambda>_.
       bind (upd_disk (\<lambda>d. d\<lparr>d_desc := (d_desc d)(i0 := \<lparr>vd_addr = DOps i0, vd_len = 16,
           vd_flags = VRING_DESC_F_NEXT, vd_next = of_nat i1\<rparr>)\<rparr>)) (\<lambda>_.
       bind (upd_disk (\<lambda>d. d\<lparr>d_desc := (d_desc d)(i1 := \<lparr>vd_addr = DData b, vd_len = of_nat BSIZE,
           vd_flags = (if write then 0 else VRING_DESC_F_WRITE) OR VRING_DESC_F_NEXT, vd_next = of_nat i2\<rparr>)\<rparr>)) (\<lambda>_.
       bind (upd_disk (\<lambda>d. d\<lparr>d_info_status := (d_info_status d)(i0 := 0xff)\<rparr>)) (\<lambda>_.
       bind (upd_disk (\<lambda>d. d\<lparr>d_desc := (d_desc d)(i2 := \<lparr>vd_addr = DStatus i0, vd_len = 1,
           vd_flags = VRING_DESC_F_WRITE, vd_next = 0\<rparr>)\<rparr>)) (\<lambda>_.
       bind (upd_buf b (\<lambda>r. r\<lparr>b_disk := True\<rparr>)) (\<lambda>_.
       bind (upd_disk (\<lambda>d. d\<lparr>d_info_b := (d_info_b d)(i0 := Some b)\<rparr>)) (\<lambda>_.
       bind (upd_disk (\<lambda>d. d\<lparr>d_avail_ring := (d_avail_ring d)(unat (d_avail_idx d mod of_nat NUM) := of_nat i0)\<rparr>)) (\<lambda>_.
       bind (upd_disk (\<lambda>d. d\<lparr>d_avail_idx := d_avail_idx d + 1\<rparr>)) (\<lambda>_.
       wr_vio VIRTIO_MMIO_QUEUE_NOTIFY 0))))))))))"

definition virtio_disk_rw :: "nat \<Rightarrow> bool \<Rightarrow> ('a diskst_scheme, unit) kmon" where
  "virtio_disk_rw b write = bind (getbuf b b_blockno) (\<lambda>bno.
    let sector = ucast (bno * of_nat (BSIZE div 512)) in
    bind (acquire LDisk) (\<lambda>_.
    bind (wait_loop 0 (\<lambda>_. bind alloc3_desc (\<lambda>r.
       case r of Some x \<Rightarrow> ret (Inr x) | None \<Rightarrow> bind (sleep ChDescs LDisk) (\<lambda>_.
         ret (Inl ())))) ()) (\<lambda>idx.
    let ix = (nat (fst idx), nat (fst (snd idx)), nat (snd (snd idx))) in
    bind (virtio_submit b write sector ix) (\<lambda>_.
    bind (wait_loop 0 (\<lambda>_. bind (getbuf b b_disk) (\<lambda>w.
       if w then bind (sleep (ChDisk b) LDisk) (\<lambda>_.
         ret (Inl ())) else ret (Inr ()))) ()) (\<lambda>_.
    bind (upd_disk (\<lambda>d. d\<lparr>d_info_b := (d_info_b d)(fst ix := None)\<rparr>)) (\<lambda>_.
    bind (free_chain (fst idx)) (\<lambda>_.
    release LDisk)))))))"

text \<open>
  The interrupt handler looks at the entries of the used ring from \<open>used_idx\<close> up to the device's
  index; both are 16 bits wide, which bounds the rounds.
\<close>

definition virtio_intr_round :: "unit \<Rightarrow> ('a diskst_scheme, unit + unit) kmon" where
  "virtio_intr_round = (\<lambda>_. bind (getd (\<lambda>d. d_used_idx d \<noteq> d_used_idx_dev d)) (\<lambda>more.
    if \<not> more then ret (Inr ()) else
    bind (getd (\<lambda>d. unat (d_used_ring d (unat (d_used_idx d mod of_nat NUM))))) (\<lambda>i.
    bind (getd (\<lambda>d. d_info_status d i)) (\<lambda>st.
    if st \<noteq> 0 then panic ''virtio_disk_intr status'' else
    bind (getd (\<lambda>d. d_info_b d i)) (\<lambda>bo.
    bind (deref bo) (\<lambda>b.
    bind (upd_buf b (\<lambda>r. r\<lparr>b_disk := False\<rparr>)) (\<lambda>_.
    bind (wakeup (ChDisk b)) (\<lambda>_.
    bind (upd_disk (\<lambda>d. d\<lparr>d_used_idx := d_used_idx d + 1\<rparr>)) (\<lambda>_.
    ret (Inl ()))))))))))"

definition virtio_disk_intr :: "('a diskst_scheme, unit) kmon" where
  "virtio_disk_intr = bind (acquire LDisk) (\<lambda>_.
    bind (rd_vio VIRTIO_MMIO_INTERRUPT_STATUS) (\<lambda>st.
    bind (wr_vio VIRTIO_MMIO_INTERRUPT_ACK (st AND 3)) (\<lambda>_.
    bind (getd (\<lambda>d. unat (d_used_idx_dev d - d_used_idx d))) (\<lambda>n.
    bind (loop (Suc n) virtio_intr_round ()) (\<lambda>_.
    release LDisk)))))"

end
