(* ===== verification/Kstate.thy ===== *)
theory Kstate
  imports Virtio
begin

text \<open>
  The structures of the upper half of the kernel and the state that holds them: the on-disk
  format of \<^verbatim>\<open>kernel/fs.h\<close>, the log of \<^verbatim>\<open>kernel/log.c\<close>, the inode and file tables of
  \<^verbatim>\<open>kernel/file.h\<close>, \<^verbatim>\<open>struct pipe\<close>, \<^verbatim>\<open>struct stat\<close>, and the globals of \<^verbatim>\<open>kernel/trap.c\<close>,
  \<^verbatim>\<open>kernel/start.c\<close> and \<^verbatim>\<open>kernel/main.c\<close>. A 16-bit \<^verbatim>\<open>short\<close> is a \<open>uint16\<close> that is read with
  \<open>sint\<close> where its sign matters. Pointers to inodes and files are indices of their tables; a
  pipe is named by the address of its page. Structures in a disk block are read and written at
  their byte offsets.
\<close>

section \<open>On-disk structures\<close>

abbreviation (input) ROOTINO :: uint32 where "ROOTINO \<equiv> 1"
abbreviation (input) FSMAGIC :: uint32 where "FSMAGIC \<equiv> 0x10203040"
abbreviation (input) NDIRECT :: nat where "NDIRECT \<equiv> 12"
abbreviation (input) NINDIRECT :: nat where "NINDIRECT \<equiv> 256"
abbreviation (input) MAXFILE :: nat where "MAXFILE \<equiv> 268"
abbreviation (input) IPB :: nat where "IPB \<equiv> 16"
abbreviation (input) BPB :: nat where "BPB \<equiv> 8192"
abbreviation (input) DIRSIZ :: nat where "DIRSIZ \<equiv> 14"
abbreviation (input) T_DIR :: uint16 where "T_DIR \<equiv> 1"
abbreviation (input) T_FILE :: uint16 where "T_FILE \<equiv> 2"
abbreviation (input) T_DEVICE :: uint16 where "T_DEVICE \<equiv> 3"

record superblock =
  sb_magic :: uint32
  sb_size :: uint32
  sb_nblocks :: uint32
  sb_ninodes :: uint32
  sb_nlog :: uint32
  sb_logstart :: uint32
  sb_inodestart :: uint32
  sb_bmapstart :: uint32

record dinode =
  di_type :: uint16
  di_major :: uint16
  di_minor :: uint16
  di_nlink :: uint16
  di_size :: uint32
  di_addrs :: "uint32 list"

record dirent =
  de_inum :: uint16
  de_name :: "uint8 list"

definition IBLOCK :: "uint32 \<Rightarrow> superblock \<Rightarrow> uint32" where
  "IBLOCK i sb = i div of_nat IPB + sb_inodestart sb"

definition BBLOCK :: "uint32 \<Rightarrow> superblock \<Rightarrow> uint32" where
  "BBLOCK b sb = b div of_nat BPB + sb_bmapstart sb"

definition get16 :: "uint8 list \<Rightarrow> nat \<Rightarrow> uint16" where
  "get16 d off = of_le (getb d off 2)"

definition get32 :: "uint8 list \<Rightarrow> nat \<Rightarrow> uint32" where
  "get32 d off = of_le (getb d off 4)"

definition put32 :: "uint8 list \<Rightarrow> nat \<Rightarrow> uint32 \<Rightarrow> uint8 list" where
  "put32 d off v = putb d off (le_bytes 4 v)"

definition words_at :: "uint8 list \<Rightarrow> nat \<Rightarrow> nat \<Rightarrow> uint32 list" where
  "words_at d off n = map (\<lambda>i. get32 d (off + 4 * i)) [0..<n]"

definition words_bytes :: "uint32 list \<Rightarrow> uint8 list" where
  "words_bytes ws = concat (map (le_bytes 4) ws)"

definition superblock_of :: "uint8 list \<Rightarrow> superblock" where
  "superblock_of d = \<lparr>sb_magic = get32 d 0, sb_size = get32 d 4, sb_nblocks = get32 d 8,
     sb_ninodes = get32 d 12, sb_nlog = get32 d 16, sb_logstart = get32 d 20,
     sb_inodestart = get32 d 24, sb_bmapstart = get32 d 28\<rparr>"

definition superblock_bytes :: "superblock \<Rightarrow> uint8 list" where
  "superblock_bytes s = words_bytes [sb_magic s, sb_size s, sb_nblocks s, sb_ninodes s, sb_nlog s,
     sb_logstart s, sb_inodestart s, sb_bmapstart s]"

definition dinode_of :: "uint8 list \<Rightarrow> dinode" where
  "dinode_of d = \<lparr>di_type = get16 d 0, di_major = get16 d 2, di_minor = get16 d 4, di_nlink = get16 d 6,
     di_size = get32 d 8, di_addrs = words_at d 12 (NDIRECT + 1)\<rparr>"

definition dinode_bytes :: "dinode \<Rightarrow> uint8 list" where
  "dinode_bytes i = le_bytes 2 (di_type i) @ le_bytes 2 (di_major i) @ le_bytes 2 (di_minor i) @
     le_bytes 2 (di_nlink i) @ le_bytes 4 (di_size i) @ words_bytes (di_addrs i)"

text \<open>\<^verbatim>\<open>(struct dinode*)bp->data + k\<close>, read and written.\<close>

definition dinode_at :: "uint8 list \<Rightarrow> nat \<Rightarrow> dinode" where
  "dinode_at d k = dinode_of (getb d (64 * k) 64)"

definition put_dinode :: "uint8 list \<Rightarrow> nat \<Rightarrow> dinode \<Rightarrow> uint8 list" where
  "put_dinode d k i = putb d (64 * k) (dinode_bytes i)"

definition dirent_of :: "uint8 list \<Rightarrow> dirent" where
  "dirent_of d = \<lparr>de_inum = get16 d 0, de_name = getb d 2 DIRSIZ\<rparr>"

definition dirent_bytes :: "dirent \<Rightarrow> uint8 list" where
  "dirent_bytes e = le_bytes 2 (de_inum e) @ de_name e"

section \<open>Kernel structures\<close>

text \<open>
  A log header holds \<open>lh_n\<close> block numbers. The code's array has \<open>LOGSIZE\<close> entries and nothing
  stops a larger count read from a damaged disk; the block numbers are a function of the index.
\<close>

record logheader =
  lh_n :: int
  lh_block :: "nat \<Rightarrow> uint32"

record log =
  l_start :: uint32
  l_size :: int
  l_outstanding :: int
  l_committing :: bool
  l_dev :: uint32
  l_lh :: logheader

record inode =
  i_dev :: uint32
  i_inum :: uint32
  i_ref :: int
  i_valid :: bool
  i_type :: uint16
  i_major :: uint16
  i_minor :: uint16
  i_nlink :: uint16
  i_size :: uint32
  i_addrs :: "uint32 list"

datatype ftype = FD_NONE | FD_PIPE | FD_INODE | FD_DEVICE

record kfile =
  f_type :: ftype
  f_ref :: int
  f_readable :: bool
  f_writable :: bool
  f_pipe :: uint64
  f_ip :: "nat option"
  f_off :: uint32
  f_major :: uint16

record pipe =
  pi_data :: "uint8 list"
  pi_nread :: uint32
  pi_nwrite :: uint32
  pi_readopen :: bool
  pi_writeopen :: bool

abbreviation (input) PIPESIZE :: uint32 where "PIPESIZE \<equiv> 512"

record stat =
  st_dev :: uint32
  st_ino :: uint32
  st_type :: uint16
  st_nlink :: uint16
  st_size :: uint64

text \<open>
  Addresses the linker gives to code and data, and the accesses to the interrupt controller and
  the timer, whose registers answer as a function of what was accessed before.
\<close>

datatype ksym = SymUservec | SymUserret | SymKernelvec | SymTimervec | SymUsertrap | SymForkret
  | SymMain | SymTimerScratch nat

datatype macc = MRead uint64 uint64 | MWrite uint64 uint64

record kern = diskst +
  klog :: log
  sb :: superblock
  itable :: "nat \<Rightarrow> inode"
  ftable :: "nat \<Rightarrow> kfile"
  pipes :: "uint64 \<Rightarrow> pipe"
  ticks :: uint32
  first :: bool
  started :: bool
  timer_scratch :: "nat \<Rightarrow> nat \<Rightarrow> uint64"
  ksyms :: "ksym \<Rightarrow> uint64"
  mmio_dev :: "macc list \<Rightarrow> uint64 \<Rightarrow> uint64"
  mmio_hist :: "macc list"
  stack_pad :: uint32

definition upd_log :: "(log \<Rightarrow> log) \<Rightarrow> ('a kern_scheme, unit) kmon" where
  "upd_log f = modify (\<lambda>s. s\<lparr>klog := f (klog s)\<rparr>)"

definition getl :: "(log \<Rightarrow> 'b) \<Rightarrow> ('a kern_scheme, 'b) kmon" where
  "getl f = gets (\<lambda>s. f (klog s))"

definition upd_inode :: "nat \<Rightarrow> (inode \<Rightarrow> inode) \<Rightarrow> ('a kern_scheme, unit) kmon" where
  "upd_inode ip f = modify (\<lambda>s. s\<lparr>itable := (itable s)(ip := f (itable s ip))\<rparr>)"

definition geti :: "nat \<Rightarrow> (inode \<Rightarrow> 'b) \<Rightarrow> ('a kern_scheme, 'b) kmon" where
  "geti ip f = gets (\<lambda>s. f (itable s ip))"

definition upd_file :: "nat \<Rightarrow> (kfile \<Rightarrow> kfile) \<Rightarrow> ('a kern_scheme, unit) kmon" where
  "upd_file p f = modify (\<lambda>s. s\<lparr>ftable := (ftable s)(p := f (ftable s p))\<rparr>)"

definition getf :: "nat \<Rightarrow> (kfile \<Rightarrow> 'b) \<Rightarrow> ('a kern_scheme, 'b) kmon" where
  "getf p f = gets (\<lambda>s. f (ftable s p))"

definition upd_pipe :: "uint64 \<Rightarrow> (pipe \<Rightarrow> pipe) \<Rightarrow> ('a kern_scheme, unit) kmon" where
  "upd_pipe p f = modify (\<lambda>s. s\<lparr>pipes := (pipes s)(p := f (pipes s p))\<rparr>)"

definition getpi :: "uint64 \<Rightarrow> (pipe \<Rightarrow> 'b) \<Rightarrow> ('a kern_scheme, 'b) kmon" where
  "getpi p f = gets (\<lambda>s. f (pipes s p))"

end
