(* ===== verification/Bio.thy ===== *)
theory Bio
  imports Kstate
begin

text \<open>
  The buffer cache, \<^verbatim>\<open>kernel/bio.c\<close>. The buffers form a circular doubly linked list through
  \<open>bhead_next\<close>/\<open>bhead_prev\<close> and the buffers' own links. The scans of \<open>bget\<close> follow the links;
  a list of all \<open>NBUF\<close> buffers ends after \<open>NBUF\<close> steps, which is their fuel.
\<close>

section \<open>Links\<close>

definition get_next :: "bref \<Rightarrow> 'a diskst_scheme \<Rightarrow> bref" where
  "get_next r s = (case r of BHead \<Rightarrow> bhead_next s | B b \<Rightarrow> b_next (bufs s b))"

definition get_prev :: "bref \<Rightarrow> 'a diskst_scheme \<Rightarrow> bref" where
  "get_prev r s = (case r of BHead \<Rightarrow> bhead_prev s | B b \<Rightarrow> b_prev (bufs s b))"

definition set_next :: "bref \<Rightarrow> bref \<Rightarrow> ('a diskst_scheme, unit) kmon" where
  "set_next r x = (case r of BHead \<Rightarrow> modify (\<lambda>s. s\<lparr>bhead_next := x\<rparr>)
     | B b \<Rightarrow> upd_buf b (\<lambda>k. k\<lparr>b_next := x\<rparr>))"

definition set_prev :: "bref \<Rightarrow> bref \<Rightarrow> ('a diskst_scheme, unit) kmon" where
  "set_prev r x = (case r of BHead \<Rightarrow> modify (\<lambda>s. s\<lparr>bhead_prev := x\<rparr>)
     | B b \<Rightarrow> upd_buf b (\<lambda>k. k\<lparr>b_prev := x\<rparr>))"

section \<open>Operations\<close>

text \<open>The last two assignments that put a buffer at the front of the list.\<close>

definition link_front :: "nat \<Rightarrow> ('a diskst_scheme, unit) kmon" where
  "link_front b = bind (gets bhead_next) (\<lambda>f.
    bind (set_prev f (B b)) (\<lambda>_.
    set_next BHead (B b)))"

definition binit :: "('a diskst_scheme, unit) kmon" where
  "binit = bind (initlock LBcache ''bcache'') (\<lambda>_.
    bind (set_prev BHead BHead) (\<lambda>_.
    bind (set_next BHead BHead) (\<lambda>_.
    for_each [0..<NBUF] (\<lambda>b.
       bind (gets bhead_next) (\<lambda>f.
         bind (set_next (B b) f) (\<lambda>_.
         bind (set_prev (B b) BHead) (\<lambda>_.
         bind (initsleeplock (LBuf b) ''buffer'') (\<lambda>_.
         link_front b))))))))"

text \<open>The scan for a cached block, forwards, and the scan for an unused buffer, backwards.\<close>

definition bget_hit :: "uint32 \<Rightarrow> uint32 \<Rightarrow> bref \<Rightarrow> ('a diskst_scheme, bref + nat option) kmon" where
  "bget_hit dev blockno r = (case r of BHead \<Rightarrow> ret (Inr None)
     | B b \<Rightarrow> bind (getbuf b id) (\<lambda>k.
       if b_dev k = dev \<and> b_blockno k = blockno then ret (Inr (Some b)) else ret (Inl (b_next k))))"

definition bget_lru :: "bref \<Rightarrow> ('a diskst_scheme, bref + nat option) kmon" where
  "bget_lru r = (case r of BHead \<Rightarrow> ret (Inr None)
     | B b \<Rightarrow> bind (getbuf b id) (\<lambda>k.
       if b_refcnt k = 0 then ret (Inr (Some b)) else ret (Inl (b_prev k))))"

definition bget :: "uint32 \<Rightarrow> uint32 \<Rightarrow> ('a diskst_scheme, nat) kmon" where
  "bget dev blockno = bind (acquire LBcache) (\<lambda>_.
    bind (gets bhead_next) (\<lambda>f.
    bind (loop (Suc NBUF) (bget_hit dev blockno) f) (\<lambda>hit.
    case hit of Some b \<Rightarrow> bind (upd_buf b (\<lambda>k. k\<lparr>b_refcnt := b_refcnt k + 1\<rparr>)) (\<lambda>_.
       bind (release LBcache) (\<lambda>_.
       bind (acquiresleep (LBuf b)) (\<lambda>_.
       ret b)))
     | None \<Rightarrow> bind (gets bhead_prev) (\<lambda>l.
       bind (loop (Suc NBUF) bget_lru l) (\<lambda>vic.
       case vic of Some b \<Rightarrow> bind (upd_buf b (\<lambda>k. k\<lparr>b_dev := dev\<rparr>)) (\<lambda>_.
           bind (upd_buf b (\<lambda>k. k\<lparr>b_blockno := blockno\<rparr>)) (\<lambda>_.
           bind (upd_buf b (\<lambda>k. k\<lparr>b_valid := False\<rparr>)) (\<lambda>_.
           bind (upd_buf b (\<lambda>k. k\<lparr>b_refcnt := 1\<rparr>)) (\<lambda>_.
           bind (release LBcache) (\<lambda>_.
           bind (acquiresleep (LBuf b)) (\<lambda>_.
           ret b))))))
         | None \<Rightarrow> panic ''bget: no buffers'')))))"

definition bread :: "uint32 \<Rightarrow> uint32 \<Rightarrow> ('a diskst_scheme, nat) kmon" where
  "bread dev blockno = bind (bget dev blockno) (\<lambda>b.
    bind (getbuf b b_valid) (\<lambda>v.
    bind (whenM (\<not> v) (bind (virtio_disk_rw b False) (\<lambda>_.
       upd_buf b (\<lambda>k. k\<lparr>b_valid := True\<rparr>)))) (\<lambda>_.
    ret b)))"

definition bwrite :: "nat \<Rightarrow> ('a diskst_scheme, unit) kmon" where
  "bwrite b = bind (holdingsleep (LBuf b)) (\<lambda>h.
    if \<not> h then panic ''bwrite'' else
    virtio_disk_rw b True)"

definition brelse :: "nat \<Rightarrow> ('a diskst_scheme, unit) kmon" where
  "brelse b = bind (holdingsleep (LBuf b)) (\<lambda>h.
    if \<not> h then panic ''brelse'' else
    bind (releasesleep (LBuf b)) (\<lambda>_.
    bind (acquire LBcache) (\<lambda>_.
    bind (upd_buf b (\<lambda>k. k\<lparr>b_refcnt := b_refcnt k - 1\<rparr>)) (\<lambda>_.
    bind (getbuf b b_refcnt) (\<lambda>r.
    bind (whenM (r = 0) (bind (getbuf b b_next) (\<lambda>n.
       bind (getbuf b b_prev) (\<lambda>p.
       bind (set_prev n p) (\<lambda>_.
       bind (getbuf b b_prev) (\<lambda>p2.
       bind (getbuf b b_next) (\<lambda>n2.
       bind (set_next p2 n2) (\<lambda>_.
       bind (gets bhead_next) (\<lambda>f.
       bind (set_next (B b) f) (\<lambda>_.
       bind (set_prev (B b) BHead) (\<lambda>_.
       link_front b))))))))))) (\<lambda>_.
    release LBcache))))))"

definition bpin :: "nat \<Rightarrow> ('a diskst_scheme, unit) kmon" where
  "bpin b = bind (acquire LBcache) (\<lambda>_.
    bind (upd_buf b (\<lambda>k. k\<lparr>b_refcnt := b_refcnt k + 1\<rparr>)) (\<lambda>_.
    release LBcache))"

definition bunpin :: "nat \<Rightarrow> ('a diskst_scheme, unit) kmon" where
  "bunpin b = bind (acquire LBcache) (\<lambda>_.
    bind (upd_buf b (\<lambda>k. k\<lparr>b_refcnt := b_refcnt k - 1\<rparr>)) (\<lambda>_.
    release LBcache))"

end
