(* ===== verification/Log.thy ===== *)
theory Log
  imports Bio
begin

text \<open>
  The redo log, \<^verbatim>\<open>kernel/log.c\<close>. The header block and the log blocks are buffers of the cache,
  read and written through \<open>bread\<close> and \<open>bwrite\<close>. The loops over the header's entries test
  its count in every round, as the code does; the count at the start is their fuel.
\<close>

definition header_of :: "uint8 list \<Rightarrow> logheader \<Rightarrow> logheader" where
  "header_of d lh = (let n = sint (get32 d 0) in
     \<lparr>lh_n = n, lh_block = (\<lambda>i. if i < nat n then get32 d (4 + 4 * i) else lh_block lh i)\<rparr>)"

definition put_header :: "uint8 list \<Rightarrow> logheader \<Rightarrow> uint8 list" where
  "put_header d lh = fold (\<lambda>i d. put32 d (4 + 4 * i) (lh_block lh i)) [0..<nat (lh_n lh)]
     (put32 d 0 (word_of_int (lh_n lh)))"

definition install_trans :: "bool \<Rightarrow> ('a kern_scheme, unit) kmon" where
  "install_trans recovering = bind (getl (\<lambda>l. lh_n (l_lh l))) (\<lambda>n.
    loop (Suc (nat n)) (\<lambda>tail.
       bind (getl (\<lambda>l. lh_n (l_lh l))) (\<lambda>m.
         if \<not> int tail < m then ret (Inr ()) else
         bind (getl l_dev) (\<lambda>dev.
         bind (getl l_start) (\<lambda>start.
         bind (bread dev (start + of_nat tail + 1)) (\<lambda>lbuf.
         bind (getl (\<lambda>l. lh_block (l_lh l) tail)) (\<lambda>bno.
         bind (bread dev bno) (\<lambda>dbuf.
         bind (getbuf lbuf b_data) (\<lambda>d.
         bind (upd_buf dbuf (\<lambda>k. k\<lparr>b_data := d\<rparr>)) (\<lambda>_.
         bind (bwrite dbuf) (\<lambda>_.
         bind (whenM (\<not> recovering) (bunpin dbuf)) (\<lambda>_.
         bind (brelse lbuf) (\<lambda>_.
         bind (brelse dbuf) (\<lambda>_.
         ret (Inl (Suc tail))))))))))))))) 0)"

definition read_head :: "('a kern_scheme, unit) kmon" where
  "read_head = bind (getl l_dev) (\<lambda>dev.
    bind (getl l_start) (\<lambda>start.
    bind (bread dev start) (\<lambda>b.
    bind (getbuf b b_data) (\<lambda>d.
    bind (upd_log (\<lambda>l. l\<lparr>l_lh := header_of d (l_lh l)\<rparr>)) (\<lambda>_.
    brelse b)))))"

definition write_head :: "('a kern_scheme, unit) kmon" where
  "write_head = bind (getl l_dev) (\<lambda>dev.
    bind (getl l_start) (\<lambda>start.
    bind (bread dev start) (\<lambda>b.
    bind (getl l_lh) (\<lambda>lh.
    bind (upd_buf b (\<lambda>k. k\<lparr>b_data := put_header (b_data k) lh\<rparr>)) (\<lambda>_.
    bind (bwrite b) (\<lambda>_.
    brelse b))))))"

definition set_lh_n :: "int \<Rightarrow> ('a kern_scheme, unit) kmon" where
  "set_lh_n n = upd_log (\<lambda>l. l\<lparr>l_lh := (l_lh l)\<lparr>lh_n := n\<rparr>\<rparr>)"

definition recover_from_log :: "('a kern_scheme, unit) kmon" where
  "recover_from_log = bind read_head (\<lambda>_.
    bind (install_trans True) (\<lambda>_.
    bind (set_lh_n 0) (\<lambda>_.
    write_head)))"

text \<open>The size test of \<open>initlog\<close> compares two constants: the header has 124 bytes.\<close>

definition initlog :: "uint32 \<Rightarrow> superblock \<Rightarrow> ('a kern_scheme, unit) kmon" where
  "initlog dev s = (if 4 * (LOGSIZE + 1) \<ge> BSIZE then panic ''initlog: too big logheader'' else
     bind (initlock LLog ''log'') (\<lambda>_.
       bind (upd_log (\<lambda>l. l\<lparr>l_start := sb_logstart s\<rparr>)) (\<lambda>_.
       bind (upd_log (\<lambda>l. l\<lparr>l_size := sint (sb_nlog s)\<rparr>)) (\<lambda>_.
       bind (upd_log (\<lambda>l. l\<lparr>l_dev := dev\<rparr>)) (\<lambda>_.
       recover_from_log)))))"

definition begin_op :: "('a kern_scheme, unit) kmon" where
  "begin_op = bind (acquire LLog) (\<lambda>_.
    wait_loop 0 (\<lambda>_. bind (getl l_committing) (\<lambda>c.
       bind (getl (\<lambda>l. lh_n (l_lh l))) (\<lambda>n.
       bind (getl l_outstanding) (\<lambda>out.
       if c then bind (sleep ChLog LLog) (\<lambda>_.
         ret (Inl ()))
       else if n + (out + 1) * int MAXOPBLOCKS > int LOGSIZE then bind (sleep ChLog LLog) (\<lambda>_.
         ret (Inl ()))
       else bind (upd_log (\<lambda>l. l\<lparr>l_outstanding := l_outstanding l + 1\<rparr>)) (\<lambda>_.
         bind (release LLog) (\<lambda>_.
         ret (Inr ()))))))) ())"

definition write_log :: "('a kern_scheme, unit) kmon" where
  "write_log = bind (getl (\<lambda>l. lh_n (l_lh l))) (\<lambda>n.
    loop (Suc (nat n)) (\<lambda>tail.
       bind (getl (\<lambda>l. lh_n (l_lh l))) (\<lambda>m.
         if \<not> int tail < m then ret (Inr ()) else
         bind (getl l_dev) (\<lambda>dev.
         bind (getl l_start) (\<lambda>start.
         bind (bread dev (start + of_nat tail + 1)) (\<lambda>to.
         bind (getl (\<lambda>l. lh_block (l_lh l) tail)) (\<lambda>bno.
         bind (bread dev bno) (\<lambda>from.
         bind (getbuf from b_data) (\<lambda>d.
         bind (upd_buf to (\<lambda>k. k\<lparr>b_data := d\<rparr>)) (\<lambda>_.
         bind (bwrite to) (\<lambda>_.
         bind (brelse from) (\<lambda>_.
         bind (brelse to) (\<lambda>_.
         ret (Inl (Suc tail)))))))))))))) 0)"

definition commit :: "('a kern_scheme, unit) kmon" where
  "commit = bind (getl (\<lambda>l. lh_n (l_lh l))) (\<lambda>n.
    whenM (n > 0) (bind write_log (\<lambda>_.
       bind write_head (\<lambda>_.
       bind (install_trans False) (\<lambda>_.
       bind (set_lh_n 0) (\<lambda>_.
       write_head))))))"

definition end_op :: "('a kern_scheme, unit) kmon" where
  "end_op = bind (acquire LLog) (\<lambda>_.
    bind (upd_log (\<lambda>l. l\<lparr>l_outstanding := l_outstanding l - 1\<rparr>)) (\<lambda>_.
    bind (getl l_committing) (\<lambda>c.
    if c then panic ''log.committing'' else
    bind (getl l_outstanding) (\<lambda>out.
    bind ((if out = 0 then upd_log (\<lambda>l. l\<lparr>l_committing := True\<rparr>) else wakeup ChLog)) (\<lambda>_.
    bind (release LLog) (\<lambda>_.
    whenM (out = 0) (bind commit (\<lambda>_.
       bind (acquire LLog) (\<lambda>_.
       bind (upd_log (\<lambda>l. l\<lparr>l_committing := False\<rparr>)) (\<lambda>_.
       bind (wakeup ChLog) (\<lambda>_.
       release LLog)))))))))))"

text \<open>The index at which \<open>log_write\<close> records a block: where it already is, or the end.\<close>

definition log_slot :: "logheader \<Rightarrow> uint32 \<Rightarrow> nat" where
  "log_slot lh bno = (case find (\<lambda>i. lh_block lh i = bno) [0..<nat (lh_n lh)] of
     Some i \<Rightarrow> i | None \<Rightarrow> nat (lh_n lh))"

definition log_write :: "nat \<Rightarrow> ('a kern_scheme, unit) kmon" where
  "log_write b = bind (acquire LLog) (\<lambda>_.
    bind (getl id) (\<lambda>l.
    if lh_n (l_lh l) \<ge> int LOGSIZE \<or> lh_n (l_lh l) \<ge> l_size l - 1 then panic ''too big a transaction'' else
    if l_outstanding l < 1 then panic ''log_write outside of trans'' else
    bind (getbuf b b_blockno) (\<lambda>bno.
    let i = log_slot (l_lh l) bno in
    bind (upd_log (\<lambda>l. l\<lparr>l_lh := (l_lh l)\<lparr>lh_block := (lh_block (l_lh l))(i := bno)\<rparr>\<rparr>)) (\<lambda>_.
    bind (whenM (int i = lh_n (l_lh l)) (bind (bpin b) (\<lambda>_.
       upd_log (\<lambda>l. l\<lparr>l_lh := (l_lh l)\<lparr>lh_n := lh_n (l_lh l) + 1\<rparr>\<rparr>)))) (\<lambda>_.
    release LLog)))))"

end
