(* ===== verification/Locked.thy ===== *)
theory Locked
  imports Kstate
begin

text \<open>
  Critical sections. \<open>locked lk s\<close> is \<open>s\<close> with the lock \<open>lk\<close> taken by the running CPU: \<open>acquire\<close>
  of a free lock leads there and \<open>release\<close> leads back, so code between the two can be read as
  if it ran on \<open>s\<close> itself. The fields of the other components are untouched by the lock, which
  the collection \<open>locked_simps\<close> says of each.
\<close>

named_theorems locked_simps \<open>reading and writing state inside a critical section\<close>

definition locked :: "lockid \<Rightarrow> 'a smp_scheme \<Rightarrow> 'a smp_scheme" where
  "locked lk s = s\<lparr>harts := set_ints False (harts s) (cur s), cpus := pushed (harts s) (cur s) (cpus s),
     locks := (locks s)(lk := taken (cid (harts s) (cur s)) (locks s lk))\<rparr>"

definition settle :: "'a smp_scheme \<Rightarrow> 'a smp_scheme" where
  "settle s = s\<lparr>cpus := calm (harts s) (cur s) (cpus s)\<rparr>"

lemma settled_settle [simp]: "cpu_ok (harts s) (cur s) (cpus s) \<Longrightarrow> settled (settle s)"
  by (simp add: settled_def settle_def)

lemma acquire_locked: "lock_free (locks s lk) \<Longrightarrow> acquire lk s e = Ret () (locked lk s) e"
  by (simp add: acquire_apply locked_def)

lemma release_locked: "settled s \<Longrightarrow> lock_free (locks s lk) \<Longrightarrow> release lk (locked lk s) e = Ret () s e"
  by (simp add: locked_def kmon_simps settled_def)

lemma settled_locked [simp]: "settled s \<Longrightarrow> settled (locked lk s)"
  by (simp add: settled_def locked_def)

lemma me_locked [simp]: "me (locked lk s) = me s"
  by (simp add: me_def locked_def)

lemma holds_locked [simp]: "holds (locked lk s) lk"
  by (simp add: holds_def locked_def)

lemma one_lock_locked: "settled s \<Longrightarrow> c_noff (cpus s (cid (harts s) (cur s))) = 0 \<Longrightarrow> one_lock (locked lk s)"
  by (simp add: one_lock_def locked_def settled_def)

lemma locks_locked: "lk' \<noteq> lk \<Longrightarrow> locks (locked lk s) lk' = locks s lk'"
  by (simp add: locked_def)

lemma plocks_free_locked [simp]: "plocks_free s \<Longrightarrow> (\<And>p. LProc p \<noteq> lk) \<Longrightarrow> plocks_free (locked lk s)"
  by (simp add: plocks_free_def locked_def)

lemma locked_fields [simp, locked_simps]:
  "mem (locked lk ta) = mem ta" "freelist (locked lk ta) = freelist ta" "kernel_pagetable (locked lk tb) = kernel_pagetable tb"
  "procs (locked lk tc) = procs tc" "nextpid (locked lk tc) = nextpid tc" "initproc (locked lk tc) = initproc tc"
  "uart_dev (locked lk td) = uart_dev td" "uart_hist (locked lk td) = uart_hist td" "uart_tx_buf (locked lk td) = uart_tx_buf td"
  "uart_tx_w (locked lk td) = uart_tx_w td" "uart_tx_r (locked lk td) = uart_tx_r td" "panicked (locked lk td) = panicked td"
  "pr_locking (locked lk tf) = pr_locking tf" "cons_buf (locked lk tg) = cons_buf tg" "cons_r (locked lk tg) = cons_r tg"
  "cons_w (locked lk tg) = cons_w tg" "cons_e (locked lk tg) = cons_e tg" "devsw (locked lk tg) = devsw tg"
  "slock (locked lk th) = slock th" "bufs (locked lk ti) = bufs ti" "bhead_prev (locked lk ti) = bhead_prev ti"
  "bhead_next (locked lk ti) = bhead_next ti" "disk (locked lk ti) = disk ti" "vio_dev (locked lk ti) = vio_dev ti"
  "vio_hist (locked lk ti) = vio_hist ti" "vdisk (locked lk ti) = vdisk ti" "klog (locked lk tj) = klog tj"
  "sb (locked lk tj) = sb tj" "itable (locked lk tj) = itable tj" "ftable (locked lk tj) = ftable tj"
  "pipes (locked lk tj) = pipes tj" "ticks (locked lk tj) = ticks tj"
  by (simp_all add: locked_def)

lemma locked_updates [locked_simps]:
  "(locked lk ta)\<lparr>mem := v_mem\<rparr> = locked lk (ta\<lparr>mem := v_mem\<rparr>)"
  "(locked lk ta)\<lparr>freelist := v_freelist\<rparr> = locked lk (ta\<lparr>freelist := v_freelist\<rparr>)"
  "(locked lk tb)\<lparr>kernel_pagetable := v_kernel_pagetable\<rparr> = locked lk (tb\<lparr>kernel_pagetable := v_kernel_pagetable\<rparr>)"
  "(locked lk tc)\<lparr>procs := v_procs\<rparr> = locked lk (tc\<lparr>procs := v_procs\<rparr>)"
  "(locked lk tc)\<lparr>nextpid := v_nextpid\<rparr> = locked lk (tc\<lparr>nextpid := v_nextpid\<rparr>)"
  "(locked lk tc)\<lparr>initproc := v_initproc\<rparr> = locked lk (tc\<lparr>initproc := v_initproc\<rparr>)"
  "(locked lk td)\<lparr>uart_dev := v_uart_dev\<rparr> = locked lk (td\<lparr>uart_dev := v_uart_dev\<rparr>)"
  "(locked lk td)\<lparr>uart_hist := v_uart_hist\<rparr> = locked lk (td\<lparr>uart_hist := v_uart_hist\<rparr>)"
  "(locked lk td)\<lparr>uart_tx_buf := v_uart_tx_buf\<rparr> = locked lk (td\<lparr>uart_tx_buf := v_uart_tx_buf\<rparr>)"
  "(locked lk td)\<lparr>uart_tx_w := v_uart_tx_w\<rparr> = locked lk (td\<lparr>uart_tx_w := v_uart_tx_w\<rparr>)"
  "(locked lk td)\<lparr>uart_tx_r := v_uart_tx_r\<rparr> = locked lk (td\<lparr>uart_tx_r := v_uart_tx_r\<rparr>)"
  "(locked lk td)\<lparr>panicked := v_panicked\<rparr> = locked lk (td\<lparr>panicked := v_panicked\<rparr>)"
  "(locked lk tf)\<lparr>pr_locking := v_pr_locking\<rparr> = locked lk (tf\<lparr>pr_locking := v_pr_locking\<rparr>)"
  "(locked lk tg)\<lparr>cons_buf := v_cons_buf\<rparr> = locked lk (tg\<lparr>cons_buf := v_cons_buf\<rparr>)"
  "(locked lk tg)\<lparr>cons_r := v_cons_r\<rparr> = locked lk (tg\<lparr>cons_r := v_cons_r\<rparr>)"
  "(locked lk tg)\<lparr>cons_w := v_cons_w\<rparr> = locked lk (tg\<lparr>cons_w := v_cons_w\<rparr>)"
  "(locked lk tg)\<lparr>cons_e := v_cons_e\<rparr> = locked lk (tg\<lparr>cons_e := v_cons_e\<rparr>)"
  "(locked lk tg)\<lparr>devsw := v_devsw\<rparr> = locked lk (tg\<lparr>devsw := v_devsw\<rparr>)"
  "(locked lk th)\<lparr>slock := v_slock\<rparr> = locked lk (th\<lparr>slock := v_slock\<rparr>)"
  "(locked lk ti)\<lparr>bufs := v_bufs\<rparr> = locked lk (ti\<lparr>bufs := v_bufs\<rparr>)"
  "(locked lk ti)\<lparr>bhead_prev := v_bhead_prev\<rparr> = locked lk (ti\<lparr>bhead_prev := v_bhead_prev\<rparr>)"
  "(locked lk ti)\<lparr>bhead_next := v_bhead_next\<rparr> = locked lk (ti\<lparr>bhead_next := v_bhead_next\<rparr>)"
  "(locked lk ti)\<lparr>disk := v_disk\<rparr> = locked lk (ti\<lparr>disk := v_disk\<rparr>)"
  "(locked lk ti)\<lparr>vio_dev := v_vio_dev\<rparr> = locked lk (ti\<lparr>vio_dev := v_vio_dev\<rparr>)"
  "(locked lk ti)\<lparr>vio_hist := v_vio_hist\<rparr> = locked lk (ti\<lparr>vio_hist := v_vio_hist\<rparr>)"
  "(locked lk ti)\<lparr>vdisk := v_vdisk\<rparr> = locked lk (ti\<lparr>vdisk := v_vdisk\<rparr>)"
  "(locked lk tj)\<lparr>klog := v_klog\<rparr> = locked lk (tj\<lparr>klog := v_klog\<rparr>)"
  "(locked lk tj)\<lparr>sb := v_sb\<rparr> = locked lk (tj\<lparr>sb := v_sb\<rparr>)"
  "(locked lk tj)\<lparr>itable := v_itable\<rparr> = locked lk (tj\<lparr>itable := v_itable\<rparr>)"
  "(locked lk tj)\<lparr>ftable := v_ftable\<rparr> = locked lk (tj\<lparr>ftable := v_ftable\<rparr>)"
  "(locked lk tj)\<lparr>pipes := v_pipes\<rparr> = locked lk (tj\<lparr>pipes := v_pipes\<rparr>)"
  "(locked lk tj)\<lparr>ticks := v_ticks\<rparr> = locked lk (tj\<lparr>ticks := v_ticks\<rparr>)"
  by (simp_all add: locked_def)

lemma settled_updates [simp]:
  "settled (ta\<lparr>mem := v_mem\<rparr>) = settled ta" "settled (ta\<lparr>freelist := v_freelist\<rparr>) = settled ta"
  "settled (tb\<lparr>kernel_pagetable := v_kernel_pagetable\<rparr>) = settled tb" "settled (tc\<lparr>procs := v_procs\<rparr>) = settled tc"
  "settled (tc\<lparr>nextpid := v_nextpid\<rparr>) = settled tc" "settled (tc\<lparr>initproc := v_initproc\<rparr>) = settled tc"
  "settled (td\<lparr>uart_dev := v_uart_dev\<rparr>) = settled td" "settled (td\<lparr>uart_hist := v_uart_hist\<rparr>) = settled td"
  "settled (td\<lparr>uart_tx_buf := v_uart_tx_buf\<rparr>) = settled td" "settled (td\<lparr>uart_tx_w := v_uart_tx_w\<rparr>) = settled td"
  "settled (td\<lparr>uart_tx_r := v_uart_tx_r\<rparr>) = settled td" "settled (td\<lparr>panicked := v_panicked\<rparr>) = settled td"
  "settled (tf\<lparr>pr_locking := v_pr_locking\<rparr>) = settled tf" "settled (tg\<lparr>cons_buf := v_cons_buf\<rparr>) = settled tg"
  "settled (tg\<lparr>cons_r := v_cons_r\<rparr>) = settled tg" "settled (tg\<lparr>cons_w := v_cons_w\<rparr>) = settled tg"
  "settled (tg\<lparr>cons_e := v_cons_e\<rparr>) = settled tg" "settled (tg\<lparr>devsw := v_devsw\<rparr>) = settled tg"
  "settled (th\<lparr>slock := v_slock\<rparr>) = settled th" "settled (ti\<lparr>bufs := v_bufs\<rparr>) = settled ti"
  "settled (ti\<lparr>bhead_prev := v_bhead_prev\<rparr>) = settled ti" "settled (ti\<lparr>bhead_next := v_bhead_next\<rparr>) = settled ti"
  "settled (ti\<lparr>disk := v_disk\<rparr>) = settled ti" "settled (ti\<lparr>vio_dev := v_vio_dev\<rparr>) = settled ti"
  "settled (ti\<lparr>vio_hist := v_vio_hist\<rparr>) = settled ti" "settled (ti\<lparr>vdisk := v_vdisk\<rparr>) = settled ti"
  "settled (tj\<lparr>klog := v_klog\<rparr>) = settled tj" "settled (tj\<lparr>sb := v_sb\<rparr>) = settled tj"
  "settled (tj\<lparr>itable := v_itable\<rparr>) = settled tj" "settled (tj\<lparr>ftable := v_ftable\<rparr>) = settled tj"
  "settled (tj\<lparr>pipes := v_pipes\<rparr>) = settled tj" "settled (tj\<lparr>ticks := v_ticks\<rparr>) = settled tj"
  by (simp_all add: settled_def)

lemma me_updates [simp]:
  "me (ta\<lparr>mem := v_mem\<rparr>) = me ta" "me (ta\<lparr>freelist := v_freelist\<rparr>) = me ta"
  "me (tb\<lparr>kernel_pagetable := v_kernel_pagetable\<rparr>) = me tb" "me (tc\<lparr>procs := v_procs\<rparr>) = me tc"
  "me (tc\<lparr>nextpid := v_nextpid\<rparr>) = me tc" "me (tc\<lparr>initproc := v_initproc\<rparr>) = me tc"
  "me (td\<lparr>uart_dev := v_uart_dev\<rparr>) = me td" "me (td\<lparr>uart_hist := v_uart_hist\<rparr>) = me td"
  "me (td\<lparr>uart_tx_buf := v_uart_tx_buf\<rparr>) = me td" "me (td\<lparr>uart_tx_w := v_uart_tx_w\<rparr>) = me td"
  "me (td\<lparr>uart_tx_r := v_uart_tx_r\<rparr>) = me td" "me (td\<lparr>panicked := v_panicked\<rparr>) = me td"
  "me (tf\<lparr>pr_locking := v_pr_locking\<rparr>) = me tf" "me (tg\<lparr>cons_buf := v_cons_buf\<rparr>) = me tg"
  "me (tg\<lparr>cons_r := v_cons_r\<rparr>) = me tg" "me (tg\<lparr>cons_w := v_cons_w\<rparr>) = me tg"
  "me (tg\<lparr>cons_e := v_cons_e\<rparr>) = me tg" "me (tg\<lparr>devsw := v_devsw\<rparr>) = me tg"
  "me (th\<lparr>slock := v_slock\<rparr>) = me th" "me (ti\<lparr>bufs := v_bufs\<rparr>) = me ti"
  "me (ti\<lparr>bhead_prev := v_bhead_prev\<rparr>) = me ti" "me (ti\<lparr>bhead_next := v_bhead_next\<rparr>) = me ti"
  "me (ti\<lparr>disk := v_disk\<rparr>) = me ti" "me (ti\<lparr>vio_dev := v_vio_dev\<rparr>) = me ti"
  "me (ti\<lparr>vio_hist := v_vio_hist\<rparr>) = me ti" "me (ti\<lparr>vdisk := v_vdisk\<rparr>) = me ti"
  "me (tj\<lparr>klog := v_klog\<rparr>) = me tj" "me (tj\<lparr>sb := v_sb\<rparr>) = me tj"
  "me (tj\<lparr>itable := v_itable\<rparr>) = me tj" "me (tj\<lparr>ftable := v_ftable\<rparr>) = me tj"
  "me (tj\<lparr>pipes := v_pipes\<rparr>) = me tj" "me (tj\<lparr>ticks := v_ticks\<rparr>) = me tj"
  by (simp_all add: me_def)

lemma plocks_free_updates [simp]:
  "plocks_free (ta\<lparr>mem := v_mem\<rparr>) = plocks_free ta" "plocks_free (ta\<lparr>freelist := v_freelist\<rparr>) = plocks_free ta"
  "plocks_free (tb\<lparr>kernel_pagetable := v_kernel_pagetable\<rparr>) = plocks_free tb" "plocks_free (tc\<lparr>procs := v_procs\<rparr>) = plocks_free tc"
  "plocks_free (tc\<lparr>nextpid := v_nextpid\<rparr>) = plocks_free tc" "plocks_free (tc\<lparr>initproc := v_initproc\<rparr>) = plocks_free tc"
  "plocks_free (td\<lparr>uart_dev := v_uart_dev\<rparr>) = plocks_free td" "plocks_free (td\<lparr>uart_hist := v_uart_hist\<rparr>) = plocks_free td"
  "plocks_free (td\<lparr>uart_tx_buf := v_uart_tx_buf\<rparr>) = plocks_free td" "plocks_free (td\<lparr>uart_tx_w := v_uart_tx_w\<rparr>) = plocks_free td"
  "plocks_free (td\<lparr>uart_tx_r := v_uart_tx_r\<rparr>) = plocks_free td" "plocks_free (td\<lparr>panicked := v_panicked\<rparr>) = plocks_free td"
  "plocks_free (tf\<lparr>pr_locking := v_pr_locking\<rparr>) = plocks_free tf" "plocks_free (tg\<lparr>cons_buf := v_cons_buf\<rparr>) = plocks_free tg"
  "plocks_free (tg\<lparr>cons_r := v_cons_r\<rparr>) = plocks_free tg" "plocks_free (tg\<lparr>cons_w := v_cons_w\<rparr>) = plocks_free tg"
  "plocks_free (tg\<lparr>cons_e := v_cons_e\<rparr>) = plocks_free tg" "plocks_free (tg\<lparr>devsw := v_devsw\<rparr>) = plocks_free tg"
  "plocks_free (th\<lparr>slock := v_slock\<rparr>) = plocks_free th" "plocks_free (ti\<lparr>bufs := v_bufs\<rparr>) = plocks_free ti"
  "plocks_free (ti\<lparr>bhead_prev := v_bhead_prev\<rparr>) = plocks_free ti" "plocks_free (ti\<lparr>bhead_next := v_bhead_next\<rparr>) = plocks_free ti"
  "plocks_free (ti\<lparr>disk := v_disk\<rparr>) = plocks_free ti" "plocks_free (ti\<lparr>vio_dev := v_vio_dev\<rparr>) = plocks_free ti"
  "plocks_free (ti\<lparr>vio_hist := v_vio_hist\<rparr>) = plocks_free ti" "plocks_free (ti\<lparr>vdisk := v_vdisk\<rparr>) = plocks_free ti"
  "plocks_free (tj\<lparr>klog := v_klog\<rparr>) = plocks_free tj" "plocks_free (tj\<lparr>sb := v_sb\<rparr>) = plocks_free tj"
  "plocks_free (tj\<lparr>itable := v_itable\<rparr>) = plocks_free tj" "plocks_free (tj\<lparr>ftable := v_ftable\<rparr>) = plocks_free tj"
  "plocks_free (tj\<lparr>pipes := v_pipes\<rparr>) = plocks_free tj" "plocks_free (tj\<lparr>ticks := v_ticks\<rparr>) = plocks_free tj"
  by (simp_all add: plocks_free_def)

text \<open>The process table after a \<open>wakeup\<close>.\<close>

definition wakes :: "chan \<Rightarrow> 'a ptable_scheme \<Rightarrow> nat \<Rightarrow> proc" where
  "wakes ch s = (\<lambda>p. if p < NPROC then woken ch (me s) p (procs s p) else procs s p)"

declare wakeup_apply [kmon_simps del]

lemma wakeup_wakes [kmon_simps]:
  "settled s \<Longrightarrow> plocks_free s \<Longrightarrow> wakeup ch s e = Ret () (s\<lparr>procs := wakes ch s\<rparr>) e"
  by (simp add: wakeup_apply wakes_def)

lemma wakes_wakes [simp]: "wakes ch (s\<lparr>procs := wakes ch s\<rparr>) = wakes ch s"
  by (auto simp: wakes_def woken_def)

lemma wakes_locked [simp]: "wakes ch (locked lk s) = wakes ch s"
  by (simp add: wakes_def cong: if_cong)

lemma wakes_updates [simp]:
  "wakes ch (tp\<lparr>mem := v_mem\<rparr>) = wakes ch tp" "wakes ch (tp\<lparr>freelist := v_freelist\<rparr>) = wakes ch tp"
  "wakes ch (tp\<lparr>kernel_pagetable := v_kernel_pagetable\<rparr>) = wakes ch tp" "wakes ch (tc\<lparr>nextpid := v_nextpid\<rparr>) = wakes ch tc"
  "wakes ch (tc\<lparr>initproc := v_initproc\<rparr>) = wakes ch tc" "wakes ch (td\<lparr>uart_dev := v_uart_dev\<rparr>) = wakes ch td"
  "wakes ch (td\<lparr>uart_hist := v_uart_hist\<rparr>) = wakes ch td" "wakes ch (td\<lparr>uart_tx_buf := v_uart_tx_buf\<rparr>) = wakes ch td"
  "wakes ch (td\<lparr>uart_tx_w := v_uart_tx_w\<rparr>) = wakes ch td" "wakes ch (td\<lparr>uart_tx_r := v_uart_tx_r\<rparr>) = wakes ch td"
  "wakes ch (td\<lparr>panicked := v_panicked\<rparr>) = wakes ch td" "wakes ch (tf\<lparr>pr_locking := v_pr_locking\<rparr>) = wakes ch tf"
  "wakes ch (tg\<lparr>cons_buf := v_cons_buf\<rparr>) = wakes ch tg" "wakes ch (tg\<lparr>cons_r := v_cons_r\<rparr>) = wakes ch tg"
  "wakes ch (tg\<lparr>cons_w := v_cons_w\<rparr>) = wakes ch tg" "wakes ch (tg\<lparr>cons_e := v_cons_e\<rparr>) = wakes ch tg"
  "wakes ch (tg\<lparr>devsw := v_devsw\<rparr>) = wakes ch tg" "wakes ch (th\<lparr>slock := v_slock\<rparr>) = wakes ch th"
  "wakes ch (ti\<lparr>bufs := v_bufs\<rparr>) = wakes ch ti" "wakes ch (ti\<lparr>bhead_prev := v_bhead_prev\<rparr>) = wakes ch ti"
  "wakes ch (ti\<lparr>bhead_next := v_bhead_next\<rparr>) = wakes ch ti" "wakes ch (ti\<lparr>disk := v_disk\<rparr>) = wakes ch ti"
  "wakes ch (ti\<lparr>vio_dev := v_vio_dev\<rparr>) = wakes ch ti" "wakes ch (ti\<lparr>vio_hist := v_vio_hist\<rparr>) = wakes ch ti"
  "wakes ch (ti\<lparr>vdisk := v_vdisk\<rparr>) = wakes ch ti" "wakes ch (tj\<lparr>klog := v_klog\<rparr>) = wakes ch tj"
  "wakes ch (tj\<lparr>sb := v_sb\<rparr>) = wakes ch tj" "wakes ch (tj\<lparr>itable := v_itable\<rparr>) = wakes ch tj"
  "wakes ch (tj\<lparr>ftable := v_ftable\<rparr>) = wakes ch tj" "wakes ch (tj\<lparr>pipes := v_pipes\<rparr>) = wakes ch tj"
  "wakes ch (tj\<lparr>ticks := v_ticks\<rparr>) = wakes ch tj"
  by (simp_all add: wakes_def cong: if_cong)

text \<open>A \<open>wakeup\<close> makes processes runnable and does nothing else.\<close>

lemma wakes_state: "wakes ch s p = procs s p \<or>
    p_state (procs s p) = SLEEPING \<and> p_chan (procs s p) = Some ch \<and> wakes ch s p = (procs s p)\<lparr>p_state := RUNNABLE\<rparr>"
  by (auto simp: wakes_def woken_def)

end
