(* ===== verification/Diskio.thy ===== *)
theory Diskio
  imports Log Locked
begin

text \<open>
  The disk driver together with the device, the interrupt handler and the scheduler. A process
  that calls \<open>virtio_disk_rw\<close> sleeps until the device has completed the request and the handler has
  marked the buffer; \<open>disk_turn\<close> is what happens in between, made of the code of the scheduler
  and of \<open>virtio_disk_intr\<close>. What the device does with a request is the interface \<open>block_device\<close>.
\<close>

declare wakeup_apply [kmon_simps del] acquire_apply [kmon_simps del] release_apply [kmon_simps del]
declare acquire_locked [kmon_simps] release_locked [kmon_simps]

section \<open>The device\<close>

text \<open>
  The request the driver has published: the next entry of the available ring heads a chain of
  three descriptors, the request structure, the data, and the status byte. The result is the
  head of the chain, the buffer, whether it is a write, the block, and the place of the status.
\<close>

definition request :: "'a diskst_scheme \<Rightarrow> (nat \<times> nat \<times> bool \<times> nat \<times> nat) option" where
  "request s = (let d = disk s; h = unat (d_avail_ring d (unat (d_used_idx_dev d mod of_nat NUM)));
       d0 = d_desc d h; d1 = d_desc d (unat (vd_next d0)); d2 = d_desc d (unat (vd_next d1)) in
     if d_used_idx_dev d = d_avail_idx d then None else
     case (vd_addr d0, vd_addr d1, vd_addr d2) of
       (DOps i, DData b, DStatus j) \<Rightarrow>
         let wr = (req_type (d_ops d i) = VIRTIO_BLK_T_OUT) in
         if vd_flags d0 = VRING_DESC_F_NEXT \<and> vd_len d1 = of_nat BSIZE \<and> vd_flags d2 = VRING_DESC_F_WRITE \<and>
           vd_flags d1 = (if wr then VRING_DESC_F_NEXT else VRING_DESC_F_NEXT OR VRING_DESC_F_WRITE)
         then Some (h, b, wr, unat (req_sector (d_ops d i)) div (BSIZE div 512), j) else None
     | _ \<Rightarrow> None)"

definition transfer :: "nat \<Rightarrow> nat \<Rightarrow> bool \<Rightarrow> nat \<Rightarrow> nat \<Rightarrow> 'a diskst_scheme \<Rightarrow> 'a diskst_scheme" where
  "transfer h b wr blk j s = s\<lparr>
     bufs := (if wr then bufs s else (bufs s)(b := (bufs s b)\<lparr>b_data := vdisk s blk\<rparr>)),
     disk := (disk s)\<lparr>d_info_status := (d_info_status (disk s))(j := 0),
       d_used_ring := (d_used_ring (disk s))(unat (d_used_idx_dev (disk s) mod of_nat NUM) := of_nat h),
       d_used_idx_dev := d_used_idx_dev (disk s) + 1\<rparr>,
     vdisk := (if wr then (vdisk s)(blk := b_data (bufs s b)) else vdisk s)\<rparr>"

text \<open>
  The device on its own: it completes the published request, writes the status, and puts the
  head of the chain on the used ring.
\<close>

locale block_device =
  fixes dev :: "'a kern_scheme \<Rightarrow> 'a kern_scheme"
  assumes completes: "request s = Some (h, b, wr, blk, j) \<Longrightarrow> dev s = transfer h b wr blk j s"

section \<open>A turn of the others\<close>

text \<open>
  Between the two halves of a process's \<open>sched\<close>: the scheduler lets go of the process, the device
  completes its work and interrupts, and the scheduler finds the process runnable and
  switches to it.
\<close>

definition disk_turn :: "('a kern_scheme \<Rightarrow> 'a kern_scheme) \<Rightarrow> nat \<Rightarrow> ('a kern_scheme, unit) kmon" where
  "disk_turn dev p = bind mycpu (\<lambda>c.
     bind (modify (upd_cpu c (\<lambda>k. k\<lparr>c_proc := None\<rparr>))) (\<lambda>_.
     bind (release (LProc p)) (\<lambda>_.
     bind (modify dev) (\<lambda>_.
     bind virtio_disk_intr (\<lambda>_.
     bind (acquire (LProc p)) (\<lambda>_.
     bind (getp p p_state) (\<lambda>st.
     whenM (st = RUNNABLE)
       (bind (setp p (\<lambda>r. r\<lparr>p_state := RUNNING\<rparr>)) (\<lambda>_.
        modify (upd_cpu c (\<lambda>k. k\<lparr>c_proc := Some p\<rparr>)))))))))))"

definition turn :: "('a kern_scheme \<Rightarrow> 'a kern_scheme) \<Rightarrow> 'a kern_scheme \<Rightarrow> 'a kern_scheme" where
  "turn dev s = (case me s of None \<Rightarrow> s | Some p \<Rightarrow>
     (case disk_turn dev p s [] of Ret _ t _ \<Rightarrow> t | _ \<Rightarrow> s))"

section \<open>The driver\<close>

definition idle_disk :: "'a diskst_scheme \<Rightarrow> bool" where
  "idle_disk s \<longleftrightarrow> (\<forall>i < NUM. d_free (disk s) i) \<and> d_used_idx (disk s) = d_used_idx_dev (disk s) \<and>
     d_used_idx_dev (disk s) = d_avail_idx (disk s)"

lemma upt_8: "[0..<8] = [0, 1, 2, 3, 4, 5, 6, 7::nat]"
  by (simp add: upt_rec)

lemma alloc3_idle:
  assumes "\<forall>i < NUM. d_free (disk s) i"
  shows "alloc3_desc s e = Ret (Some (0, 1, 2)) (s\<lparr>disk := (disk s)\<lparr>d_free := (d_free (disk s))(0 := False, 1 := False, 2 := False)\<rparr>\<rparr>) e"
  using assms
  by (simp add: alloc3_desc_def alloc_desc_def upt_8 kmon_simps getd_def upd_disk_def fun_upd_twist)

definition submitted :: "nat \<Rightarrow> bool \<Rightarrow> uint64 \<Rightarrow> 'a diskst_scheme \<Rightarrow> 'a diskst_scheme" where
  "submitted b wr sector s = s\<lparr>
     bufs := (bufs s)(b := (bufs s b)\<lparr>b_disk := True\<rparr>),
     vio_hist := vio_hist s @ [VWrite VIRTIO_MMIO_QUEUE_NOTIFY 0],
     disk := (disk s)\<lparr>
       d_ops := (d_ops (disk s))(0 := \<lparr>req_type = (if wr then VIRTIO_BLK_T_OUT else VIRTIO_BLK_T_IN), req_reserved = 0, req_sector = sector\<rparr>),
       d_desc := (d_desc (disk s))(
         0 := \<lparr>vd_addr = DOps 0, vd_len = 16, vd_flags = 1, vd_next = 1\<rparr>,
         1 := \<lparr>vd_addr = DData b, vd_len = 1024, vd_flags = (if wr then 1 else 3), vd_next = 2\<rparr>,
         2 := \<lparr>vd_addr = DStatus 0, vd_len = 1, vd_flags = 2, vd_next = 0\<rparr>),
       d_info_status := (d_info_status (disk s))(0 := 0xff),
       d_info_b := (d_info_b (disk s))(0 := Some b),
       d_avail_ring := (d_avail_ring (disk s))(unat (d_avail_idx (disk s) mod 8) := 0),
       d_avail_idx := d_avail_idx (disk s) + 1\<rparr>\<rparr>"

lemma submit_apply:
  "virtio_submit b wr sector (0, 1, 2) s e = Ret () (submitted b wr sector s) e"
  by (simp add: virtio_submit_def kmon_simps upd_disk_def upd_buf_def wr_vio_def submitted_def)

lemma request_submitted:
  assumes "d_used_idx_dev (disk s) = d_avail_idx (disk s)"
  shows "request (submitted b wr sector s) = Some (0, b, wr, unat sector div 2, 0)"
  using assms by (simp add: request_def submitted_def)

lemma intr_apply:
  assumes "settled s" and "plocks_free s" and "lock_free (locks s LDisk)"
    and "d_used_idx_dev (disk s) = d_used_idx (disk s) + 1"
    and "d_used_ring (disk s) (unat (d_used_idx (disk s) mod 8)) = of_nat h" and "h < 8"
    and "d_info_status (disk s) h = 0" and "d_info_b (disk s) h = Some b"
  shows "\<exists>vh. virtio_disk_intr s e = Ret () (s\<lparr>vio_hist := vh, bufs := (bufs s)(b := (bufs s b)\<lparr>b_disk := False\<rparr>),
    procs := wakes (ChDisk b) s, disk := (disk s)\<lparr>d_used_idx := d_used_idx (disk s) + 1\<rparr>\<rparr>) e"
proof -
  have h: "unat (of_nat h :: uint32) = h" using assms(6) by (intro unat_of_nat_eq) simp
  have n: "unat (d_used_idx_dev (disk s) - d_used_idx (disk s)) = 1" using assms(4) by simp
  let ?vh = "vio_hist s @ [VRead VIRTIO_MMIO_INTERRUPT_STATUS (vio_dev s (vio_hist s) VIRTIO_MMIO_INTERRUPT_STATUS),
    VWrite VIRTIO_MMIO_INTERRUPT_ACK (vio_dev s (vio_hist s) VIRTIO_MMIO_INTERRUPT_STATUS AND 3)]"
  let ?u = "s\<lparr>vio_hist := ?vh\<rparr>"
  let ?v = "s\<lparr>vio_hist := ?vh, bufs := (bufs s)(b := (bufs s b)\<lparr>b_disk := False\<rparr>),
    procs := wakes (ChDisk b) s, disk := (disk s)\<lparr>d_used_idx := d_used_idx (disk s) + 1\<rparr>\<rparr>"
  have "virtio_intr_round () (locked LDisk ?u) e = Ret (Inl ()) (locked LDisk ?v) e"
    using assms h by (simp add: virtio_intr_round_def kmon_simps getd_def upd_buf_def upd_disk_def locked_updates)
  moreover have "virtio_intr_round () (locked LDisk ?v) e = Ret (Inr ()) (locked LDisk ?v) e"
    using assms by (simp add: virtio_intr_round_def kmon_simps getd_def)
  ultimately have "loop (Suc 1) virtio_intr_round () (locked LDisk ?u) e = Ret () (locked LDisk ?v) e"
    by (simp add: bind_apply ret_apply)
  moreover have "release LDisk (locked LDisk ?v) e = Ret () ?v e"
    using assms by (intro release_locked) simp_all
  ultimately have "virtio_disk_intr s e = Ret () ?v e"
    unfolding virtio_disk_intr_def using assms(3) n
    by (simp add: kmon_simps rd_vio_def wr_vio_def getd_def locked_updates del: loop.simps)
  then show ?thesis by blast
qed

lemma request_more [simp]:
  "request (s\<lparr>harts := h\<rparr>) = request s" "request (s\<lparr>cpus := k\<rparr>) = request s" "request (s\<lparr>locks := l\<rparr>) = request s"
  "request (t\<lparr>procs := ps\<rparr>) = request t"
  by (simp_all add: request_def)

text \<open>What a state must look like when its process is switched away from, waiting for the disk.\<close>

definition waiting :: "'a kern_scheme \<Rightarrow> nat \<Rightarrow> nat \<Rightarrow> bool" where
  "waiting a p b \<longleftrightarrow> me a = Some p \<and> p < NPROC \<and> one_lock a \<and>
     (\<exists>l. lock_free l \<and> locks a (LProc p) = taken (cid (harts a) (cur a)) l) \<and> (\<forall>lk. lk \<noteq> LProc p \<longrightarrow> lock_free (locks a lk)) \<and>
     p_state (procs a p) = SLEEPING \<and> p_chan (procs a p) = Some (ChDisk b)"

definition served :: "nat \<Rightarrow> nat \<Rightarrow> bool \<Rightarrow> nat \<Rightarrow> 'a kern_scheme \<Rightarrow> 'a kern_scheme" where
  "served h b wr blk s = (let t = transfer h b wr blk h s in
     t\<lparr>bufs := (bufs t)(b := (bufs t b)\<lparr>b_disk := False\<rparr>), disk := (disk t)\<lparr>d_used_idx := d_used_idx (disk t) + 1\<rparr>\<rparr>)"

lemma transfer_more [simp]:
  "locks (transfer h b wr blk j s) = locks s" "cpus (transfer h b wr blk j s) = cpus s" "harts (transfer h b wr blk j s) = harts s"
  "cur (transfer h b wr blk j s) = cur s" "procs (transfer h b wr blk j s) = procs s" "vio_hist (transfer h b wr blk j s) = vio_hist s"
  by (simp_all add: transfer_def)

lemma settled_popped:
  assumes "\<not> ints h c" and "c_noff (k (cid h c)) = 1"
  shows "cpu_ok (unmasked h c k) c (popped h c k)" and "calm (unmasked h c k) c (popped h c k) = popped h c k"
proof -
  have i: "cid (unmasked h c k) c = cid h c" by (rule repush(3) [of h c k, OF assms])
  show "cpu_ok (unmasked h c k) c (popped h c k)" using assms by (simp add: cpu_ok_def i popped_def)
  have "ints (unmasked h c k) c = c_intena (k (cid h c))" using assms by (simp add: unmasked_def)
  then show "calm (unmasked h c k) c (popped h c k) = popped h c k"
    using assms unfolding calm_def i by (intro fun_upd_idem) (simp add: popped_def)
qed

context block_device
begin

lemma disk_turn_apply:
  assumes w: "waiting a p b" and req: "request a = Some (h, b, wr, blk, h)" and h: "h < 8"
    and idx: "d_used_idx (disk a) = d_used_idx_dev (disk a)" and info: "d_info_b (disk a) h = Some b"
  shows "\<exists>vh ps. disk_turn dev p a e = Ret () ((served h b wr blk a)\<lparr>vio_hist := vh, procs := ps\<rparr>) e \<and>
    ps p = (procs a p)\<lparr>p_state := RUNNING\<rparr>"
proof -
  let ?c = "cid (harts a) (cur a)" and ?h = "harts a" and ?k = "(cpus a)(cid (harts a) (cur a) := (cpus a (cid (harts a) (cur a)))\<lparr>c_proc := None\<rparr>)"
  obtain l where l: "lock_free l" "locks a (LProc p) = taken ?c l" using w by (auto simp: waiting_def)
  have me: "c_proc (cpus a ?c) = Some p" using w by (simp add: waiting_def me_def)
  have o: "\<not> ints ?h (cur a)" "c_noff (?k (cid ?h (cur a))) = 1" using w by (simp_all add: waiting_def one_lock_def)
  let ?a2 = "a\<lparr>cpus := popped ?h (cur a) ?k, harts := unmasked ?h (cur a) ?k, locks := (locks a)(LProc p := l)\<rparr>"
  have rel: "release (LProc p) (upd_cpu ?c (\<lambda>k. k\<lparr>c_proc := None\<rparr>) a) e = Ret () ?a2 e"
    using l o by (subst release_apply) (simp_all add: upd_cpu_def masked_def)
  let ?t = "transfer h b wr blk h ?a2"
  have st: "settled ?t" using settled_popped [of ?h "cur a" ?k, OF o] by (simp add: settled_def)
  have pf: "plocks_free ?t" "lock_free (locks ?t LDisk)" using w l by (auto simp: waiting_def plocks_free_def)
  have dv: "dev ?a2 = ?t" by (rule completes) (simp add: req)
  obtain vh where intr: "virtio_disk_intr ?t e = Ret () (?t\<lparr>vio_hist := vh, bufs := (bufs ?t)(b := (bufs ?t b)\<lparr>b_disk := False\<rparr>),
      procs := wakes (ChDisk b) ?t, disk := (disk ?t)\<lparr>d_used_idx := d_used_idx (disk ?t) + 1\<rparr>\<rparr>) e"
    using intr_apply [OF st pf, of h b e] h idx info by (auto simp: transfer_def)
  let ?u = "?t\<lparr>vio_hist := vh, bufs := (bufs ?t)(b := (bufs ?t b)\<lparr>b_disk := False\<rparr>),
      procs := wakes (ChDisk b) ?t, disk := (disk ?t)\<lparr>d_used_idx := d_used_idx (disk ?t) + 1\<rparr>\<rparr>"
  have wk: "wakes (ChDisk b) ?t p = (procs a p)\<lparr>p_state := RUNNABLE\<rparr>"
    using w repush(3) [of ?h "cur a" ?k, OF o] by (simp add: wakes_def woken_def waiting_def me_def popped_def)
  have acq: "acquire (LProc p) ?u e = Ret () (?u\<lparr>harts := ?h, cpus := ?k, locks := locks a\<rparr>) e"
    using l repush [of ?h "cur a" ?k, OF o] by (subst acquire_apply) (simp_all add: fun_upd_idem)
  have k: "?k(?c := (?k ?c)\<lparr>c_proc := Some p\<rparr>) = cpus a"
  proof -
    have "(cpus a ?c)\<lparr>c_proc := Some p\<rparr> = cpus a ?c" using me by (cases "cpus a ?c") simp
    then show ?thesis by (simp add: fun_upd_idem)
  qed
  let ?v = "?u\<lparr>harts := ?h, cpus := ?k, locks := locks a\<rparr>"
  have "disk_turn dev p a e = bind (getp p p_state) (\<lambda>st. whenM (st = RUNNABLE)
       (bind (setp p (\<lambda>r. r\<lparr>p_state := RUNNING\<rparr>)) (\<lambda>_. modify (upd_cpu ?c (\<lambda>k. k\<lparr>c_proc := Some p\<rparr>))))) ?v e"
    unfolding disk_turn_def by (simp only: bind_apply mycpu_apply modify_apply res.case rel dv intr acq)
  also have "\<dots> = Ret () (?v\<lparr>procs := (wakes (ChDisk b) ?t)(p := (procs a p)\<lparr>p_state := RUNNING\<rparr>), cpus := cpus a\<rparr>) e"
    using wk k by (simp add: kmon_simps proc_simps upd_cpu_def)
  also have "?v\<lparr>procs := (wakes (ChDisk b) ?t)(p := (procs a p)\<lparr>p_state := RUNNING\<rparr>), cpus := cpus a\<rparr> =
      (served h b wr blk a)\<lparr>vio_hist := vh, procs := (wakes (ChDisk b) ?t)(p := (procs a p)\<lparr>p_state := RUNNING\<rparr>)\<rparr>"
    by (simp add: served_def transfer_def Let_def)
  finally have "disk_turn dev p a e = Ret () ((served h b wr blk a)\<lparr>vio_hist := vh, procs := (wakes (ChDisk b) ?t)(p := (procs a p)\<lparr>p_state := RUNNING\<rparr>)\<rparr>) e" .
  then show ?thesis by (intro exI conjI) (assumption, simp)
qed

end

section \<open>A whole request\<close>

text \<open>The running process holds no lock.\<close>

definition ready :: "'a kern_scheme \<Rightarrow> nat \<Rightarrow> bool" where
  "ready s p \<longleftrightarrow> quiet s \<and> me s = Some p \<and> p < NPROC \<and> c_noff (cpus s (cid (harts s) (cur s))) = 0 \<and>
     p_state (procs s p) = RUNNING \<and> p_chan (procs s p) = None"

lemma ready_simps:
  assumes "ready s p"
  shows "settled s" "plocks_free s" "lock_free (locks s lk)" "me s = Some p"
  using assms quiet_settled [of s] by (simp_all add: ready_def)

lemma asleep_locked:
  assumes "ready s p"
  shows "waiting (asleep (locked LDisk s) p (ChDisk b) LDisk) p b"
  using assms one_lock_locked [of s LDisk]
  by (auto simp: waiting_def asleep_def ready_def quiet_def settled_def locked_def me_def one_lock_def)

text \<open>
  The fields a request changes: the buffer, the contents of the disk, and the driver's own
  structures. The process table changes only in other processes.
\<close>

definition rw_result :: "nat \<Rightarrow> nat \<Rightarrow> bool \<Rightarrow> nat \<Rightarrow> 'a kern_scheme \<Rightarrow> 'a kern_scheme \<Rightarrow> bool" where
  "rw_result p b wr blk s t \<longleftrightarrow> t = s\<lparr>
     bufs := (bufs s)(b := (if wr then (bufs s b)\<lparr>b_disk := False\<rparr> else (bufs s b)\<lparr>b_data := vdisk s blk, b_disk := False\<rparr>)),
     vdisk := (if wr then (vdisk s)(blk := b_data (bufs s b)) else vdisk s),
     disk := disk t, vio_hist := vio_hist t, procs := procs t\<rparr> \<and> procs t p = procs s p \<and> idle_disk t"

lemma awake_locked:
  assumes r: "ready s p" and u: "u = (asleep (locked LDisk s) p ch LDisk)\<lparr>bufs := bs, disk := d, vdisk := vd, vio_hist := vh, procs := ps\<rparr>"
    and ps: "ps p = ((procs s p)\<lparr>p_chan := Some ch, p_state := RUNNING\<rparr>)"
  shows "awake u (c_intena (cpus (locked LDisk s) (cid (harts (locked LDisk s)) (cur (locked LDisk s))))) p LDisk =
      locked LDisk (s\<lparr>bufs := bs, disk := d, vdisk := vd, vio_hist := vh, procs := ps(p := procs s p)\<rparr>)"
    and "resumed u p LDisk"
proof -
  let ?L = "locked LDisk s" let ?c = "cid (harts s) (cur s)"
  have f: "lock_free (locks s (LProc p))" "lock_free (locks s LDisk)" using r by (simp_all add: ready_simps)
  have p: "(ps p)\<lparr>p_chan := None\<rparr> = procs s p" using ps r by (cases "procs s p") (simp add: ready_def)
  have c: "(cpus ?L)(?c := (cpus ?L ?c)\<lparr>c_intena := c_intena (cpus ?L ?c)\<rparr>) = cpus ?L" by (simp add: fun_upd_idem)
  have l: "(locks u)(LProc p := freed (locks u (LProc p)), LDisk := taken ?c (locks u LDisk)) = locks ?L"
    using f u by (auto simp: asleep_def locked_def)
  show "awake u (c_intena (cpus ?L (cid (harts ?L) (cur ?L)))) p LDisk =
      locked LDisk (s\<lparr>bufs := bs, disk := d, vdisk := vd, vio_hist := vh, procs := ps(p := procs s p)\<rparr>)"
    using p c l u by (simp add: awake_def upd_cpu_def asleep_def locked_def)
  show "resumed u p LDisk"
    using one_lock_locked [of s LDisk] r f u
    by (simp add: resumed_def one_lock_def holds_def asleep_def ready_def quiet_def settled_def lock_free_def freed_def)
qed

lemma free_chain_apply:
  assumes "settled s" and "plocks_free s" and "\<forall>i < 3. \<not> d_free (disk s) i"
    and "vd_flags (d_desc (disk s) 0) = 1" "vd_next (d_desc (disk s) 0) = 1"
    and "vd_flags (d_desc (disk s) 1) AND 1 \<noteq> 0" "vd_next (d_desc (disk s) 1) = 2" and "vd_flags (d_desc (disk s) 2) = 2"
  shows "free_chain 0 s e = Ret () (s\<lparr>procs := wakes ChDescs s, disk := (disk s)\<lparr>
    d_desc := (d_desc (disk s))(0 := virtq_desc0, 1 := virtq_desc0, 2 := virtq_desc0),
    d_free := (d_free (disk s))(0 := True, 1 := True, 2 := True)\<rparr>\<rparr>) e"
proof -
  have n: "Suc NUM = Suc (Suc (Suc 6))" by simp
  have f: "\<not> d_free (disk s) 0" "\<not> d_free (disk s) 1" "\<not> d_free (disk s) 2" using assms(3) by auto
  show ?thesis unfolding free_chain_def n loop.simps
    using assms(1,2,4-) f by (simp add: kmon_simps getd_def free_desc_def upd_disk_def fun_upd_twist)
qed

lemma submitted_locked: "submitted b wr sector (locked lk s) = locked lk (submitted b wr sector s)"
  by (simp add: submitted_def locked_updates)

definition descs_taken :: "'a diskst_scheme \<Rightarrow> 'a diskst_scheme" where
  "descs_taken s = s\<lparr>disk := (disk s)\<lparr>d_free := (d_free (disk s))(0 := False, 1 := False, 2 := False)\<rparr>\<rparr>"

text \<open>The second half of \<open>virtio_disk_rw\<close>: waiting for the request and cleaning up after it.\<close>

definition rw_wait :: "nat \<Rightarrow> ('a diskst_scheme, unit) kmon" where
  "rw_wait b = wait_loop 0 (\<lambda>_. bind (getbuf b b_disk) (\<lambda>w.
       if w then bind (sleep (ChDisk b) LDisk) (\<lambda>_. ret (Inl ())) else ret (Inr ()))) ()"

definition rw_clean :: "('a diskst_scheme, unit) kmon" where
  "rw_clean = bind (upd_disk (\<lambda>d. d\<lparr>d_info_b := (d_info_b d)(0 := None)\<rparr>)) (\<lambda>_.
    bind (free_chain 0) (\<lambda>_. release LDisk))"

lemma rw_until_wait:
  assumes "ready s p" and "idle_disk s"
  shows "virtio_disk_rw b wr s e = bind (rw_wait b) (\<lambda>_. rw_clean)
    (locked LDisk (submitted b wr (ucast (b_blockno (bufs s b) * 2)) (descs_taken s))) e"
proof -
  have "alloc3_desc (locked LDisk s) e = Ret (Some (0, 1, 2)) (locked LDisk (descs_taken s)) e"
    using assms(2) by (subst alloc3_idle) (simp_all add: idle_disk_def descs_taken_def locked_updates)
  then have w: "wait_loop 0 (\<lambda>_. bind alloc3_desc (\<lambda>r.
       case r of Some x \<Rightarrow> ret (Inr x) | None \<Rightarrow> bind (sleep ChDescs LDisk) (\<lambda>_.
         ret (Inl ())))) () (locked LDisk s) e = Ret (0, 1, 2) (locked LDisk (descs_taken s)) e"
    by (simp add: wait_loop_def bind_apply ret_apply)
  have a: "acquire LDisk s e = Ret () (locked LDisk s) e" using assms(1) by (simp add: acquire_locked ready_simps)
  have n: "of_nat (BSIZE div 512) = (2 :: uint32)" by simp
  have g: "getbuf b b_blockno s e = Ret (b_blockno (bufs s b)) s e" by (simp add: getbuf_def gets_apply)
  have sub: "virtio_submit b wr sector (nat 0, nat 1, nat 2) (locked LDisk (descs_taken s)) e =
      Ret () (locked LDisk (submitted b wr sector (descs_taken s))) e" for sector
    using submit_apply [of b wr sector "locked LDisk (descs_taken s)" e] by (simp add: submitted_locked)
  show ?thesis
    unfolding virtio_disk_rw_def Let_def bind_Ret [of "getbuf b b_blockno", OF g] bind_Ret [of "acquire LDisk", OF a] bind_Ret [of "wait_loop 0 _ ()", OF w] fst_conv snd_conv n
      bind_Ret [of "virtio_submit b wr _ _", OF sub] rw_wait_def rw_clean_def by simp
qed

lemma request_cong: "disk s = disk t \<Longrightarrow> request s = request t"
  by (simp add: request_def)

lemma ready_updates [simp]:
  "ready (s\<lparr>bufs := v1\<rparr>) p = ready s p" "ready (s\<lparr>disk := v2\<rparr>) p = ready s p" "ready (s\<lparr>vio_hist := v3\<rparr>) p = ready s p"
  "ready (s\<lparr>vdisk := v4\<rparr>) p = ready s p" "ready (s\<lparr>klog := v5\<rparr>) p = ready s p" "ready (s\<lparr>bhead_next := v6\<rparr>) p = ready s p"
  "ready (s\<lparr>bhead_prev := v7\<rparr>) p = ready s p" "ready (s\<lparr>slock := v8\<rparr>) p = ready s p"
  by (simp_all add: ready_def quiet_def me_def)

lemma ready_procs: "ps p = procs s p \<Longrightarrow> ready (s\<lparr>procs := ps\<rparr>) p = ready s p"
  by (simp add: ready_def quiet_def me_def)

lemma wakes_me: "me s = Some p \<Longrightarrow> wakes ch s p = procs s p"
  by (simp add: wakes_def woken_def)

lemma ready_locked:
  assumes r: "ready s p" and "\<And>q. lk \<noteq> LProc q"
  shows "me (locked lk s) = Some p" "one_lock (locked lk s)" "holds (locked lk s) lk" "lock_free (locks (locked lk s) (LProc p))"
    "lk \<noteq> LProc p"
proof -
  show "one_lock (locked lk s)" using one_lock_locked [of s lk] ready_simps(1) [OF r] r by (simp add: ready_def)
  show "lock_free (locks (locked lk s) (LProc p))" using r assms(2) [of p] by (simp add: locks_locked ready_simps(3))
qed (use r assms(2) in \<open>simp_all add: ready_simps(4)\<close>)

lemma rw_wait_blocks:
  assumes "ready s p" and "b_disk (bufs s b)"
  shows "rw_wait b (locked LDisk s) [] = Blocked (asleep (locked LDisk s) p (ChDisk b) LDisk)"
proof -
  have "sleep (ChDisk b) LDisk (locked LDisk s) [] = Blocked (asleep (locked LDisk s) p (ChDisk b) LDisk)"
    by (rule sleep_exact(1) [OF ready_locked [OF assms(1)]]) simp_all
  then show ?thesis using assms(2) by (simp add: rw_wait_def wait_loop_def getbuf_def bind_apply gets_apply)
qed

context block_device
begin

lemma rw_wait_apply:
  assumes r: "ready s p" and bd: "b_disk (bufs s b)" and req: "request s = Some (h, b, wr, blk, h)" and h: "h < 8"
    and idx: "d_used_idx (disk s) = d_used_idx_dev (disk s)" and info: "d_info_b (disk s) h = Some b"
  shows "\<exists>vh ps. rw_wait b (locked LDisk s) (turn dev # e) =
    Ret () (locked LDisk ((served h b wr blk s)\<lparr>vio_hist := vh, procs := ps\<rparr>)) e \<and> ps p = procs s p"
proof -
  let ?L = "locked LDisk s" let ?a = "asleep ?L p (ChDisk b) LDisk"
  have "request ?a = Some (h, b, wr, blk, h)" using req request_cong [of ?a s] by (simp add: asleep_def)
  then obtain vh ps where t: "disk_turn dev p ?a [] = Ret () ((served h b wr blk ?a)\<lparr>vio_hist := vh, procs := ps\<rparr>) []"
      "ps p = (procs ?a p)\<lparr>p_state := RUNNING\<rparr>"
    using disk_turn_apply [OF asleep_locked [OF r, of b], of h wr blk "[]"] h idx info by (auto simp: asleep_def)
  have tu: "turn dev ?a = (served h b wr blk ?a)\<lparr>vio_hist := vh, procs := ps\<rparr>"
    using t(1) r asleep_locked [OF r, of b] by (simp add: turn_def waiting_def)
  let ?v = "served h b wr blk s"
  have u: "(served h b wr blk ?a)\<lparr>vio_hist := vh, procs := ps\<rparr> =
      ?a\<lparr>bufs := bufs ?v, disk := disk ?v, vdisk := vdisk ?v, vio_hist := vh, procs := ps\<rparr>"
    by (simp add: served_def transfer_def asleep_def Let_def)
  have pp: "ps p = (procs s p)\<lparr>p_chan := Some (ChDisk b), p_state := RUNNING\<rparr>" using t(2) by (simp add: asleep_def)
  note aw = awake_locked [where p = p and s = s and ch = "ChDisk b" and ps = ps, OF r u pp]
  have rs: "resumed (turn dev ?a) p LDisk" unfolding tu by (rule aw(2))
  have "sleep (ChDisk b) LDisk ?L (turn dev # e) =
      Ret () (awake (turn dev ?a) (c_intena (cpus ?L (cid (harts ?L) (cur ?L)))) p LDisk) e"
    by (rule sleep_exact(2) [where f = "turn dev", OF ready_locked [OF r] rs]) simp_all
  then have sl: "sleep (ChDisk b) LDisk ?L (turn dev # e) =
      Ret () (locked LDisk (s\<lparr>bufs := bufs ?v, disk := disk ?v, vdisk := vdisk ?v, vio_hist := vh, procs := ps(p := procs s p)\<rparr>)) e"
    unfolding tu aw(1) .
  have e: "s\<lparr>bufs := bufs ?v, disk := disk ?v, vdisk := vdisk ?v, vio_hist := vh, procs := ps(p := procs s p)\<rparr> =
      ?v\<lparr>vio_hist := vh, procs := ps(p := procs s p)\<rparr>"
    by (simp add: served_def transfer_def Let_def)
  have nd: "\<not> b_disk (bufs ?v b)" by (simp add: served_def Let_def)
  note sl' = sl [unfolded e]
  have "rw_wait b ?L (turn dev # e) = Ret () (locked LDisk (?v\<lparr>vio_hist := vh, procs := ps(p := procs s p)\<rparr>)) e"
    using bd nd by (simp add: rw_wait_def wait_loop_def getbuf_def bind_apply gets_apply ret_apply sl')
  then show ?thesis by (intro exI conjI) (assumption, simp)
qed

end

lemma unat_double:
  assumes "unat (x :: uint32) < 2 ^ 31"
  shows "unat (ucast (x * 2) :: uint64) div 2 = unat x"
proof -
  have "unat (x * 2) = unat x * 2" using assms by (subst unat_mult_lem [THEN iffD1]) simp_all
  moreover have "unat x * 2 < 2 ^ 64" using assms by simp
  ultimately show ?thesis by (simp add: unsigned_ucast_eq take_bit_nat_eq_self)
qed

lemma rw_clean_apply:
  assumes "settled s" and "plocks_free s" and "lock_free (locks s LDisk)" and "\<forall>i < 3. \<not> d_free (disk s) i"
    and "vd_flags (d_desc (disk s) 0) = 1" "vd_next (d_desc (disk s) 0) = 1"
    and "vd_flags (d_desc (disk s) 1) AND 1 \<noteq> 0" "vd_next (d_desc (disk s) 1) = 2" and "vd_flags (d_desc (disk s) 2) = 2"
  shows "rw_clean (locked LDisk s) e = Ret () (s\<lparr>procs := wakes ChDescs s, disk := (disk s)\<lparr>d_info_b := (d_info_b (disk s))(0 := None),
    d_desc := (d_desc (disk s))(0 := virtq_desc0, 1 := virtq_desc0, 2 := virtq_desc0),
    d_free := (d_free (disk s))(0 := True, 1 := True, 2 := True)\<rparr>\<rparr>) e"
  using assms
  by (simp add: rw_clean_def kmon_simps upd_disk_def locked_updates free_chain_apply)

context block_device
begin

lemma virtio_disk_rw_apply:
  assumes r: "ready s p" and i: "idle_disk s" and blk: "unat (b_blockno (bufs s b)) < 2 ^ 31"
  shows "\<exists>t. virtio_disk_rw b wr s (turn dev # e) = Ret () t e \<and> rw_result p b wr (unat (b_blockno (bufs s b))) s t"
    and "\<exists>t. virtio_disk_rw b wr s [] = Blocked t \<and> vdisk t = vdisk s"
proof -
  let ?sec = "ucast (b_blockno (bufs s b) * 2) :: uint64" let ?S = "submitted b wr ?sec (descs_taken s)"
  let ?blk = "unat (b_blockno (bufs s b))"
  have rS: "ready ?S p" using r by (simp add: submitted_def descs_taken_def)
  have bd: "b_disk (bufs ?S b)" by (simp add: submitted_def)
  note start = rw_until_wait [OF r i, of b wr]
  show "\<exists>t. virtio_disk_rw b wr s [] = Blocked t \<and> vdisk t = vdisk s"
    unfolding start bind_apply rw_wait_blocks [OF rS bd] by (simp add: asleep_def submitted_def descs_taken_def)
  have "request ?S = Some (0, b, wr, ?blk, 0)"
    using i request_submitted [of "descs_taken s" b wr ?sec] by (simp add: descs_taken_def idle_disk_def unat_double [OF blk])
  then obtain vh ps where w: "rw_wait b (locked LDisk ?S) (turn dev # e) =
      Ret () (locked LDisk ((served 0 b wr ?blk ?S)\<lparr>vio_hist := vh, procs := ps\<rparr>)) e" "ps p = procs s p"
    using rw_wait_apply [OF rS bd, of 0 wr ?blk e] i by (auto simp: submitted_def descs_taken_def idle_disk_def)
  let ?v = "(served 0 b wr ?blk ?S)\<lparr>vio_hist := vh, procs := ps\<rparr>"
  have rv: "ready ?v p" using rS w(2) by (subst ready_procs) (simp_all add: served_def transfer_def Let_def submitted_def descs_taken_def)
  have d: "rw_clean (locked LDisk ?v) e = Ret () (?v\<lparr>procs := wakes ChDescs ?v, disk := (disk ?v)\<lparr>d_info_b := (d_info_b (disk ?v))(0 := None),
    d_desc := (d_desc (disk ?v))(0 := virtq_desc0, 1 := virtq_desc0, 2 := virtq_desc0),
    d_free := (d_free (disk ?v))(0 := True, 1 := True, 2 := True)\<rparr>\<rparr>) e"
    using ready_simps(1,2,3) [OF rv]
    by (intro rw_clean_apply) (auto simp: served_def transfer_def Let_def submitted_def descs_taken_def)
  have pp: "wakes ChDescs ?v p = procs s p" using wakes_me [OF ready_simps(4) [OF rv], of ChDescs] w(2) by simp
  let ?t = "?v\<lparr>procs := wakes ChDescs ?v, disk := (disk ?v)\<lparr>d_info_b := (d_info_b (disk ?v))(0 := None),
    d_desc := (d_desc (disk ?v))(0 := virtq_desc0, 1 := virtq_desc0, 2 := virtq_desc0),
    d_free := (d_free (disk ?v))(0 := True, 1 := True, 2 := True)\<rparr>\<rparr>"
  have res: "rw_result p b wr ?blk s ?t"
    using pp i by (simp add: rw_result_def idle_disk_def served_def transfer_def Let_def submitted_def descs_taken_def)
  show "\<exists>t. virtio_disk_rw b wr s (turn dev # e) = Ret () t e \<and> rw_result p b wr ?blk s t"
    unfolding start bind_apply w(1) res.case d by (intro exI [of _ ?t] conjI refl res)
qed

end

text \<open>A device that does nothing but complete requests satisfies the interface.\<close>

definition virtio_dev :: "'a kern_scheme \<Rightarrow> 'a kern_scheme" where
  "virtio_dev s = (case request s of Some (h, b, wr, blk, j) \<Rightarrow> transfer h b wr blk j s | None \<Rightarrow> s)"

interpretation vdev: block_device virtio_dev
  by unfold_locales (simp add: virtio_dev_def)

end
