(* ===== verification/Cache.thy ===== *)
theory Cache
  imports Diskio
begin

text \<open>
  The buffer cache of one process that uses it: what \<open>bread\<close>, \<open>bwrite\<close>, \<open>brelse\<close>, \<open>bpin\<close> and \<open>bunpin\<close>
  do to the contents of the blocks and to the disk. The circular list of buffers is read as a
  list of indices; the sleep locks of the buffers are held for the blocks in use.
\<close>

section \<open>Sleep locks\<close>

lemma ready_slock [simp]: "ready (upd_slock lk f s) p = ready s p"
  by (simp add: upd_slock_def)

lemma acquiresleep_apply:
  assumes r: "ready s p" and "\<And>q. lk \<noteq> LProc q" and "sl_locked (slock s lk) = 0"
  shows "acquiresleep lk s e = Ret () (upd_slock lk (\<lambda>l. l\<lparr>sl_locked := 1, sl_pid := p_pid (procs s p)\<rparr>) s) e"
proof -
  note f = ready_simps [OF r]
  show ?thesis unfolding acquiresleep_def
    using assms(2,3) f by (simp add: kmon_simps wait_loop_def upd_slock_def curproc_def getp_def locked_updates)
qed

lemma releasesleep_apply:
  assumes r: "ready s p" and "\<And>q. lk \<noteq> LProc q"
  shows "releasesleep lk s e = Ret () ((upd_slock lk (\<lambda>l. l\<lparr>sl_locked := 0, sl_pid := 0\<rparr>) s)\<lparr>procs := wakes (ChSleep lk) s\<rparr>) e"
proof -
  note f = ready_simps [OF r]
  show ?thesis unfolding releasesleep_def
    using assms(2) [THEN not_sym] f by (simp add: kmon_simps upd_slock_def locked_updates)
qed

lemma holdingsleep_apply:
  assumes r: "ready s p" and "\<And>q. lk \<noteq> LProc q"
  shows "holdingsleep lk s e = Ret (sl_locked (slock s lk) \<noteq> 0 \<and> sl_pid (slock s lk) = p_pid (procs s p)) s e"
proof -
  note f = ready_simps [OF r]
  show ?thesis unfolding holdingsleep_def
    using assms(2) f by (cases "sl_locked (slock s lk) = 0") (simp_all add: kmon_simps curproc_def getp_def)
qed

section \<open>The list of buffers\<close>

fun chain :: "(bref \<Rightarrow> bref) \<Rightarrow> bref \<Rightarrow> nat list \<Rightarrow> bref \<Rightarrow> bool" where
  "chain nx r [] r' \<longleftrightarrow> nx r = r'"
| "chain nx r (b # bs) r' \<longleftrightarrow> nx r = B b \<and> chain nx (B b) bs r'"

definition lru :: "'a diskst_scheme \<Rightarrow> nat list \<Rightarrow> bool" where
  "lru s bl \<longleftrightarrow> distinct bl \<and> set bl = {..<NBUF} \<and> chain (\<lambda>r. get_next r s) BHead bl BHead \<and>
     chain (\<lambda>r. get_prev r s) BHead (rev bl) BHead"

lemma chain_append: "chain nx r (bs @ cs) r' \<longleftrightarrow> chain nx r bs (case cs of [] \<Rightarrow> r' | c # _ \<Rightarrow> B c) \<and>
    (case cs of [] \<Rightarrow> True | c # cs' \<Rightarrow> chain nx (B c) cs' r')"
  by (induction bs arbitrary: r) (auto split: list.splits)

lemma chain_cong:
  "(\<And>q. q = r \<or> (\<exists>b \<in> set bs. q = B b) \<Longrightarrow> nx q = nx' q) \<Longrightarrow> chain nx r bs r' = chain nx' r bs r'"
  by (induction bs arbitrary: r) auto

lemma bget_hit_apply:
  "bget_hit dev blk BHead s e = Ret (Inr None) s e"
  "bget_hit dev blk (B b) s e = Ret (if b_dev (bufs s b) = dev \<and> b_blockno (bufs s b) = blk then Inr (Some b) else Inl (get_next (B b) s)) s e"
  by (simp_all add: bget_hit_def ret_apply bind_apply getbuf_def gets_apply get_next_def)

lemma bget_lru_apply:
  "bget_lru BHead s e = Ret (Inr None) s e"
  "bget_lru (B b) s e = Ret (if b_refcnt (bufs s b) = 0 then Inr (Some b) else Inl (get_prev (B b) s)) s e"
  by (simp_all add: bget_lru_def ret_apply bind_apply getbuf_def gets_apply get_prev_def)

lemma scan_hit:
  assumes "chain (\<lambda>r. get_next r s) r bs BHead"
  shows "loop (Suc (length bs + k)) (bget_hit dev blk) (get_next r s) s e =
    Ret (find (\<lambda>b. b_dev (bufs s b) = dev \<and> b_blockno (bufs s b) = blk) bs) s e"
  using assms
proof (induction bs arbitrary: r)
  case Nil
  then show ?case by (simp add: bget_hit_apply bind_apply ret_apply)
next
  case (Cons b bs)
  have n: "get_next r s = B b" "chain (\<lambda>r. get_next r s) (B b) bs BHead" using Cons.prems by simp_all
  show ?case unfolding n(1) list.size add_Suc_right add_Suc loop.simps(2) [of "Suc _"] bind_apply bget_hit_apply res.case
    using Cons.IH [OF n(2)] by (simp add: ret_apply del: loop.simps)
qed

lemma scan_lru:
  assumes "chain (\<lambda>r. get_prev r s) r bs BHead"
  shows "loop (Suc (length bs + k)) bget_lru (get_prev r s) s e = Ret (find (\<lambda>b. b_refcnt (bufs s b) = 0) bs) s e"
  using assms
proof (induction bs arbitrary: r)
  case Nil
  then show ?case by (simp add: bget_lru_apply bind_apply ret_apply)
next
  case (Cons b bs)
  have n: "get_prev r s = B b" "chain (\<lambda>r. get_prev r s) (B b) bs BHead" using Cons.prems by simp_all
  show ?case unfolding n(1) list.size add_Suc_right add_Suc loop.simps(2) [of "Suc _"] bind_apply bget_lru_apply res.case
    using Cons.IH [OF n(2)] by (simp add: ret_apply del: loop.simps)
qed

lemma lru_length: "lru s bl \<Longrightarrow> length bl = NBUF"
  using distinct_card [of bl] by (simp add: lru_def)

text \<open>Only the links matter.\<close>

lemma lru_cong:
  assumes "\<And>b. b_next (bufs t b) = b_next (bufs s b) \<and> b_prev (bufs t b) = b_prev (bufs s b)"
    and "bhead_next t = bhead_next s" and "bhead_prev t = bhead_prev s"
  shows "lru t bl = lru s bl"
proof -
  have "get_next r t = get_next r s" "get_prev r t = get_prev r s" for r
    using assms by (cases r; simp add: get_next_def get_prev_def)+
  then show ?thesis by (simp add: lru_def)
qed

lemma lru_locked [simp]: "lru (locked lk s) bl = lru s bl"
  by (rule lru_cong) simp_all

text \<open>Taking an element out of a chain and putting one at either end.\<close>

definition end_of :: "nat list \<Rightarrow> bref" where
  "end_of xs = (if xs = [] then BHead else B (last xs))"

lemma end_of_simps [simp]: "end_of [] = BHead" "end_of (xs @ [x]) = B x" "end_of (x # xs) = (if xs = [] then B x else end_of xs)"
  by (simp_all add: end_of_def)

lemma end_of_in: "end_of xs = B b \<Longrightarrow> b \<in> set xs"
  by (auto simp: end_of_def split: if_splits)

lemma chain_end: "chain nx BHead xs r \<Longrightarrow> nx (end_of xs) = r"
  by (induction xs rule: rev_induct) (auto simp: chain_append)

lemma chain_unlink:
  assumes "chain nx BHead (xs @ b # ys) BHead" and "distinct (xs @ b # ys)"
  shows "chain (nx(end_of xs := nx (B b))) BHead (xs @ ys) BHead" and "nx (end_of xs) = B b" and "nx (B b) = (case ys of [] \<Rightarrow> BHead | y # _ \<Rightarrow> B y)"
proof -
  have c: "chain nx BHead xs (B b)" "chain nx (B b) ys BHead" using assms(1) by (simp_all add: chain_append)
  show "nx (end_of xs) = B b" using chain_end [OF c(1)] .
  show n: "nx (B b) = (case ys of [] \<Rightarrow> BHead | y # _ \<Rightarrow> B y)" using c(2) by (cases ys) simp_all
  have xs: "chain (nx(end_of xs := x)) BHead xs x" for x using c(1) assms(2)
  proof (induction xs rule: rev_induct)
    case (snoc a xs)
    have "chain (nx(B a := x)) BHead xs (B a) = chain nx BHead xs (B a)"
      by (rule chain_cong) (use snoc.prems in auto)
    then show ?case using snoc.prems by (simp add: chain_append fun_upd_def)
  qed simp
  have ys: "chain (nx(end_of xs := x)) (B y) zs BHead = chain nx (B y) zs BHead" if "ys = y # zs" for x y zs
    by (rule chain_cong) (use assms(2) that end_of_in [of xs] in \<open>auto simp del: end_of_simps\<close>)
  show "chain (nx(end_of xs := nx (B b))) BHead (xs @ ys) BHead"
    using xs [of "nx (B b)"] c(2) ys n by (cases ys) (simp_all add: chain_append)
qed

lemma chain_push:
  assumes "chain nx BHead zs BHead" and "b \<notin> set zs"
  shows "chain (nx(B b := nx BHead, BHead := B b)) BHead (b # zs) BHead"
proof (cases zs)
  case (Cons z ws)
  have "chain (nx(B b := nx BHead, BHead := B b)) (B z) ws BHead = chain nx (B z) ws BHead"
    by (rule chain_cong) (use assms(2) Cons in auto)
  then show ?thesis using assms(1) Cons by simp
qed (use assms in simp)

lemma chain_snoc:
  assumes "chain nx BHead ws BHead" and "b \<notin> set ws" and "distinct ws"
  shows "chain (nx(B b := BHead, end_of ws := B b)) BHead (ws @ [b]) BHead"
proof (cases ws rule: rev_cases)
  case (snoc us a)
  have "chain (nx(B b := BHead, B a := B b)) BHead us (B a) = chain nx BHead us (B a)"
    by (rule chain_cong) (use assms(2,3) snoc in auto)
  then show ?thesis using assms snoc by (simp add: chain_append)
qed (use assms in simp)

definition put_next :: "bref \<Rightarrow> bref \<Rightarrow> 'a diskst_scheme \<Rightarrow> 'a diskst_scheme" where
  "put_next r x s = (case r of BHead \<Rightarrow> s\<lparr>bhead_next := x\<rparr> | B b \<Rightarrow> s\<lparr>bufs := (bufs s)(b := (bufs s b)\<lparr>b_next := x\<rparr>)\<rparr>)"

definition put_prev :: "bref \<Rightarrow> bref \<Rightarrow> 'a diskst_scheme \<Rightarrow> 'a diskst_scheme" where
  "put_prev r x s = (case r of BHead \<Rightarrow> s\<lparr>bhead_prev := x\<rparr> | B b \<Rightarrow> s\<lparr>bufs := (bufs s)(b := (bufs s b)\<lparr>b_prev := x\<rparr>)\<rparr>)"

lemma set_link_apply: "set_next r x s e = Ret () (put_next r x s) e" "set_prev r x s e = Ret () (put_prev r x s) e"
  by (cases r; simp add: set_next_def set_prev_def put_next_def put_prev_def modify_apply upd_buf_def)+

lemma get_put [simp]:
  "(\<lambda>q. get_next q (put_next r x s)) = (\<lambda>q. get_next q s)(r := x)" "get_next q (put_prev r x s) = get_next q s"
  "(\<lambda>q. get_prev q (put_prev r x s)) = (\<lambda>q. get_prev q s)(r := x)" "get_prev q (put_next r x s) = get_prev q s"
  by (auto simp: get_next_def get_prev_def put_next_def put_prev_def fun_eq_iff split: bref.splits)

lemma get_put_apply: "get_next q (put_next r x s) = (if q = r then x else get_next q s)"
  "get_prev q (put_prev r x s) = (if q = r then x else get_prev q s)"
  by (auto simp: get_next_def get_prev_def put_next_def put_prev_def split: bref.splits)

definition to_front :: "nat \<Rightarrow> 'a diskst_scheme \<Rightarrow> 'a diskst_scheme" where
  "to_front b s = (let n = get_next (B b) s; p = get_prev (B b) s;
     t = put_next p n (put_prev n p s); f = get_next BHead t
     in put_next BHead (B b) (put_prev f (B b) (put_prev (B b) BHead (put_next (B b) f t))))"

lemma lru_to_front:
  assumes "lru s bl" and "b < NBUF"
  shows "\<exists>bl'. lru (to_front b s) bl'"
proof -
  obtain xs ys where bl: "bl = xs @ b # ys" using assms split_list [of b bl] by (auto simp: lru_def)
  have d: "distinct (xs @ b # ys)" "chain (\<lambda>r. get_next r s) BHead (xs @ b # ys) BHead"
      "chain (\<lambda>r. get_prev r s) BHead (rev ys @ b # rev xs) BHead" "set bl = {..<NBUF}"
    using assms(1) bl by (simp_all add: lru_def)
  have d': "distinct (rev ys @ b # rev xs)" using d(1) by auto
  note nx = chain_unlink [OF d(2,1)] and pv = chain_unlink [OF d(3) d']
  have n: "get_next (B b) s = end_of (rev ys)" using nx(3) by (cases ys) simp_all
  have p: "get_prev (B b) s = end_of xs" using pv(3) by (cases xs rule: rev_cases) simp_all
  let ?t = "put_next (end_of xs) (end_of (rev ys)) (put_prev (end_of (rev ys)) (end_of xs) s)"
  have tn: "chain (\<lambda>r. get_next r ?t) BHead (xs @ ys) BHead" using nx(1) n by simp
  have tp: "chain (\<lambda>r. get_prev r ?t) BHead (rev (xs @ ys)) BHead" using pv(1) p by simp
  have f: "get_next BHead ?t = end_of (rev (xs @ ys))"
    using tn by (cases "xs @ ys") (simp_all only: chain.simps rev.simps end_of_simps)
  let ?u = "to_front b s"
  have u: "(\<lambda>q. get_next q ?u) = (\<lambda>q. get_next q ?t)(B b := get_next BHead ?t, BHead := B b)"
    "(\<lambda>q. get_prev q ?u) = (\<lambda>q. get_prev q ?t)(B b := BHead, end_of (rev (xs @ ys)) := B b)"
    unfolding to_front_def Let_def n p f by simp_all
  have "lru ?u (b # xs @ ys)"
    unfolding lru_def u
    using chain_push [OF tn, of b] chain_snoc [OF tp, of b] d(1,4) bl by auto
  then show ?thesis ..
qed

section \<open>What the cache holds\<close>

text \<open>
  The view of the process: the buffers it holds and their blocks, the blocks pinned by the log, the contents of
  the blocks as file system code sees them, the contents of the disk, and the log's own state.
\<close>

record view =
  v_held :: "nat \<Rightarrow> uint32 option"
  v_pins :: "uint32 set"
  v_data :: "uint32 \<Rightarrow> uint8 list"
  v_disk :: "nat \<Rightarrow> uint8 list"
  v_log :: log

definition refs :: "uint32 \<Rightarrow> view \<Rightarrow> buf \<Rightarrow> nat \<Rightarrow> uint32" where
  "refs dv v k b = of_bool (b_dev k = dv \<and> b_blockno k \<in> v_pins v) + of_bool (v_held v b \<noteq> None)"

definition buf_ok :: "bool \<Rightarrow> uint32 \<Rightarrow> view \<Rightarrow> int \<Rightarrow> nat \<Rightarrow> buf \<Rightarrow> sleeplock \<Rightarrow> bool" where
  "buf_ok fresh dv v pid b k l \<longleftrightarrow>
     (case v_held v b of None \<Rightarrow> sl_locked l = 0
      | Some x \<Rightarrow> b_dev k = dv \<and> b_blockno k = x \<and> (fresh \<or> b_valid k) \<and> sl_locked l \<noteq> 0 \<and> sl_pid l = pid) \<and>
     b_refcnt k = refs dv v k b \<and>
     (b_dev k = dv \<and> b_valid k \<longrightarrow> b_data k = v_data v (b_blockno k)) \<and>
     (b_dev k = dv \<and> b_blockno k \<in> v_pins v \<longrightarrow> b_valid k)"

definition bufs_ok :: "nat set \<Rightarrow> uint32 \<Rightarrow> view \<Rightarrow> int \<Rightarrow> (nat \<Rightarrow> buf) \<Rightarrow> (nat \<Rightarrow> sleeplock) \<Rightarrow> bool" where
  "bufs_ok E dv v pid bs ls \<longleftrightarrow> dom (v_held v) \<subseteq> {..<NBUF} \<and> finite (v_pins v) \<and>
     (\<forall>b < NBUF. buf_ok (b \<in> E) dv v pid b (bs b) (ls b)) \<and>
     (\<forall>a < NBUF. \<forall>b < NBUF. b_dev (bs a) = dv \<and> b_dev (bs b) = dv \<and> b_blockno (bs a) = b_blockno (bs b) \<longrightarrow> a = b) \<and>
     (\<forall>x \<in> v_pins v. \<exists>b < NBUF. b_dev (bs b) = dv \<and> b_blockno (bs b) = x) \<and>
     (\<forall>x. x \<notin> v_pins v \<and> x \<notin> ran (v_held v) \<longrightarrow> v_data v x = v_disk v (unat x))"

definition cache :: "nat set \<Rightarrow> nat \<Rightarrow> uint32 \<Rightarrow> view \<Rightarrow> 'a kern_scheme \<Rightarrow> bool" where
  "cache E p dv v s \<longleftrightarrow> ready s p \<and> idle_disk s \<and> (\<exists>bl. lru s bl) \<and> vdisk s = v_disk v \<and> klog s = v_log v \<and>
     bufs_ok E dv v (p_pid (procs s p)) (bufs s) (\<lambda>b. slock s (LBuf b))"

lemma free_buffer:
  assumes "bufs_ok E dv v pid bs ls" and "card (v_pins v) + card (dom (v_held v)) < NBUF"
  shows "\<exists>b < NBUF. b_refcnt (bs b) = 0"
proof (rule ccontr)
  assume no: "\<not> ?thesis"
  let ?P = "{b. b < NBUF \<and> b_dev (bs b) = dv \<and> b_blockno (bs b) \<in> v_pins v}"
  have "b \<in> dom (v_held v) \<union> ?P" if "b < NBUF" for b
    using that no assms(1) unfolding bufs_ok_def buf_ok_def refs_def by (cases "v_held v b") auto
  then have "{..<NBUF} \<subseteq> dom (v_held v) \<union> ?P" by auto
  moreover have f: "finite (dom (v_held v))" "finite ?P"
    using assms(1) finite_subset [of "dom (v_held v)" "{..<NBUF}"] by (auto simp: bufs_ok_def)
  ultimately have "card {..<NBUF} \<le> card (dom (v_held v)) + card ?P"
    by (meson card_Un_le card_mono finite_UnI order_trans)
  moreover have "card ?P \<le> card (v_pins v)"
  proof (rule card_inj_on_le [of "\<lambda>b. b_blockno (bs b)"])
    show "inj_on (\<lambda>b. b_blockno (bs b)) ?P" using assms(1) unfolding bufs_ok_def inj_on_def by blast
  qed (use assms(1) in \<open>auto simp: bufs_ok_def\<close>)
  ultimately show False using assms(2) by simp
qed


lemma bufs_okD:
  assumes "bufs_ok E dv v pid bs ls"
  shows "\<And>b x. v_held v b = Some x \<Longrightarrow> b < NBUF"
    and "\<And>b x. v_held v b = Some x \<Longrightarrow> b_dev (bs b) = dv \<and> b_blockno (bs b) = x \<and> (b \<in> E \<or> b_valid (bs b)) \<and> sl_locked (ls b) \<noteq> 0 \<and> sl_pid (ls b) = pid"
    and "\<And>b. b < NBUF \<Longrightarrow> v_held v b = None \<Longrightarrow> sl_locked (ls b) = 0"
    and "\<And>b. b < NBUF \<Longrightarrow> b_refcnt (bs b) = refs dv v (bs b) b"
    and "\<And>b. b < NBUF \<Longrightarrow> b_dev (bs b) = dv \<Longrightarrow> b_valid (bs b) \<Longrightarrow> b_data (bs b) = v_data v (b_blockno (bs b))"
    and "\<And>b. b < NBUF \<Longrightarrow> b_dev (bs b) = dv \<Longrightarrow> b_blockno (bs b) \<in> v_pins v \<Longrightarrow> b_valid (bs b)"
    and "\<And>a b. a < NBUF \<Longrightarrow> b < NBUF \<Longrightarrow> b_dev (bs a) = dv \<Longrightarrow> b_dev (bs b) = dv \<Longrightarrow> b_blockno (bs a) = b_blockno (bs b) \<Longrightarrow> a = b"
    and "\<And>x. x \<in> v_pins v \<Longrightarrow> \<exists>b < NBUF. b_dev (bs b) = dv \<and> b_blockno (bs b) = x"
    and "\<And>x. x \<notin> v_pins v \<Longrightarrow> x \<notin> ran (v_held v) \<Longrightarrow> v_data v x = v_disk v (unat x)"
proof -
  show l: "b < NBUF" if "v_held v b = Some x" for b x using assms that by (auto simp: bufs_ok_def)
  have k: "buf_ok (b \<in> E) dv v pid b (bs b) (ls b)" if "b < NBUF" for b using assms that by (simp add: bufs_ok_def)
  show "b_dev (bs b) = dv \<and> b_blockno (bs b) = x \<and> (b \<in> E \<or> b_valid (bs b)) \<and> sl_locked (ls b) \<noteq> 0 \<and> sl_pid (ls b) = pid"
    if "v_held v b = Some x" for b x using k [OF l [OF that]] that by (simp add: buf_ok_def)
  show "sl_locked (ls b) = 0" if "b < NBUF" "v_held v b = None" for b using k [OF that(1)] that(2) by (simp add: buf_ok_def)
  show "b_refcnt (bs b) = refs dv v (bs b) b" if "b < NBUF" for b using k [OF that] by (simp add: buf_ok_def)
  show "b_data (bs b) = v_data v (b_blockno (bs b))" if "b < NBUF" "b_dev (bs b) = dv" "b_valid (bs b)" for b
    using k [OF that(1)] that by (simp add: buf_ok_def)
  show "b_valid (bs b)" if "b < NBUF" "b_dev (bs b) = dv" "b_blockno (bs b) \<in> v_pins v" for b
    using k [OF that(1)] that by (simp add: buf_ok_def)
qed (use assms in \<open>auto simp: bufs_ok_def\<close>)

lemma bufs_ok_fin: "bufs_ok E dv v pid bs ls \<Longrightarrow> finite (v_pins v)"
  by (simp add: bufs_ok_def)

lemma bufs_okI:
  assumes "\<And>b x. v_held v b = Some x \<Longrightarrow> b < NBUF" and "finite (v_pins v)"
    and "\<And>b. b < NBUF \<Longrightarrow> buf_ok (b \<in> E) dv v pid b (bs b) (ls b)"
    and "\<And>a b. a < NBUF \<Longrightarrow> b < NBUF \<Longrightarrow> b_dev (bs a) = dv \<Longrightarrow> b_dev (bs b) = dv \<Longrightarrow> b_blockno (bs a) = b_blockno (bs b) \<Longrightarrow> a = b"
    and "\<And>x. x \<in> v_pins v \<Longrightarrow> \<exists>b < NBUF. b_dev (bs b) = dv \<and> b_blockno (bs b) = x"
    and "\<And>x. x \<notin> v_pins v \<Longrightarrow> x \<notin> ran (v_held v) \<Longrightarrow> v_data v x = v_disk v (unat x)"
  shows "bufs_ok E dv v pid bs ls"
  using assms unfolding bufs_ok_def by blast

lemma hold_hit:
  assumes ok: "bufs_ok {} dv v pid bs ls" and b: "b < NBUF" "b_dev (bs b) = dv" "b_blockno (bs b) = x" and n: "v_held v b = None"
    and l: "sl_locked l \<noteq> 0" "sl_pid l = pid"
  shows "bufs_ok {b} dv (v\<lparr>v_held := (v_held v)(b \<mapsto> x)\<rparr>) pid (bs(b := (bs b)\<lparr>b_refcnt := b_refcnt (bs b) + 1\<rparr>)) (ls(b := l))"
proof -
  note D = bufs_okD [OF ok]
  let ?bs = "bs(b := (bs b)\<lparr>b_refcnt := b_refcnt (bs b) + 1\<rparr>)"
  show ?thesis
  proof (rule bufs_okI)
    show "buf_ok (c \<in> {b}) dv (v\<lparr>v_held := (v_held v)(b \<mapsto> x)\<rparr>) pid c (?bs c) ((ls(b := l)) c)" if "c < NBUF" for c
      using that b n l D(2) [of c] D(3) [of c] D(4) [of c] D(5) [of c] D(6) [of c]
      by (cases "v_held v c") (auto simp: buf_ok_def refs_def)
    show "c = d" if "c < NBUF" "d < NBUF" "b_dev (?bs c) = dv" "b_dev (?bs d) = dv" "b_blockno (?bs c) = b_blockno (?bs d)" for c d
      using that D(7) [of c d] by (auto split: if_splits)
    show "\<exists>c < NBUF. b_dev (?bs c) = dv \<and> b_blockno (?bs c) = y" if "y \<in> v_pins (v\<lparr>v_held := (v_held v)(b \<mapsto> x)\<rparr>)" for y
      using D(8) [of y] that by auto
  qed (use D(1,9) b(1) n bufs_ok_fin [OF ok] in \<open>auto split: if_splits\<close>)
qed

lemma hold_miss:
  assumes ok: "bufs_ok {} dv v pid bs ls" and b: "b < NBUF" "b_refcnt (bs b) = 0"
    and x: "\<And>c. c < NBUF \<Longrightarrow> b_dev (bs c) = dv \<Longrightarrow> b_blockno (bs c) \<noteq> x" and l: "sl_locked l \<noteq> 0" "sl_pid l = pid"
  shows "bufs_ok {b} dv (v\<lparr>v_held := (v_held v)(b \<mapsto> x)\<rparr>) pid
    (bs(b := (bs b)\<lparr>b_dev := dv, b_blockno := x, b_valid := False, b_refcnt := 1\<rparr>)) (ls(b := l))" and "v_held v b = None" and "x \<notin> v_pins v"
proof -
  note D = bufs_okD [OF ok]
  show xp: "x \<notin> v_pins v" using D(8) [of x] x by blast
  have r: "refs dv v (bs b) b = 0" using D(4) [OF b(1)] b(2) by simp
  show n: "v_held v b = None" using r by (auto simp: refs_def of_bool_def split: if_splits)
  have np: "b_dev (bs b) = dv \<Longrightarrow> b_blockno (bs b) \<notin> v_pins v" using r by (auto simp: refs_def of_bool_def split: if_splits)
  let ?bs = "bs(b := (bs b)\<lparr>b_dev := dv, b_blockno := x, b_valid := False, b_refcnt := 1\<rparr>)"
  show "bufs_ok {b} dv (v\<lparr>v_held := (v_held v)(b \<mapsto> x)\<rparr>) pid ?bs (ls(b := l))"
  proof (rule bufs_okI)
    show "buf_ok (c \<in> {b}) dv (v\<lparr>v_held := (v_held v)(b \<mapsto> x)\<rparr>) pid c (?bs c) ((ls(b := l)) c)" if "c < NBUF" for c
      using that b n l xp D(2) [of c] D(3) [of c] D(4) [of c] D(5) [of c] D(6) [of c]
      by (cases "v_held v c") (auto simp: buf_ok_def refs_def)
    show "c = d" if "c < NBUF" "d < NBUF" "b_dev (?bs c) = dv" "b_dev (?bs d) = dv" "b_blockno (?bs c) = b_blockno (?bs d)" for c d
      using that D(7) [of c d] x [of c] x [of d] by (auto split: if_splits)
    show "\<exists>c < NBUF. b_dev (?bs c) = dv \<and> b_blockno (?bs c) = y" if y: "y \<in> v_pins (v\<lparr>v_held := (v_held v)(b \<mapsto> x)\<rparr>)" for y
    proof -
      obtain c where "c < NBUF" "b_dev (bs c) = dv" "b_blockno (bs c) = y" using D(8) [of y] y by auto
      moreover from this have "c \<noteq> b" using np y by auto
      ultimately show ?thesis by (intro exI [of _ c]) simp
    qed
  qed (use D(1,9) b(1) n bufs_ok_fin [OF ok] in \<open>auto split: if_splits\<close>)
qed

lemma get_link_locked [simp]: "get_next r (locked lk s) = get_next r s" "get_prev r (locked lk s) = get_prev r s"
  by (cases r; simp add: get_next_def get_prev_def)+

lemma slock_LBuf: "(\<lambda>c. slock (upd_slock (LBuf b) f s) (LBuf c)) = (\<lambda>c. slock s (LBuf c))(b := f (slock s (LBuf b)))"
  by (auto simp: upd_slock_def)

lemma cache_change:
  assumes "cache E p dv v s" and "ready t p" and "idle_disk t" and "\<And>bl. lru s bl \<Longrightarrow> \<exists>bl'. lru t bl'"
    and "vdisk t = v_disk v'" and "klog t = v_log v'" and "procs t p = procs s p"
    and "bufs_ok E' dv v' (p_pid (procs s p)) (bufs t) (\<lambda>b. slock t (LBuf b))"
  shows "cache E' p dv v' t"
  using assms unfolding cache_def by auto

lemma bget_hit_case:
  assumes c: "cache {} p dv v s" and b: "b < NBUF" "b_dev (bufs s b) = dv" "b_blockno (bufs s b) = x" and n: "v_held v b = None"
  shows "\<exists>t. bind (upd_buf b (\<lambda>k. k\<lparr>b_refcnt := b_refcnt k + 1\<rparr>)) (\<lambda>_.
       bind (release LBcache) (\<lambda>_. bind (acquiresleep (LBuf b)) (\<lambda>_. ret b))) (locked LBcache s) e = Ret b t e \<and>
      cache {b} p dv (v\<lparr>v_held := (v_held v)(b \<mapsto> x)\<rparr>) t \<and> b_valid (bufs t b) = b_valid (bufs s b)"
proof -
  have r: "ready s p" and bo: "bufs_ok {} dv v (p_pid (procs s p)) (bufs s) (\<lambda>b. slock s (LBuf b))" using c by (simp_all add: cache_def)
  note f = ready_simps [OF r]
  let ?s = "s\<lparr>bufs := (bufs s)(b := (bufs s b)\<lparr>b_refcnt := b_refcnt (bufs s b) + 1\<rparr>)\<rparr>"
  let ?t = "upd_slock (LBuf b) (\<lambda>l. l\<lparr>sl_locked := 1, sl_pid := p_pid (procs s p)\<rparr>) ?s"
  have "acquiresleep (LBuf b) ?s e = Ret () ?t e"
    using acquiresleep_apply [of ?s p "LBuf b" e] r bufs_okD(3) [OF bo b(1) n] by simp
  moreover have "release LBcache (locked LBcache ?s) e = Ret () ?s e" using f by (intro release_locked) simp_all
  moreover have "upd_buf b (\<lambda>k. k\<lparr>b_refcnt := b_refcnt k + 1\<rparr>) (locked LBcache s) e = Ret () (locked LBcache ?s) e"
    by (simp add: upd_buf_def modify_apply locked_updates)
  moreover have "cache {b} p dv (v\<lparr>v_held := (v_held v)(b \<mapsto> x)\<rparr>) ?t"
  proof (rule cache_change [OF c])
    show "bufs_ok {b} dv (v\<lparr>v_held := (v_held v)(b \<mapsto> x)\<rparr>) (p_pid (procs s p)) (bufs ?t) (\<lambda>b. slock ?t (LBuf b))"
      unfolding slock_LBuf using hold_hit [OF bo b n, of "(slock s (LBuf b))\<lparr>sl_locked := 1, sl_pid := p_pid (procs s p)\<rparr>"]
      by (simp add: upd_slock_def)
    show "\<exists>bl'. lru ?t bl'" if "lru s bl" for bl
      using that lru_cong [of ?t s bl] by (intro exI [of _ bl]) (simp add: upd_slock_def)
  qed (use c in \<open>simp_all add: cache_def upd_slock_def idle_disk_def\<close>)
  ultimately show ?thesis by (simp add: bind_apply ret_apply) (simp add: upd_slock_def)
qed

lemma bget_miss_case:
  assumes c: "cache {} p dv v s" and b: "b < NBUF" "b_refcnt (bufs s b) = 0"
    and x: "\<And>c. c < NBUF \<Longrightarrow> b_dev (bufs s c) = dv \<Longrightarrow> b_blockno (bufs s c) \<noteq> x"
  shows "\<exists>t. bind (upd_buf b (\<lambda>k. k\<lparr>b_dev := dv\<rparr>)) (\<lambda>_.
           bind (upd_buf b (\<lambda>k. k\<lparr>b_blockno := x\<rparr>)) (\<lambda>_.
           bind (upd_buf b (\<lambda>k. k\<lparr>b_valid := False\<rparr>)) (\<lambda>_.
           bind (upd_buf b (\<lambda>k. k\<lparr>b_refcnt := 1\<rparr>)) (\<lambda>_.
           bind (release LBcache) (\<lambda>_.
           bind (acquiresleep (LBuf b)) (\<lambda>_.
           ret b)))))) (locked LBcache s) e = Ret b t e \<and>
      cache {b} p dv (v\<lparr>v_held := (v_held v)(b \<mapsto> x)\<rparr>) t \<and> v_held v b = None \<and> x \<notin> v_pins v"
proof -
  have r: "ready s p" and bo: "bufs_ok {} dv v (p_pid (procs s p)) (bufs s) (\<lambda>b. slock s (LBuf b))" using c by (simp_all add: cache_def)
  note f = ready_simps [OF r]
  let ?s = "s\<lparr>bufs := (bufs s)(b := (bufs s b)\<lparr>b_dev := dv, b_blockno := x, b_valid := False, b_refcnt := 1\<rparr>)\<rparr>"
  let ?t = "upd_slock (LBuf b) (\<lambda>l. l\<lparr>sl_locked := 1, sl_pid := p_pid (procs s p)\<rparr>) ?s"
  note h = hold_miss [OF bo b x, of "(slock s (LBuf b))\<lparr>sl_locked := 1, sl_pid := p_pid (procs s p)\<rparr>"]
  have "acquiresleep (LBuf b) ?s e = Ret () ?t e"
    using acquiresleep_apply [of ?s p "LBuf b" e] r bufs_okD(3) [OF bo b(1)] h(2) by simp
  moreover have "release LBcache (locked LBcache ?s) e = Ret () ?s e" using f by (intro release_locked) simp_all
  moreover have "cache {b} p dv (v\<lparr>v_held := (v_held v)(b \<mapsto> x)\<rparr>) ?t"
  proof (rule cache_change [OF c])
    show "bufs_ok {b} dv (v\<lparr>v_held := (v_held v)(b \<mapsto> x)\<rparr>) (p_pid (procs s p)) (bufs ?t) (\<lambda>b. slock ?t (LBuf b))"
      unfolding slock_LBuf using h(1) by (simp add: upd_slock_def)
    show "\<exists>bl'. lru ?t bl'" if "lru s bl" for bl
      using that lru_cong [of ?t s bl] by (intro exI [of _ bl]) (simp add: upd_slock_def)
  qed (use c in \<open>simp_all add: cache_def upd_slock_def idle_disk_def\<close>)
  ultimately show ?thesis using h(2,3) by (simp add: bind_apply ret_apply upd_buf_def modify_apply locked_updates)
qed

lemma find_in: "find P xs = Some b \<Longrightarrow> b \<in> set xs \<and> P b"
  by (induction xs) (auto split: if_splits)

lemma bget_apply:
  assumes c: "cache {} p dv v s" and x: "x \<notin> ran (v_held v)" and room: "x \<in> v_pins v \<or> card (v_pins v) + card (dom (v_held v)) < NBUF"
  shows "\<exists>b t. bget dv x s e = Ret b t e \<and> cache {b} p dv (v\<lparr>v_held := (v_held v)(b \<mapsto> x)\<rparr>) t \<and> v_held v b = None \<and>
    (\<not> b_valid (bufs t b) \<longrightarrow> x \<notin> v_pins v)"
proof -
  have r: "ready s p" and bo: "bufs_ok {} dv v (p_pid (procs s p)) (bufs s) (\<lambda>b. slock s (LBuf b))" using c by (simp_all add: cache_def)
  note f = ready_simps [OF r]
  obtain bl where bl: "lru s bl" using c by (auto simp: cache_def)
  let ?L = "locked LBcache s" let ?P = "\<lambda>b. b_dev (bufs s b) = dv \<and> b_blockno (bufs s b) = x"
  have g: "get_next BHead s = bhead_next s" "get_prev BHead s = bhead_prev s" by (simp_all add: get_next_def get_prev_def)
  have hit: "loop (Suc NBUF) (bget_hit dv x) (bhead_next s) ?L e = Ret (find ?P bl) ?L e"
    using scan_hit [of ?L BHead bl 0 dv x e] bl lru_length [OF bl] g by (simp add: lru_def del: loop.simps)
  have miss: "loop (Suc NBUF) bget_lru (bhead_prev s) ?L e = Ret (find (\<lambda>b. b_refcnt (bufs s b) = 0) (rev bl)) ?L e"
    using scan_lru [of ?L BHead "rev bl" 0 e] bl lru_length [OF bl] g by (simp add: lru_def del: loop.simps)
  have start: "bget dv x s e = (case find ?P bl of
      Some b \<Rightarrow> bind (upd_buf b (\<lambda>k. k\<lparr>b_refcnt := b_refcnt k + 1\<rparr>)) (\<lambda>_.
         bind (release LBcache) (\<lambda>_. bind (acquiresleep (LBuf b)) (\<lambda>_. ret b)))
    | None \<Rightarrow> (case find (\<lambda>b. b_refcnt (bufs s b) = 0) (rev bl) of Some b \<Rightarrow>
         bind (upd_buf b (\<lambda>k. k\<lparr>b_dev := dv\<rparr>)) (\<lambda>_.
           bind (upd_buf b (\<lambda>k. k\<lparr>b_blockno := x\<rparr>)) (\<lambda>_.
           bind (upd_buf b (\<lambda>k. k\<lparr>b_valid := False\<rparr>)) (\<lambda>_.
           bind (upd_buf b (\<lambda>k. k\<lparr>b_refcnt := 1\<rparr>)) (\<lambda>_.
           bind (release LBcache) (\<lambda>_.
           bind (acquiresleep (LBuf b)) (\<lambda>_.
           ret b)))))) | None \<Rightarrow> panic ''bget: no buffers'')) ?L e"
    unfolding bget_def bind_apply acquire_locked [OF f(3)] res.case gets_apply locked_fields hit
    by (cases "find ?P bl") (simp_all only: option.case bind_apply gets_apply res.case locked_fields miss)
  show ?thesis
  proof (cases "find ?P bl")
    case (Some b)
    then have b: "b < NBUF" "b_dev (bufs s b) = dv" "b_blockno (bufs s b) = x"
      using find_in [OF Some] bl by (simp_all add: lru_def)
    have n: "v_held v b = None"
      using bufs_okD(2) [OF bo, of b] b(3) x by (cases "v_held v b") (auto simp: ran_def)
    obtain t where "bget dv x s e = Ret b t e" "cache {b} p dv (v\<lparr>v_held := (v_held v)(b \<mapsto> x)\<rparr>) t" "b_valid (bufs t b) = b_valid (bufs s b)"
      using bget_hit_case [OF c b n, of e] unfolding start Some option.case by blast
    then show ?thesis using n bufs_okD(6) [OF bo b(1,2)] b(3) by blast
  next
    case None
    have x': "b_blockno (bufs s c) \<noteq> x" if "c < NBUF" "b_dev (bufs s c) = dv" for c
      using None bl that by (auto simp: find_None_iff lru_def)
    then have "x \<notin> v_pins v" using bufs_okD(8) [OF bo, of x] by blast
    then obtain b0 where "b0 < NBUF" "b_refcnt (bufs s b0) = 0" using free_buffer [OF bo] room by blast
    then have "find (\<lambda>b. b_refcnt (bufs s b) = 0) (rev bl) \<noteq> None" using bl by (auto simp: find_None_iff lru_def)
    then obtain b where v: "find (\<lambda>b. b_refcnt (bufs s b) = 0) (rev bl) = Some b" by blast
    then have b: "b < NBUF" "b_refcnt (bufs s b) = 0" using find_in [OF v] bl by (simp_all add: lru_def)
    then show ?thesis using bget_miss_case [OF c b x', of e] unfolding start None v option.case by blast
  qed
qed


section \<open>Changes to a buffer in use\<close>

lemma bufs_ok_dom: "bufs_ok E dv v pid bs ls \<Longrightarrow> dom (v_held v) \<subseteq> {..<NBUF}"
  by (simp add: bufs_ok_def)

lemma bufs_ok_upd:
  assumes ok: "bufs_ok E dv v pid bs ls" and b: "b < NBUF" "b_dev (bs b) = dv" "b_blockno (bs b) = x"
    and k: "b_dev k = dv" "b_blockno k = x" and own: "buf_ok (b \<in> E') dv v' pid b k l"
    and others: "\<And>c. c \<noteq> b \<Longrightarrow> c < NBUF \<Longrightarrow> (b_dev (bs c) = dv \<Longrightarrow> b_blockno (bs c) \<noteq> x) \<Longrightarrow>
        buf_ok (c \<in> E) dv v pid c (bs c) (ls c) \<Longrightarrow> buf_ok (c \<in> E') dv v' pid c (bs c) (ls c)"
    and v': "dom (v_held v') \<subseteq> {..<NBUF}" "v_pins v' \<subseteq> insert x (v_pins v)"
      "\<And>y. y \<notin> v_pins v' \<Longrightarrow> y \<notin> ran (v_held v') \<Longrightarrow> v_data v' y = v_disk v' (unat y)"
  shows "bufs_ok E' dv v' pid (bs(b := k)) (ls(b := l))"
proof -
  note D = bufs_okD [OF ok]
  show ?thesis
  proof (rule bufs_okI)
    show "buf_ok (c \<in> E') dv v' pid c ((bs(b := k)) c) ((ls(b := l)) c)" if "c < NBUF" for c
    proof (cases "c = b")
      case False
      have "b_dev (bs c) = dv \<Longrightarrow> b_blockno (bs c) \<noteq> x" using D(7) [of c b] that b False by auto
      then show ?thesis using others [of c] that False ok by (simp add: bufs_ok_def)
    qed (use own in simp)
    show "c = d" if "c < NBUF" "d < NBUF" "b_dev ((bs(b := k)) c) = dv" "b_dev ((bs(b := k)) d) = dv"
        "b_blockno ((bs(b := k)) c) = b_blockno ((bs(b := k)) d)" for c d
      using that D(7) [of c d] b k by (cases "c = b"; cases "d = b") simp_all
    show "\<exists>c < NBUF. b_dev ((bs(b := k)) c) = dv \<and> b_blockno ((bs(b := k)) c) = y" if y: "y \<in> v_pins v'" for y
    proof (cases "y = x")
      case False
      then obtain c where "c < NBUF" "b_dev (bs c) = dv" "b_blockno (bs c) = y" using D(8) [of y] y v'(2) by auto
      then show ?thesis using False b by (intro exI [of _ c]) auto
    qed (use b k in auto)
    show "finite (v_pins v')" using bufs_ok_fin [OF ok] v'(2) finite_subset by auto
    show "c < NBUF" if "v_held v' c = Some y" for c y using that v'(1) by auto
  qed (rule v'(3))
qed

lemma held_buf:
  assumes "bufs_ok {} dv v pid bs ls" and "v_held v b = Some x"
  shows "b < NBUF" "b_dev (bs b) = dv" "b_blockno (bs b) = x" "b_valid (bs b)" "b_data (bs b) = v_data v x"
    "sl_locked (ls b) \<noteq> 0" "sl_pid (ls b) = pid" "b_refcnt (bs b) = of_bool (x \<in> v_pins v) + 1"
    "\<And>c. c \<noteq> b \<Longrightarrow> v_held v c \<noteq> Some x"
proof -
  note D = bufs_okD [OF assms(1)]
  show b: "b < NBUF" "b_dev (bs b) = dv" "b_blockno (bs b) = x" "b_valid (bs b)" "sl_locked (ls b) \<noteq> 0" "sl_pid (ls b) = pid"
    using D(1,2) [OF assms(2)] by simp_all
  show "b_data (bs b) = v_data v x" using D(5) [of b] b by simp
  show "b_refcnt (bs b) = of_bool (x \<in> v_pins v) + 1" using D(4) [of b] b assms(2) by (simp add: refs_def)
  show "v_held v c \<noteq> Some x" if "c \<noteq> b" for c using D(1) [of c x] D(2) [of c x] D(7) [of c b] b that by auto
qed

lemma bufs_ok_fill:
  assumes ok: "bufs_ok {b} dv v pid bs ls" and b: "v_held v b = Some x"
    and k: "b_dev k = dv" "b_blockno k = x" "b_valid k" "b_refcnt k = b_refcnt (bs b)" "b_data k = v_data v x"
  shows "bufs_ok {} dv v pid (bs(b := k)) ls"
proof -
  note D = bufs_okD [OF ok]
  have h: "b < NBUF" "b_dev (bs b) = dv" "b_blockno (bs b) = x" "sl_locked (ls b) \<noteq> 0" "sl_pid (ls b) = pid" using D(1,2) [OF b] by simp_all
  have "bufs_ok {} dv v pid (bs(b := k)) (ls(b := ls b))"
  proof (rule bufs_ok_upd [OF ok h(1-3) k(1,2)])
    show "buf_ok (b \<in> {}) dv v pid b k (ls b)" using k h b D(4) [of b] by (simp add: buf_ok_def refs_def)
  qed (use D(9) bufs_ok_dom [OF ok] in \<open>simp_all add: buf_ok_def subset_insertI\<close>)
  then show ?thesis by simp
qed

lemma bufs_ok_data:
  assumes ok: "bufs_ok {} dv v pid bs ls" and b: "v_held v b = Some x"
    and k: "b_dev k = dv" "b_blockno k = x" "b_valid k" "b_refcnt k = b_refcnt (bs b)"
  shows "bufs_ok {} dv (v\<lparr>v_data := (v_data v)(x := b_data k)\<rparr>) pid (bs(b := k)) ls"
proof -
  note D = bufs_okD [OF ok] and h = held_buf [OF ok b]
  have "bufs_ok {} dv (v\<lparr>v_data := (v_data v)(x := b_data k)\<rparr>) pid (bs(b := k)) (ls(b := ls b))"
  proof (rule bufs_ok_upd [OF ok h(1-3) k(1,2)])
    show "buf_ok (b \<in> {}) dv (v\<lparr>v_data := (v_data v)(x := b_data k)\<rparr>) pid b k (ls b)"
      using k h b by (simp add: buf_ok_def refs_def)
    show "v_data (v\<lparr>v_data := (v_data v)(x := b_data k)\<rparr>) y = v_disk (v\<lparr>v_data := (v_data v)(x := b_data k)\<rparr>) (unat y)"
      if "y \<notin> v_pins (v\<lparr>v_data := (v_data v)(x := b_data k)\<rparr>)" "y \<notin> ran (v_held (v\<lparr>v_data := (v_data v)(x := b_data k)\<rparr>))" for y
      using that D(9) [of y] b by (auto simp: ran_def)
  qed (use bufs_ok_dom [OF ok] in \<open>auto simp: buf_ok_def refs_def\<close>)
  then show ?thesis by simp
qed

lemma bufs_ok_disk:
  assumes ok: "bufs_ok {} dv v pid bs ls" and b: "v_held v b = Some x"
    and k: "b_dev k = dv" "b_blockno k = x" "b_valid k" "b_refcnt k = b_refcnt (bs b)" "b_data k = b_data (bs b)"
  shows "bufs_ok {} dv (v\<lparr>v_disk := (v_disk v)(unat x := d)\<rparr>) pid (bs(b := k)) ls"
proof -
  note D = bufs_okD [OF ok] and h = held_buf [OF ok b]
  have "bufs_ok {} dv (v\<lparr>v_disk := (v_disk v)(unat x := d)\<rparr>) pid (bs(b := k)) (ls(b := ls b))"
  proof (rule bufs_ok_upd [OF ok h(1-3) k(1,2)])
    show "buf_ok (b \<in> {}) dv (v\<lparr>v_disk := (v_disk v)(unat x := d)\<rparr>) pid b k (ls b)"
      using k h b by (simp add: buf_ok_def refs_def)
    show "v_data (v\<lparr>v_disk := (v_disk v)(unat x := d)\<rparr>) y = v_disk (v\<lparr>v_disk := (v_disk v)(unat x := d)\<rparr>) (unat y)"
      if "y \<notin> v_pins (v\<lparr>v_disk := (v_disk v)(unat x := d)\<rparr>)" "y \<notin> ran (v_held (v\<lparr>v_disk := (v_disk v)(unat x := d)\<rparr>))" for y
    proof -
      have "y \<noteq> x" using that(2) b by (auto simp: ran_def)
      then have "unat y \<noteq> unat x" by (simp add: word_unat_eq_iff)
      then show ?thesis using that D(9) [of y] by simp
    qed
  qed (use bufs_ok_dom [OF ok] in \<open>auto simp: buf_ok_def refs_def\<close>)
  then show ?thesis by simp
qed

lemma bufs_ok_rel:
  assumes ok: "bufs_ok {} dv v pid bs ls" and b: "v_held v b = Some x" and cl: "x \<in> v_pins v \<or> v_data v x = v_disk v (unat x)"
    and k: "b_dev k = dv" "b_blockno k = x" "b_valid k" "b_refcnt k = b_refcnt (bs b) - 1" "b_data k = b_data (bs b)"
    and l: "sl_locked l = 0"
  shows "bufs_ok {} dv (v\<lparr>v_held := (v_held v)(b := None)\<rparr>) pid (bs(b := k)) (ls(b := l))"
proof -
  note D = bufs_okD [OF ok] and h = held_buf [OF ok b]
  let ?v = "v\<lparr>v_held := (v_held v)(b := None)\<rparr>"
  show ?thesis
  proof (rule bufs_ok_upd [OF ok h(1-3) k(1,2)])
    show "buf_ok (b \<in> {}) dv ?v pid b k l" using k h b l by (simp add: buf_ok_def refs_def)
    show "v_data ?v y = v_disk ?v (unat y)" if y: "y \<notin> v_pins ?v" "y \<notin> ran (v_held ?v)" for y
    proof (cases "y = x")
      case False
      have "v_held v a \<noteq> Some y" for a
      proof
        assume a: "v_held v a = Some y"
        then have "a \<noteq> b" using b False by auto
        then have "v_held ?v a = Some y" using a by simp
        then show False using y(2) ranI by fast
      qed
      then have "y \<notin> ran (v_held v)" by (simp add: ran_def)
      then show ?thesis using D(9) [of y] y(1) by simp
    qed (use cl y in auto)
  qed (use bufs_ok_dom [OF ok] in \<open>auto simp: buf_ok_def refs_def\<close>)
qed

lemma bufs_ok_pin:
  assumes ok: "bufs_ok {} dv v pid bs ls" and b: "v_held v b = Some x" and n: "x \<notin> v_pins v"
  shows "bufs_ok {} dv (v\<lparr>v_pins := insert x (v_pins v)\<rparr>) pid (bs(b := (bs b)\<lparr>b_refcnt := b_refcnt (bs b) + 1\<rparr>)) ls"
proof -
  note D = bufs_okD [OF ok] and h = held_buf [OF ok b]
  let ?v = "v\<lparr>v_pins := insert x (v_pins v)\<rparr>" let ?k = "(bs b)\<lparr>b_refcnt := b_refcnt (bs b) + 1\<rparr>"
  have "bufs_ok {} dv ?v pid (bs(b := ?k)) (ls(b := ls b))"
  proof (rule bufs_ok_upd [OF ok h(1-3)])
    show "buf_ok (b \<in> {}) dv ?v pid b ?k (ls b)" using h b n by (simp add: buf_ok_def refs_def)
  qed (use D(9) bufs_ok_dom [OF ok] h(2,3) in \<open>auto simp: buf_ok_def refs_def\<close>)
  then show ?thesis by simp
qed

lemma bufs_ok_unpin:
  assumes ok: "bufs_ok {} dv v pid bs ls" and b: "v_held v b = Some x" and n: "x \<in> v_pins v"
  shows "bufs_ok {} dv (v\<lparr>v_pins := v_pins v - {x}\<rparr>) pid (bs(b := (bs b)\<lparr>b_refcnt := b_refcnt (bs b) - 1\<rparr>)) ls"
proof -
  note D = bufs_okD [OF ok] and h = held_buf [OF ok b]
  let ?v = "v\<lparr>v_pins := v_pins v - {x}\<rparr>" let ?k = "(bs b)\<lparr>b_refcnt := b_refcnt (bs b) - 1\<rparr>"
  have xr: "x \<in> ran (v_held v)" using b by (auto simp: ran_def)
  have "bufs_ok {} dv ?v pid (bs(b := ?k)) (ls(b := ls b))"
  proof (rule bufs_ok_upd [OF ok h(1-3)])
    show "buf_ok (b \<in> {}) dv ?v pid b ?k (ls b)" using h b n by (simp add: buf_ok_def refs_def)
    show "v_data ?v y = v_disk ?v (unat y)" if y: "y \<notin> v_pins ?v" "y \<notin> ran (v_held ?v)" for y
      using y xr D(9) [of y] by auto
  qed (use bufs_ok_dom [OF ok] h(2,3) in \<open>auto simp: buf_ok_def refs_def\<close>)
  then show ?thesis by simp
qed


section \<open>Runs that may be cut off\<close>

text \<open>
  \<open>works dev k P m Q C\<close>: from a state that satisfies \<open>P\<close>, with a schedule in which the disk completes any number of
  requests, \<open>m\<close> either returns and satisfies \<open>Q\<close>, or it is cut off waiting for the disk, with contents of the
  disk that satisfy \<open>C\<close>; it uses at most \<open>k\<close> requests, and with \<open>k\<close> of them it returns. A crash of the machine
  is a run that is cut off.
\<close>

definition works :: "('a kern_scheme \<Rightarrow> 'a kern_scheme) \<Rightarrow> nat \<Rightarrow> ('a kern_scheme \<Rightarrow> bool) \<Rightarrow> ('a kern_scheme, 'b) kmon \<Rightarrow>
    ('b \<Rightarrow> 'a kern_scheme \<Rightarrow> bool) \<Rightarrow> ((nat \<Rightarrow> uint8 list) \<Rightarrow> bool) \<Rightarrow> bool" where
  "works dev k P m Q C \<longleftrightarrow> (\<forall>s n. P s \<longrightarrow> (case m s (replicate n (turn dev)) of
     Ret a t e \<Rightarrow> (\<exists>n'. e = replicate n' (turn dev) \<and> n' \<le> n \<and> n \<le> n' + k \<and> Q a t)
   | Panic msg t \<Rightarrow> False
   | Blocked t \<Rightarrow> n < k \<and> C (vdisk t)))"

lemma works_bind:
  assumes m: "works dev k P m R C" and f: "\<And>a. works dev k' (R a) (f a) Q C"
  shows "works dev (k + k') P (bind m f) Q C"
  unfolding works_def
proof (intro allI impI)
  fix s n assume "P s"
  then have m': "case m s (replicate n (turn dev)) of
     Ret a t e \<Rightarrow> (\<exists>n'. e = replicate n' (turn dev) \<and> n' \<le> n \<and> n \<le> n' + k \<and> R a t)
   | Panic msg t \<Rightarrow> False | Blocked t \<Rightarrow> n < k \<and> C (vdisk t)" using m unfolding works_def by blast
  show "case bind m f s (replicate n (turn dev)) of
     Ret a t e \<Rightarrow> (\<exists>n'. e = replicate n' (turn dev) \<and> n' \<le> n \<and> n \<le> n' + (k + k') \<and> Q a t)
   | Panic msg t \<Rightarrow> False | Blocked t \<Rightarrow> n < k + k' \<and> C (vdisk t)"
  proof (cases "m s (replicate n (turn dev))")
    case (Ret a t e)
    then obtain n' where n': "e = replicate n' (turn dev)" "n' \<le> n" "n \<le> n' + k" "R a t" using m' by auto
    have "case f a t (replicate n' (turn dev)) of
       Ret a t e \<Rightarrow> (\<exists>n''. e = replicate n'' (turn dev) \<and> n'' \<le> n' \<and> n' \<le> n'' + k' \<and> Q a t)
     | Panic msg t \<Rightarrow> False | Blocked t \<Rightarrow> n' < k' \<and> C (vdisk t)" using f n'(4) unfolding works_def by blast
    then show ?thesis using Ret n' by (force simp: bind_apply split: res.splits)
  qed (use m' in \<open>auto simp: bind_apply\<close>)
qed

lemma works_conseq:
  assumes "works dev k P m Q C" and "\<And>s. P' s \<Longrightarrow> P s" and "\<And>a s. Q a s \<Longrightarrow> Q' a s" and "\<And>d. C d \<Longrightarrow> C' d" and "k \<le> k'"
  shows "works dev k' P' m Q' C'"
  unfolding works_def
proof (intro allI impI)
  fix s n assume "P' s"
  then have "case m s (replicate n (turn dev)) of
     Ret a t e \<Rightarrow> (\<exists>n'. e = replicate n' (turn dev) \<and> n' \<le> n \<and> n \<le> n' + k \<and> Q a t)
   | Panic msg t \<Rightarrow> False | Blocked t \<Rightarrow> n < k \<and> C (vdisk t)" using assms(1,2) unfolding works_def by blast
  then show "case m s (replicate n (turn dev)) of
     Ret a t e \<Rightarrow> (\<exists>n'. e = replicate n' (turn dev) \<and> n' \<le> n \<and> n \<le> n' + k' \<and> Q' a t)
   | Panic msg t \<Rightarrow> False | Blocked t \<Rightarrow> n < k' \<and> C' (vdisk t)"
    using assms(3-5) by (fastforce split: res.splits)
qed

lemma works_pure:
  assumes "\<And>s e. P s \<Longrightarrow> \<exists>a t. m s e = Ret a t e \<and> Q a t"
  shows "works dev 0 P m Q C"
  unfolding works_def
proof (intro allI impI)
  fix s n assume "P s"
  then obtain a t where "m s (replicate n (turn dev)) = Ret a t (replicate n (turn dev))" "Q a t" using assms by blast
  then show "case m s (replicate n (turn dev)) of
     Ret a t e \<Rightarrow> (\<exists>n'. e = replicate n' (turn dev) \<and> n' \<le> n \<and> n \<le> n' + 0 \<and> Q a t)
   | Panic msg t \<Rightarrow> False | Blocked t \<Rightarrow> n < 0 \<and> C (vdisk t)" by auto
qed

lemma works_ret: "(\<And>s. P s \<Longrightarrow> Q a s) \<Longrightarrow> works dev 0 P (ret a) Q C"
  by (rule works_pure) (simp add: ret_apply)

lemma works_false: "works dev k (\<lambda>s. False) m Q C"
  by (simp add: works_def)

lemma works_pre: "(\<And>s. P s \<Longrightarrow> works dev k (\<lambda>t. t = s) m Q C) \<Longrightarrow> works dev k P m Q C"
  by (simp add: works_def)

lemma works_imp: "(\<phi> \<Longrightarrow> works dev k P m Q C) \<Longrightarrow> works dev k (\<lambda>s. \<phi> \<and> P s) m Q C"
  by (cases \<phi>) (simp_all add: works_false)

lemma works_ex: "(\<And>x. works dev k (P x) m Q C) \<Longrightarrow> works dev k (\<lambda>s. \<exists>x. P x s) m Q C"
  unfolding works_def by blast

text \<open>A request to the disk.\<close>

context block_device
begin

lemma works_rw:
  assumes "\<And>s. P s \<Longrightarrow> ready s p \<and> idle_disk s \<and> unat (b_blockno (bufs s b)) < 2 ^ 31 \<and> C (vdisk s)"
    and "\<And>s t. P s \<Longrightarrow> rw_result p b wr (unat (b_blockno (bufs s b))) s t \<Longrightarrow> Q () t"
  shows "works dev 1 P (virtio_disk_rw b wr) Q C"
  unfolding works_def
proof (intro allI impI)
  fix s n assume P: "P s"
  note a = virtio_disk_rw_apply [where s = s and p = p and b = b and wr = wr]
  show "case virtio_disk_rw b wr s (replicate n (turn dev)) of
     Ret a t e \<Rightarrow> (\<exists>n'. e = replicate n' (turn dev) \<and> n' \<le> n \<and> n \<le> n' + 1 \<and> Q a t)
   | Panic msg t \<Rightarrow> False | Blocked t \<Rightarrow> n < 1 \<and> C (vdisk t)"
  proof (cases n)
    case 0
    then show ?thesis using a(2) assms(1) [OF P] by auto
  next
    case (Suc m)
    then show ?thesis using a(1) [of "replicate m (turn dev)"] assms(1) [OF P] assms(2) [OF P] by fastforce
  qed
qed

end

section \<open>The operations on the view\<close>

lemma rw_resultE:
  assumes "rw_result p b wr blk s t"
  obtains d h ps where "t = s\<lparr>bufs := (bufs s)(b := (if wr then (bufs s b)\<lparr>b_disk := False\<rparr> else (bufs s b)\<lparr>b_data := vdisk s blk, b_disk := False\<rparr>)),
     vdisk := (if wr then (vdisk s)(blk := b_data (bufs s b)) else vdisk s), disk := d, vio_hist := h, procs := ps\<rparr>"
    "ps p = procs s p" "idle_disk t"
  using assms unfolding rw_result_def by blast

lemma cache_rw:
  assumes c: "cache E p dv v s" and rw: "rw_result p b wr blk s t"
    and v: "v_disk v' = (if wr then (v_disk v)(blk := b_data (bufs s b)) else v_disk v)" "v_log v' = v_log v"
    and b: "bufs_ok E' dv v' (p_pid (procs s p)) (bufs t) (\<lambda>b. slock s (LBuf b))"
  shows "cache E' p dv v' t"
proof -
  have s: "ready s p" "vdisk s = v_disk v" "klog s = v_log v" using c by (simp_all add: cache_def)
  from rw obtain d h ps where t: "t = s\<lparr>bufs := (bufs s)(b := (if wr then (bufs s b)\<lparr>b_disk := False\<rparr> else (bufs s b)\<lparr>b_data := vdisk s blk, b_disk := False\<rparr>)),
     vdisk := (if wr then (vdisk s)(blk := b_data (bufs s b)) else vdisk s), disk := d, vio_hist := h, procs := ps\<rparr>"
    and ps: "ps p = procs s p" and i: "idle_disk t" by (rule rw_resultE)
  show ?thesis
  proof (rule cache_change [OF c _ i])
    show "ready t p" unfolding t using s(1) ps by (subst ready_procs) simp_all
    show "\<exists>bl'. lru t bl'" if "lru s bl" for bl
    proof -
      have "lru t bl = lru s bl" by (rule lru_cong) (simp_all add: t)
      then show ?thesis using that by blast
    qed
    show "bufs_ok E' dv v' (p_pid (procs s p)) (bufs t) (\<lambda>b. slock t (LBuf b))" using b unfolding t by simp
  qed (use s v ps in \<open>simp_all add: t\<close>)
qed

lemma cache_bufs:
  assumes c: "cache E p dv v s" and k: "b_next k = b_next (bufs s b)" "b_prev k = b_prev (bufs s b)"
    and v: "v_disk v' = v_disk v" "v_log v' = v_log v"
    and b: "bufs_ok E' dv v' (p_pid (procs s p)) ((bufs s)(b := k)) (\<lambda>b. slock s (LBuf b))"
  shows "cache E' p dv v' (s\<lparr>bufs := (bufs s)(b := k)\<rparr>)"
proof (rule cache_change [OF c])
  show "\<exists>bl'. lru (s\<lparr>bufs := (bufs s)(b := k)\<rparr>) bl'" if "lru s bl" for bl
  proof -
    have "lru (s\<lparr>bufs := (bufs s)(b := k)\<rparr>) bl = lru s bl" by (rule lru_cong) (simp_all add: k)
    then show ?thesis using that by blast
  qed
qed (use c v b in \<open>simp_all add: cache_def idle_disk_def\<close>)

lemma cacheD:
  assumes "cache E p dv v s"
  shows "ready s p" "idle_disk s" "vdisk s = v_disk v" "klog s = v_log v"
    "bufs_ok E dv v (p_pid (procs s p)) (bufs s) (\<lambda>b. slock s (LBuf b))"
  using assms by (simp_all add: cache_def)

lemma works_getl: "works dev 0 (cache E p dv v) (getl f) (\<lambda>a t. a = f (v_log v) \<and> cache E p dv v t) C"
  by (rule works_pure) (simp add: getl_def gets_apply cacheD(4))

lemma works_upd_log: "works dev 0 (cache E p dv v) (upd_log f) (\<lambda>_. cache E p dv (v\<lparr>v_log := f (v_log v)\<rparr>)) C"
proof (rule works_pure)
  fix s :: "'a kern_scheme" and e assume c: "cache E p dv v s"
  let ?v = "v\<lparr>v_log := f (v_log v)\<rparr>"
  have l: "lru (s\<lparr>klog := f (v_log v)\<rparr>) = lru s" by (rule ext, rule lru_cong) simp_all
  have o: "bufs_ok E dv ?v pid bs ls = bufs_ok E dv v pid bs ls" for pid bs ls
    by (simp add: bufs_ok_def buf_ok_def refs_def cong: option.case_cong)
  show "\<exists>a t. upd_log f s e = Ret a t e \<and> cache E p dv ?v t"
    using c by (simp add: upd_log_def modify_apply cache_def idle_disk_def l o)
qed

lemma works_getdata:
  assumes b: "v_held v b = Some x"
  shows "works dev 0 (cache {} p dv v) (getbuf b b_data) (\<lambda>a t. a = v_data v x \<and> cache {} p dv v t) C"
  by (rule works_pure) (simp add: getbuf_def gets_apply held_buf(5) [OF cacheD(5) b])

lemma works_setdata:
  assumes b: "v_held v b = Some x"
  shows "works (dev :: 'a kern_scheme \<Rightarrow> 'a kern_scheme) 0 (cache {} p dv v) (upd_buf b (\<lambda>k. k\<lparr>b_data := f (b_data k)\<rparr>))
    (\<lambda>_. cache {} p dv (v\<lparr>v_data := (v_data v)(x := f (v_data v x))\<rparr>)) C"
proof (rule works_pure)
  fix s :: "'a kern_scheme" and e assume c: "cache {} p dv v s"
  note h = held_buf [OF cacheD(5) [OF c] b]
  let ?k = "(bufs s b)\<lparr>b_data := f (b_data (bufs s b))\<rparr>"
  have "cache {} p dv (v\<lparr>v_data := (v_data v)(x := f (v_data v x))\<rparr>) (s\<lparr>bufs := (bufs s)(b := ?k)\<rparr>)"
    by (rule cache_bufs [OF c]) (use bufs_ok_data [OF cacheD(5) [OF c] b, of ?k] h in simp_all)
  then show "\<exists>a t. upd_buf b (\<lambda>k. k\<lparr>b_data := f (b_data k)\<rparr>) s e = Ret a t e \<and>
      cache {} p dv (v\<lparr>v_data := (v_data v)(x := f (v_data v x))\<rparr>) t"
    by (simp add: upd_buf_def modify_apply)
qed

lemma count_works:
  assumes "\<And>s :: 'a kern_scheme. cache {} p dv v s \<Longrightarrow> bufs_ok {} dv v' (p_pid (procs s p)) ((bufs s)(b := f (bufs s b))) (\<lambda>b. slock s (LBuf b))"
    and f: "\<And>k. b_next (f k) = b_next k \<and> b_prev (f k) = b_prev k" and v: "v_disk v' = v_disk v" "v_log v' = v_log v"
  shows "works (dev :: 'a kern_scheme \<Rightarrow> 'a kern_scheme) 0 (cache {} p dv v) (bind (acquire LBcache) (\<lambda>_. bind (upd_buf b f) (\<lambda>_. release LBcache))) (\<lambda>_. cache {} p dv v') C"
proof (rule works_pure)
  fix s :: "'a kern_scheme" and e assume c: "cache {} p dv v s"
  note r = ready_simps [OF cacheD(1) [OF c]]
  have "cache {} p dv v' (s\<lparr>bufs := (bufs s)(b := f (bufs s b))\<rparr>)"
    by (rule cache_bufs [OF c]) (use assms(1) [OF c] f v in simp_all)
  then show "\<exists>a t. bind (acquire LBcache) (\<lambda>_. bind (upd_buf b f) (\<lambda>_. release LBcache)) s e = Ret a t e \<and> cache {} p dv v' t"
    using r by (simp add: bind_apply acquire_locked upd_buf_def modify_apply locked_updates release_locked)
qed

lemma bpin_works:
  assumes "v_held v b = Some x" and "x \<notin> v_pins v"
  shows "works dev 0 (cache {} p dv v) (bpin b) (\<lambda>_. cache {} p dv (v\<lparr>v_pins := insert x (v_pins v)\<rparr>)) C"
  unfolding bpin_def by (rule count_works) (use bufs_ok_pin [OF cacheD(5) assms] in simp_all)

lemma bunpin_works:
  assumes "v_held v b = Some x" and "x \<in> v_pins v"
  shows "works dev 0 (cache {} p dv v) (bunpin b) (\<lambda>_. cache {} p dv (v\<lparr>v_pins := v_pins v - {x}\<rparr>)) C"
  unfolding bunpin_def by (rule count_works) (use bufs_ok_unpin [OF cacheD(5) assms] in simp_all)

subsection \<open>Releasing a buffer\<close>

definition same_buf :: "buf \<Rightarrow> buf \<Rightarrow> bool" where
  "same_buf k k' \<longleftrightarrow> b_dev k = b_dev k' \<and> b_blockno k = b_blockno k' \<and> b_valid k = b_valid k' \<and> b_refcnt k = b_refcnt k' \<and> b_data k = b_data k'"

lemma bufs_ok_same:
  assumes "\<And>c. same_buf (bs' c) (bs c)" and "bufs_ok E dv v pid bs ls"
  shows "bufs_ok E dv v pid bs' ls"
proof -
  have "b_dev (bs' c) = b_dev (bs c)" "b_blockno (bs' c) = b_blockno (bs c)" "b_valid (bs' c) = b_valid (bs c)"
    "b_refcnt (bs' c) = b_refcnt (bs c)" "b_data (bs' c) = b_data (bs c)" for c using assms(1) by (simp_all add: same_buf_def)
  then show ?thesis using assms(2) by (simp add: bufs_ok_def buf_ok_def refs_def cong: option.case_cong)
qed

text \<open>What moving a buffer keeps.\<close>

definition relinked :: "'a kern_scheme \<Rightarrow> 'a kern_scheme \<Rightarrow> bool" where
  "relinked t s \<longleftrightarrow> (\<exists>bs n p. t = s\<lparr>bufs := bs, bhead_next := n, bhead_prev := p\<rparr> \<and> (\<forall>c. same_buf (bs c) (bufs s c)))"

lemma relinked_refl: "relinked s s"
  unfolding relinked_def same_buf_def by (intro exI [of _ "bufs s"] exI [of _ "bhead_next s"] exI [of _ "bhead_prev s"]) simp

lemma relinked_put:
  assumes "relinked t s"
  shows "relinked (put_next r x t) s" "relinked (put_prev r x t) s"
proof -
  obtain bs n p where t: "t = s\<lparr>bufs := bs, bhead_next := n, bhead_prev := p\<rparr>" "\<forall>c. same_buf (bs c) (bufs s c)"
    using assms by (auto simp: relinked_def)
  show "relinked (put_next r x t) s"
  proof (cases r)
    case BHead
    then show ?thesis unfolding relinked_def t put_next_def using t(2) by (intro exI [of _ bs] exI [of _ x] exI [of _ p]) simp
  next
    case (B b)
    then show ?thesis unfolding relinked_def t put_next_def using t(2)
      by (intro exI [of _ "bs(b := (bs b)\<lparr>b_next := x\<rparr>)"] exI [of _ n] exI [of _ p]) (simp add: same_buf_def)
  qed
  show "relinked (put_prev r x t) s"
  proof (cases r)
    case BHead
    then show ?thesis unfolding relinked_def t put_prev_def using t(2) by (intro exI [of _ bs] exI [of _ n] exI [of _ x]) simp
  next
    case (B b)
    then show ?thesis unfolding relinked_def t put_prev_def using t(2)
      by (intro exI [of _ "bs(b := (bs b)\<lparr>b_prev := x\<rparr>)"] exI [of _ n] exI [of _ p]) (simp add: same_buf_def)
  qed
qed

lemma relinked_front: "relinked (to_front b s) s"
  unfolding to_front_def Let_def by (intro relinked_put relinked_refl)

lemma cache_front:
  assumes "cache E p dv v s" and "b < NBUF"
  shows "cache E p dv v (to_front b s)"
proof -
  obtain bs n q where t: "to_front b s = s\<lparr>bufs := bs, bhead_next := n, bhead_prev := q\<rparr>" "\<And>c. same_buf (bs c) (bufs s c)"
    using relinked_front [of b s] by (auto simp: relinked_def)
  show ?thesis
  proof (rule cache_change [OF assms(1)])
    show "\<exists>bl'. lru (to_front b s) bl'" if "lru s bl" for bl using lru_to_front [OF that assms(2)] .
    show "bufs_ok E dv v (p_pid (procs s p)) (bufs (to_front b s)) (\<lambda>c. slock (to_front b s) (LBuf c))"
      using bufs_ok_same [OF t(2) cacheD(5) [OF assms(1)]] by (simp add: t(1))
  qed (use cacheD [OF assms(1)] in \<open>simp_all add: t(1) idle_disk_def\<close>)
qed

lemma put_locked [simp]: "put_next r x (locked lk s) = locked lk (put_next r x s)" "put_prev r x (locked lk s) = locked lk (put_prev r x s)"
  by (cases r; simp add: put_next_def put_prev_def locked_updates)+

lemma getbuf_link: "getbuf b b_next s e = Ret (get_next (B b) s) s e" "getbuf b b_prev s e = Ret (get_prev (B b) s) s e"
  by (simp_all add: getbuf_def gets_apply get_next_def get_prev_def)

lemma move_front:
  fixes s :: "'a diskst_scheme"
  shows "bind (getbuf b b_next) (\<lambda>n.
       bind (getbuf b b_prev) (\<lambda>p.
       bind (set_prev n p) (\<lambda>_.
       bind (getbuf b b_prev) (\<lambda>p2.
       bind (getbuf b b_next) (\<lambda>n2.
       bind (set_next p2 n2) (\<lambda>_.
       bind (gets bhead_next) (\<lambda>f.
       bind (set_next (B b) f) (\<lambda>_.
       bind (set_prev (B b) BHead) (\<lambda>_.
       link_front b))))))))) s e = Ret () (to_front b s) e"
proof -
  have h: "bhead_next s = get_next BHead s" for s :: "'a diskst_scheme" by (simp add: get_next_def)
  have g: "get_prev (B b) (put_prev n (get_prev (B b) s) s) = get_prev (B b) s" for n and s :: "'a diskst_scheme"
    by (simp add: get_put_apply)
  have "link_front b t e = Ret () (put_next BHead (B b) (put_prev (get_next BHead t) (B b) t)) e" for t :: "'a diskst_scheme"
    by (simp add: link_front_def bind_apply gets_apply set_link_apply h)
  then show ?thesis
    by (simp add: bind_apply getbuf_link set_link_apply gets_apply h g to_front_def Let_def get_put_apply)
qed

lemma front_locked: "to_front b (locked lk s) = locked lk (to_front b s)"
  by (simp add: to_front_def Let_def)

lemma brelse_works:
  assumes b: "v_held v b = Some x" and cl: "x \<in> v_pins v \<or> v_data v x = v_disk v (unat x)"
  shows "works (dev :: 'a kern_scheme \<Rightarrow> 'a kern_scheme) 0 (cache {} p dv v) (brelse b) (\<lambda>_. cache {} p dv (v\<lparr>v_held := (v_held v)(b := None)\<rparr>)) C"
proof (rule works_pure)
  fix s :: "'a kern_scheme" and e assume c: "cache {} p dv v s"
  let ?v = "v\<lparr>v_held := (v_held v)(b := None)\<rparr>"
  note r = cacheD(1) [OF c] and bo = cacheD(5) [OF c]
  note h = held_buf [OF bo b] and f = ready_simps [OF r]
  let ?s = "(upd_slock (LBuf b) (\<lambda>l. l\<lparr>sl_locked := 0, sl_pid := 0\<rparr>) s)\<lparr>procs := wakes (ChSleep (LBuf b)) s\<rparr>"
  let ?k = "(bufs s b)\<lparr>b_refcnt := b_refcnt (bufs s b) - 1\<rparr>"
  let ?t = "?s\<lparr>bufs := (bufs s)(b := ?k)\<rparr>"
  have w: "wakes (ChSleep (LBuf b)) s p = procs s p" using f by (intro wakes_me) simp
  have rs: "ready ?s p" using r w by (subst ready_procs) (simp_all add: upd_slock_def)
  note f' = ready_simps [OF rs]
  have ct: "cache {} p dv ?v ?t"
  proof (rule cache_change [OF c])
    have ls: "(\<lambda>c. slock ?t (LBuf c)) = (\<lambda>c. slock s (LBuf c))(b := (slock s (LBuf b))\<lparr>sl_locked := 0, sl_pid := 0\<rparr>)"
      by (auto simp: upd_slock_def)
    have "bufs ?t = (bufs s)(b := ?k)" by simp
    then show "bufs_ok {} dv ?v (p_pid (procs s p)) (bufs ?t) (\<lambda>c. slock ?t (LBuf c))"
      unfolding ls by (simp only:) (rule bufs_ok_rel [OF bo b cl]; use h(2-4) in simp)
    show "\<exists>bl'. lru ?t bl'" if "lru s bl" for bl
    proof -
      have "lru ?t bl = lru s bl" by (rule lru_cong) (simp_all add: upd_slock_def)
      then show ?thesis using that by blast
    qed
  qed (use cacheD [OF c] rs w in \<open>simp_all add: upd_slock_def idle_disk_def\<close>)
  have hs: "holdingsleep (LBuf b) s e = Ret True s e" using holdingsleep_apply [OF r, of "LBuf b" e] h by simp
  have rl: "releasesleep (LBuf b) s e = Ret () ?s e" by (rule releasesleep_apply [OF r]) simp
  have aq: "acquire LBcache ?s e = Ret () (locked LBcache ?s) e" using f' by (intro acquire_locked) simp_all
  have rel: "release LBcache (locked LBcache u) e = Ret () u e" if "ready u p" for u
    using ready_simps [OF that] by (intro release_locked) simp_all
  have up: "upd_buf b (\<lambda>k. k\<lparr>b_refcnt := b_refcnt k - 1\<rparr>) (locked LBcache ?s) e = Ret () (locked LBcache ?t) e"
    by (simp add: upd_buf_def modify_apply locked_updates upd_slock_def)
  obtain t where t: "t = ?t" by blast
  have rr: "getbuf b b_refcnt (locked LBcache t) e = Ret (b_refcnt (bufs t b)) (locked LBcache t) e" by (simp add: getbuf_def gets_apply)
  have rt: "ready t p" "ready (to_front b t) p" using cacheD(1) [OF ct] cacheD(1) [OF cache_front [OF ct h(1)]] t by simp_all
  have "brelse b s e = Ret () (if b_refcnt (bufs t b) = 0 then to_front b t else t) e"
    unfolding brelse_def bind_apply [of "holdingsleep (LBuf b)"] hs res.case if_False not_True_eq_False
      bind_apply [of "releasesleep (LBuf b)"] rl bind_apply [of "acquire LBcache"] aq bind_apply [of "upd_buf b _"] up t [symmetric]
      bind_apply [of "getbuf b b_refcnt"] rr
    by (simp add: whenM_def ret_apply bind_apply [of "ret ()"] bind_apply [of "if _ then _ else _"] move_front front_locked rel rt)
  then show "\<exists>a t. brelse b s e = Ret a t e \<and> cache {} p dv ?v t"
    using ct [folded t] cache_front [OF ct [folded t] h(1)] by simp
qed

subsection \<open>Reading and writing a block\<close>

context block_device
begin

lemma bwrite_works:
  assumes b: "v_held v b = Some x" and x: "unat x < 2 ^ 31"
  shows "works dev 1 (cache {} p dv v) (bwrite b) (\<lambda>_. cache {} p dv (v\<lparr>v_disk := (v_disk v)(unat x := v_data v x)\<rparr>)) (\<lambda>d. d = v_disk v)"
proof -
  have "works dev 0 (cache {} p dv v) (holdingsleep (LBuf b)) (\<lambda>h t. h \<and> cache {} p dv v t) (\<lambda>d. d = v_disk v)"
  proof (rule works_pure)
    fix s e assume c: "cache {} p dv v s"
    show "\<exists>h t. holdingsleep (LBuf b) s e = Ret h t e \<and> h \<and> cache {} p dv v t"
      using holdingsleep_apply [OF cacheD(1) [OF c], of "LBuf b" e] held_buf(6,7) [OF cacheD(5) [OF c] b] c by auto
  qed
  moreover have "works dev 1 (cache {} p dv v) (virtio_disk_rw b True) (\<lambda>_. cache {} p dv (v\<lparr>v_disk := (v_disk v)(unat x := v_data v x)\<rparr>)) (\<lambda>d. d = v_disk v)"
  proof (rule works_rw)
    fix s assume c: "cache {} p dv v s"
    note h = held_buf [OF cacheD(5) [OF c] b]
    show "ready s p \<and> idle_disk s \<and> unat (b_blockno (bufs s b)) < 2 ^ 31 \<and> vdisk s = v_disk v" using cacheD [OF c] h x by simp
    fix t assume rw: "rw_result p b True (unat (b_blockno (bufs s b))) s t"
    show "cache {} p dv (v\<lparr>v_disk := (v_disk v)(unat x := v_data v x)\<rparr>) t"
    proof (rule cache_rw [OF c rw])
      have "bufs t = (bufs s)(b := (bufs s b)\<lparr>b_disk := False\<rparr>)" using rw by (auto elim!: rw_resultE)
      then show "bufs_ok {} dv (v\<lparr>v_disk := (v_disk v)(unat x := v_data v x)\<rparr>) (p_pid (procs s p)) (bufs t) (\<lambda>b. slock s (LBuf b))"
        using bufs_ok_disk [OF cacheD(5) [OF c] b, of "(bufs s b)\<lparr>b_disk := False\<rparr>"] h by simp
    qed (use h in simp_all)
  qed
  ultimately have "works dev (0 + 1) (cache {} p dv v) (bwrite b) (\<lambda>_. cache {} p dv (v\<lparr>v_disk := (v_disk v)(unat x := v_data v x)\<rparr>)) (\<lambda>d. d = v_disk v)"
    unfolding bwrite_def by (intro works_bind [where k = 0]) (auto intro: works_imp)
  then show ?thesis by simp
qed

lemma fetch_works:
  assumes b: "v_held v b = Some x" and x: "unat x < 2 ^ 31"
  shows "works dev 1 (\<lambda>t. cache {b} p dv v t \<and> \<not> b_valid (bufs t b) \<and> v_data v x = v_disk v (unat x))
    (bind (virtio_disk_rw b False) (\<lambda>_. upd_buf b (\<lambda>k. k\<lparr>b_valid := True\<rparr>))) (\<lambda>_. cache {} p dv v) (\<lambda>d. d = v_disk v)"
proof -
  let ?P = "\<lambda>t. cache {b} p dv v t \<and> \<not> b_valid (bufs t b) \<and> v_data v x = v_disk v (unat x)"
  let ?R = "\<lambda>_ t. cache {b} p dv v t \<and> b_data (bufs t b) = v_data v x"
  have "works dev 1 ?P (virtio_disk_rw b False) ?R (\<lambda>d. d = v_disk v)"
  proof (rule works_rw)
    fix s assume p: "?P s"
    then have c: "cache {b} p dv v s" by blast
    note D = bufs_okD [OF cacheD(5) [OF c]]
    have h: "b < NBUF" "b_dev (bufs s b) = dv" "b_blockno (bufs s b) = x" "sl_locked (slock s (LBuf b)) \<noteq> 0" "sl_pid (slock s (LBuf b)) = p_pid (procs s p)"
      using D(1,2) [OF b] by simp_all
    show "ready s p \<and> idle_disk s \<and> unat (b_blockno (bufs s b)) < 2 ^ 31 \<and> vdisk s = v_disk v" using cacheD [OF c] h(3) x by simp
    fix t assume rw: "rw_result p b False (unat (b_blockno (bufs s b))) s t"
    have bt: "bufs t = (bufs s)(b := (bufs s b)\<lparr>b_data := v_data v x, b_disk := False\<rparr>)"
      using rw p cacheD(3) [OF c] h(3) by (auto elim!: rw_resultE)
    have "cache {b} p dv v t"
    proof (rule cache_rw [OF c rw])
      have "bufs_ok {b} dv v (p_pid (procs s p)) ((bufs s)(b := (bufs s b)\<lparr>b_data := v_data v x, b_disk := False\<rparr>)) ((\<lambda>b. slock s (LBuf b))(b := slock s (LBuf b)))"
      proof (rule bufs_ok_upd [OF cacheD(5) [OF c] h(1) h(2) h(3)])
        show "buf_ok (b \<in> {b}) dv v (p_pid (procs s p)) b ((bufs s b)\<lparr>b_data := v_data v x, b_disk := False\<rparr>) (slock s (LBuf b))"
          using h b p D(4) [OF h(1)] D(6) [OF h(1,2)] by (auto simp: buf_ok_def refs_def)
      qed (use h D(9) bufs_ok_dom [OF cacheD(5) [OF c]] in auto)
      then show "bufs_ok {b} dv v (p_pid (procs s p)) (bufs t) (\<lambda>b. slock s (LBuf b))" by (simp add: bt fun_upd_idem)
    qed simp_all
    then show "?R () t" using bt by simp
  qed
  moreover have "works dev 0 (?R a) (upd_buf b (\<lambda>k. k\<lparr>b_valid := True\<rparr>)) (\<lambda>_. cache {} p dv v) (\<lambda>d. d = v_disk v)" for a
  proof (rule works_pure)
    fix s e assume r: "?R a s"
    then have c: "cache {b} p dv v s" by blast
    note h = bufs_okD(1,2) [OF cacheD(5) [OF c] b]
    have "cache {} p dv v (s\<lparr>bufs := (bufs s)(b := (bufs s b)\<lparr>b_valid := True\<rparr>)\<rparr>)"
    proof (rule cache_bufs [OF c])
      show "bufs_ok {} dv v (p_pid (procs s p)) ((bufs s)(b := (bufs s b)\<lparr>b_valid := True\<rparr>)) (\<lambda>b. slock s (LBuf b))"
        by (rule bufs_ok_fill [OF cacheD(5) [OF c] b]) (use r h in simp_all)
    qed simp_all
    then show "\<exists>u t. upd_buf b (\<lambda>k. k\<lparr>b_valid := True\<rparr>) s e = Ret u t e \<and> cache {} p dv v t" by (simp add: upd_buf_def modify_apply)
  qed
  ultimately have "works dev (1 + 0) ?P (bind (virtio_disk_rw b False) (\<lambda>_. upd_buf b (\<lambda>k. k\<lparr>b_valid := True\<rparr>))) (\<lambda>_. cache {} p dv v) (\<lambda>d. d = v_disk v)"
    by (rule works_bind)
  then show ?thesis by simp
qed

lemma bread_works:
  assumes x: "x \<notin> ran (v_held v)" "unat x < 2 ^ 31" and room: "x \<in> v_pins v \<or> card (v_pins v) + card (dom (v_held v)) < NBUF"
  shows "works dev 1 (cache {} p dv v) (bread dv x)
    (\<lambda>b t. v_held v b = None \<and> cache {} p dv (v\<lparr>v_held := (v_held v)(b \<mapsto> x)\<rparr>) t) (\<lambda>d. d = v_disk v)"
proof -
  let ?v = "\<lambda>b. v\<lparr>v_held := (v_held v)(b \<mapsto> x)\<rparr>" and ?C = "\<lambda>d. d = v_disk v"
  let ?R = "\<lambda>b t. v_held v b = None \<and> cache {b} p dv (?v b) t \<and> (\<not> b_valid (bufs t b) \<longrightarrow> v_data v x = v_disk v (unat x))"
  let ?Q = "\<lambda>b t. v_held v b = None \<and> cache {} p dv (?v b) t"
  have get: "works dev 0 (cache {} p dv v) (bget dv x) ?R ?C"
  proof (rule works_pure)
    fix s e assume c: "cache {} p dv v s"
    then show "\<exists>b t. bget dv x s e = Ret b t e \<and> ?R b t"
      using bget_apply [OF c x(1) room, of e] bufs_okD(9) [OF cacheD(5) [OF c], of x] x(1) by blast
  qed
  have val: "works dev 0 (?R b) (getbuf b b_valid) (\<lambda>ok t. ok = b_valid (bufs t b) \<and> ?R b t) ?C" for b
    by (rule works_pure) (simp add: getbuf_def gets_apply)
  have fill: "works dev 1 (\<lambda>t. ok = b_valid (bufs t b) \<and> ?R b t)
      (whenM (\<not> ok) (bind (virtio_disk_rw b False) (\<lambda>_. upd_buf b (\<lambda>k. k\<lparr>b_valid := True\<rparr>)))) (\<lambda>_. ?Q b) ?C" for ok b
  proof (cases "ok \<or> v_held v b \<noteq> None")
    case True
    have "works dev 0 (\<lambda>t. ok = b_valid (bufs t b) \<and> ?R b t)
      (whenM (\<not> ok) (bind (virtio_disk_rw b False) (\<lambda>_. upd_buf b (\<lambda>k. k\<lparr>b_valid := True\<rparr>)))) (\<lambda>_. ?Q b) ?C"
    proof (rule works_pure)
      fix s e assume r: "ok = b_valid (bufs s b) \<and> ?R b s"
      then have c: "cache {b} p dv (?v b) s" and ok: ok "b_valid (bufs s b)" using True by auto
      have "bufs_ok {} dv (?v b) (p_pid (procs s p)) ((bufs s)(b := bufs s b)) (\<lambda>b. slock s (LBuf b))"
        by (rule bufs_ok_fill [OF cacheD(5) [OF c]]) (use bufs_okD(1,2,5) [OF cacheD(5) [OF c], of b] ok in simp_all)
      then have "cache {} p dv (?v b) s" using c by (simp add: cache_def)
      then show "\<exists>u t. whenM (\<not> ok) (bind (virtio_disk_rw b False) (\<lambda>_. upd_buf b (\<lambda>k. k\<lparr>b_valid := True\<rparr>))) s e = Ret u t e \<and> ?Q b t"
        using r ok by (simp add: whenM_def ret_apply)
    qed
    then show ?thesis by (rule works_conseq) simp_all
  next
    case False
    have "works dev 1 (\<lambda>t. cache {b} p dv (?v b) t \<and> \<not> b_valid (bufs t b) \<and> v_data (?v b) x = v_disk (?v b) (unat x))
      (bind (virtio_disk_rw b False) (\<lambda>_. upd_buf b (\<lambda>k. k\<lparr>b_valid := True\<rparr>))) (\<lambda>_. cache {} p dv (?v b)) (\<lambda>d. d = v_disk (?v b))"
      by (rule fetch_works) (use x in simp_all)
    then show ?thesis using False by (simp add: whenM_def) (erule works_conseq; simp)
  qed
  have "works dev (0 + (0 + (1 + 0))) (cache {} p dv v) (bread dv x) ?Q ?C"
    unfolding bread_def
    by (intro works_bind [OF get] works_bind [OF val] works_bind [OF fill] works_ret)
  then show ?thesis by simp
qed

end

end
