(* ===== verification/Crash.thy ===== *)
theory Crash
  imports Cache
begin

text \<open>
  The loops and the header of the log, \<^verbatim>\<open>kernel/log.c\<close>, as changes of the view of the buffer cache: writing the log,
  installing it, and writing and reading its header. Each may be cut off at any request to the disk.
\<close>

section \<open>The header on the disk\<close>

lemma length_put32 [simp]: "off + 4 \<le> length d \<Longrightarrow> length (put32 d off w) = length d"
  by (simp add: put32_def)

lemma get32_put32: "off + 4 \<le> length d \<Longrightarrow> get32 (put32 d off w) off = w"
  by (simp add: get32_def put32_def of_le_le_bytes)

lemma get32_put32_other: "off + 4 \<le> length d \<Longrightarrow> off' + 4 \<le> length d \<Longrightarrow> off' + 4 \<le> off \<or> off + 4 \<le> off' \<Longrightarrow> get32 (put32 d off w) off' = get32 d off'"
  by (simp add: get32_def put32_def getb_putb_disjoint)

lemma put_header_fold:
  assumes "4 + 4 * n \<le> length d"
  shows "length (fold (\<lambda>i d. put32 d (4 + 4 * i) (bk i)) [0..<n] d) = length d \<and>
    get32 (fold (\<lambda>i d. put32 d (4 + 4 * i) (bk i)) [0..<n] d) 0 = get32 d 0 \<and>
    (\<forall>i < n. get32 (fold (\<lambda>i d. put32 d (4 + 4 * i) (bk i)) [0..<n] d) (4 + 4 * i) = bk i)"
  using assms
proof (induction n)
  case (Suc n)
  let ?d = "fold (\<lambda>i d. put32 d (4 + 4 * i) (bk i)) [0..<n] d"
  have ih: "length ?d = length d" "get32 ?d 0 = get32 d 0" "\<And>i. i < n \<Longrightarrow> get32 ?d (4 + 4 * i) = bk i" using Suc by simp_all
  have "get32 (put32 ?d (4 + 4 * n) (bk n)) (4 + 4 * i) = bk i" if "i < Suc n" for i
  proof (cases "i = n")
    case False
    then show ?thesis using ih that Suc.prems by (subst get32_put32_other) simp_all
  qed (use ih Suc.prems in \<open>simp add: get32_put32\<close>)
  moreover have "get32 (put32 ?d (4 + 4 * n) (bk n)) 0 = get32 d 0" using ih Suc.prems by (subst get32_put32_other) simp_all
  ultimately show ?case using ih Suc.prems by simp
qed simp

lemma put_header_get:
  assumes "lh_n lh = int n" and "n < 2 ^ 31" and "4 + 4 * n \<le> length d"
  shows "length (put_header d lh) = length d" "sint (get32 (put_header d lh) 0) = int n"
    "\<And>i. i < n \<Longrightarrow> get32 (put_header d lh) (4 + 4 * i) = lh_block lh i"
proof -
  have s: "sint (word_of_int (int n) :: uint32) = int n" using assms(2) by (simp add: signed_of_nat signed_take_bit_int_eq_self)
  note f = put_header_fold [of n "put32 d 0 (word_of_int (int n))" "lh_block lh"]
  have g: "get32 (put32 d 0 (word_of_int (int n))) 0 = word_of_int (int n)" using assms(3) by (intro get32_put32) simp
  show "length (put_header d lh) = length d" "sint (get32 (put_header d lh) 0) = int n"
    "\<And>i. i < n \<Longrightarrow> get32 (put_header d lh) (4 + 4 * i) = lh_block lh i"
    using f g s assms by (simp_all add: put_header_def)
qed

section \<open>What the disk stands for\<close>

text \<open>
  The contents a disk stands for: recovery copies each block the header names from the log. \<open>log_area\<close> are the
  blocks of the log itself, which hold no file data.
\<close>

definition log_count :: "uint32 \<Rightarrow> (nat \<Rightarrow> uint8 list) \<Rightarrow> nat" where
  "log_count st d = nat (sint (get32 (d (unat st)) 0))"

definition log_target :: "uint32 \<Rightarrow> (nat \<Rightarrow> uint8 list) \<Rightarrow> nat \<Rightarrow> uint32" where
  "log_target st d i = get32 (d (unat st)) (4 + 4 * i)"

definition stands_for :: "uint32 \<Rightarrow> (nat \<Rightarrow> uint8 list) \<Rightarrow> nat \<Rightarrow> uint8 list" where
  "stands_for st d x = (case find (\<lambda>i. unat (log_target st d i) = x) [0..<log_count st d] of
     Some i \<Rightarrow> d (unat st + i + 1) | None \<Rightarrow> d x)"

definition log_area :: "uint32 \<Rightarrow> nat set" where
  "log_area st = {unat st..unat st + LOGSIZE}"

text \<open>A header a transaction can have written: at most 29 blocks, all different, none of them in the log.\<close>

definition good_targets :: "uint32 \<Rightarrow> nat \<Rightarrow> (nat \<Rightarrow> uint32) \<Rightarrow> bool" where
  "good_targets st n bk \<longleftrightarrow> n < NBUF \<and> unat st + LOGSIZE < 2 ^ 31 \<and> inj_on bk {..<n} \<and>
     (\<forall>i < n. unat (bk i) < 2 ^ 31 \<and> unat (bk i) \<notin> log_area st)"

lemma log_block:
  assumes "unat st + LOGSIZE < 2 ^ 31" and "i < NBUF"
  shows "unat (st + of_nat i + 1 :: uint32) = unat st + i + 1"
proof -
  have "unat (of_nat (unat st + i + 1) :: uint32) = unat st + i + 1"
    using assms by (intro unat_of_nat_eq) simp
  then show ?thesis by (simp add: ac_simps)
qed

lemma log_apart:
  assumes "good_targets st n bk" and "i < n"
  shows "unat (st + of_nat i + 1) = unat st + i + 1" "unat (st + of_nat i + 1) < 2 ^ 31" "unat (bk i) < 2 ^ 31" "\<And>j. j < n \<Longrightarrow> st + of_nat i + 1 \<noteq> bk j"
proof -
  have g: "unat st + LOGSIZE < 2 ^ 31" "n < NBUF" "\<And>j. j < n \<Longrightarrow> unat (bk j) < 2 ^ 31 \<and> unat (bk j) \<notin> log_area st" using assms(1) by (auto simp: good_targets_def)
  show l: "unat (st + of_nat i + 1) = unat st + i + 1" using g assms(2) by (intro log_block) simp_all
  show "unat (st + of_nat i + 1) < 2 ^ 31" unfolding l using g assms(2) by simp
  show "unat (bk i) < 2 ^ 31" using g assms(2) by blast
  show "st + of_nat i + 1 \<noteq> bk j" if "j < n" for j using g(3) [of j] l g(2) assms(2) that by (auto simp: log_area_def)
qed

section \<open>Loops over the header\<close>

lemma works_know: "(\<And>s. P s \<Longrightarrow> \<phi>) \<Longrightarrow> (\<phi> \<Longrightarrow> works dev k P m Q C) \<Longrightarrow> works dev k P m Q C"
  unfolding works_def by blast

lemma works_for:
  assumes step: "\<And>i. i < n \<Longrightarrow> works dev c (I i) (body i) (\<lambda>r t. r = Inl (Suc i) \<and> I (Suc i) t) C"
    and last: "works dev 0 (I n) (body n) (\<lambda>r t. r = Inr () \<and> I n t) C"
  shows "works dev (c * n) (I 0) (loop (Suc n) body 0) (\<lambda>_. I n) C"
proof -
  have "works dev (c * k) (I i) (loop (Suc k) body i) (\<lambda>_. I n) C" if "i + k = n" for k i
    using that
  proof (induction k arbitrary: i)
    case 0
    have "works dev (0 + 0) (I n) (loop (Suc 0) body n) (\<lambda>_. I n) C"
      unfolding loop.simps(2)
      by (rule works_bind [OF last]) (rule works_imp, simp add: works_ret)
    then show ?case using 0 by simp
  next
    case (Suc k)
    have "works dev (c + c * k) (I i) (loop (Suc (Suc k)) body i) (\<lambda>_. I n) C"
      unfolding loop.simps(2) [of "Suc k"]
      by (rule works_bind [OF step]) (use Suc in \<open>auto intro!: works_imp simp del: loop.simps\<close>)
    then show ?case by (simp del: loop.simps)
  qed
  from this [of 0 n] show ?thesis by (simp del: loop.simps)
qed

section \<open>Writing the log\<close>

definition log_blk :: "view \<Rightarrow> nat \<Rightarrow> uint32" where
  "log_blk v i = l_start (v_log v) + of_nat i + 1"

definition home_blk :: "view \<Rightarrow> nat \<Rightarrow> uint32" where
  "home_blk v i = lh_block (l_lh (v_log v)) i"

definition put_block :: "view \<Rightarrow> uint32 \<Rightarrow> uint8 list \<Rightarrow> view" where
  "put_block v x d = v\<lparr>v_data := (v_data v)(x := d), v_disk := (v_disk v)(unat x := d)\<rparr>"

lemma put_block_simps [simp]:
  "v_held (put_block v x d) = v_held v" "v_pins (put_block v x d) = v_pins v" "v_log (put_block v x d) = v_log v"
  "v_data (put_block v x d) = (v_data v)(x := d)" "v_disk (put_block v x d) = (v_disk v)(unat x := d)"
  by (simp_all add: put_block_def)

primrec logged :: "view \<Rightarrow> nat \<Rightarrow> view" where
  "logged v 0 = v"
| "logged v (Suc i) = put_block (logged v i) (log_blk v i) (v_data (logged v i) (home_blk v i))"

lemma logged_simps [simp]:
  "v_held (logged v i) = v_held v" "v_pins (logged v i) = v_pins v" "v_log (logged v i) = v_log v"
  by (induction i) simp_all

primrec installed :: "bool \<Rightarrow> view \<Rightarrow> nat \<Rightarrow> view" where
  "installed r v 0 = v"
| "installed r v (Suc i) = (put_block (installed r v i) (home_blk v i) (v_data (installed r v i) (log_blk v i)))
     \<lparr>v_pins := if r then v_pins (installed r v i) else v_pins (installed r v i) - {home_blk v i}\<rparr>"

lemma installed_simps [simp]:
  "v_held (installed r v i) = v_held v" "v_log (installed r v i) = v_log v" "v_pins (installed r v i) = (if r then v_pins v else v_pins v - home_blk v ` {..<i})"
  by (induction i) (auto simp: lessThan_Suc)

context block_device
begin

lemma seq_bread:
  assumes "x \<notin> ran (v_held v)" "unat x < 2 ^ 31" "x \<in> v_pins v \<or> card (v_pins v) + card (dom (v_held v)) < NBUF" and "C (v_disk v)"
    and "\<And>b. v_held v b = None \<Longrightarrow> works dev k (cache {} p dv (v\<lparr>v_held := (v_held v)(b \<mapsto> x)\<rparr>)) (f b) Q C"
  shows "works dev (1 + k) (cache {} p dv v) (bind (bread dv x) f) Q C"
proof (rule works_bind)
  show "works dev 1 (cache {} p dv v) (bread dv x)
    (\<lambda>b t. v_held v b = None \<and> cache {} p dv (v\<lparr>v_held := (v_held v)(b \<mapsto> x)\<rparr>) t) C"
    using assms(4) by (intro works_conseq [OF bread_works [OF assms(1-3)]]) simp_all
qed (rule works_imp, rule assms(5))

lemma seq_bwrite:
  assumes "v_held v b = Some x" "unat x < 2 ^ 31" and "C (v_disk v)"
    and "works dev k (cache {} p dv (v\<lparr>v_disk := (v_disk v)(unat x := v_data v x)\<rparr>)) (f ()) Q C"
  shows "works dev (1 + k) (cache {} p dv v) (bind (bwrite b) f) Q C"
proof (rule works_bind)
  show "works dev 1 (cache {} p dv v) (bwrite b) (\<lambda>_. cache {} p dv (v\<lparr>v_disk := (v_disk v)(unat x := v_data v x)\<rparr>)) C"
    using assms(3) by (intro works_conseq [OF bwrite_works [OF assms(1,2)]]) simp_all
qed (use assms(4) in simp)

end

lemma seq_getl:
  assumes "g (v_log v) = a" and "works dev k (cache E p dv v) (f a) Q C"
  shows "works dev k (cache E p dv v) (bind (getl g) f) Q C"
proof -
  have "works dev (0 + k) (cache E p dv v) (bind (getl g) f) Q C"
    by (rule works_bind [OF works_getl]) (rule works_imp, use assms in simp)
  then show ?thesis by simp
qed

lemma works_bind0:
  assumes "works dev 0 P m (\<lambda>_. R) C" and "works dev k R (f ()) Q C"
  shows "works dev k P (bind m f) Q C"
  using works_bind [OF assms(1), of k f Q] assms(2) by simp

lemma cache_view:
  assumes "cache E p dv v s" and "v_held w = v_held v" and "v_pins w = v_pins v" and "v_data w = v_data v"
    and "v_disk w = v_disk v" and "v_log w = v_log v"
  shows "cache E p dv w s"
proof -
  have "w = v" using assms(2-) by (intro view.equality) simp_all
  then show ?thesis using assms(1) by simp
qed

lemmas seq_upd_log = works_bind0 [OF works_upd_log]

lemma seq_getdata:
  assumes "v_held v b = Some x" and "works dev k (cache {} p dv v) (f (v_data v x)) Q C"
  shows "works dev k (cache {} p dv v) (bind (getbuf b b_data) f) Q C"
proof -
  have "works dev (0 + k) (cache {} p dv v) (bind (getbuf b b_data) f) Q C"
    by (rule works_bind [OF works_getdata [OF assms(1)]]) (rule works_imp, simp add: assms(2))
  then show ?thesis by simp
qed

lemmas seq_setdata = works_bind0 [OF works_setdata]
lemmas seq_brelse = works_bind0 [OF brelse_works]
lemma last_brelse:
  assumes "v_held v b = Some x" and "x \<in> v_pins v \<or> v_data v x = v_disk v (unat x)"
    and "\<And>s. cache {} p dv (v\<lparr>v_held := (v_held v)(b := None)\<rparr>) s \<Longrightarrow> Q () s"
  shows "works dev 0 (cache {} p dv v) (brelse b) Q C"
  by (rule works_conseq [OF brelse_works [OF assms(1,2)]]) (use assms(3) in simp_all)

lemmas seq_bunpin = works_bind0 [OF bunpin_works]

context block_device
begin

lemma write_log_step:
  assumes h: "v_held w = Map.empty" and x: "unat x < 2 ^ 31" "unat y < 2 ^ 31" "x \<noteq> y" "y \<in> v_pins w"
    and y: "lh_block (l_lh (v_log w)) i = y" and room: "card (v_pins w) < NBUF"
  shows "works dev (1 + (1 + (1 + 0))) (cache {} p dv w)
    (bind (bread dv x) (\<lambda>to.
     bind (getl (\<lambda>l. lh_block (l_lh l) i)) (\<lambda>bno.
     bind (bread dv bno) (\<lambda>from.
     bind (getbuf from b_data) (\<lambda>d.
     bind (upd_buf to (\<lambda>k. k\<lparr>b_data := d\<rparr>)) (\<lambda>_.
     bind (bwrite to) (\<lambda>_.
     bind (brelse from) (\<lambda>_.
     bind (brelse to) (\<lambda>_.
     ret r))))))))) (\<lambda>a t. a = r \<and> cache {} p dv (put_block w x (v_data w y)) t) (\<lambda>d. d = v_disk w)"
  apply (rule seq_bread, simp add: h, rule x, use room h in simp, rule refl)
  apply (rule seq_getl [where a = y], simp add: y)
  apply (rule seq_bread, use h x(3) in simp, rule x, simp add: x, simp)
  apply (rule seq_getdata [where x = y], simp)
  apply (rule seq_setdata [where x = x], simp add: h split: if_splits)
  apply (rule seq_bwrite [where x = x], simp add: h split: if_splits, rule x, simp)
  apply (rule seq_brelse [where x = y], simp, simp add: x)
  apply (rule seq_brelse [where x = x], simp add: h split: if_splits, simp)
  apply (rule works_ret, rule conjI, rule refl, erule cache_view)
  apply (auto simp: h split: if_splits)
  done

lemma install_step:
  assumes h: "v_held w = Map.empty" and x: "unat x < 2 ^ 31" "unat y < 2 ^ 31" "x \<noteq> y" "x \<notin> v_pins w"
    and y: "lh_block (l_lh (v_log w)) i = y" "\<not> r \<Longrightarrow> y \<in> v_pins w" and room: "card (v_pins w) + (if r then 1 else 0) < NBUF"
  shows "works dev (1 + (1 + (1 + 0))) (cache {} p dv w)
    (bind (bread dv x) (\<lambda>lbuf.
     bind (getl (\<lambda>l. lh_block (l_lh l) i)) (\<lambda>bno.
     bind (bread dv bno) (\<lambda>dbuf.
     bind (getbuf lbuf b_data) (\<lambda>d.
     bind (upd_buf dbuf (\<lambda>k. k\<lparr>b_data := d\<rparr>)) (\<lambda>_.
     bind (bwrite dbuf) (\<lambda>_.
     bind (whenM (\<not> r) (bunpin dbuf)) (\<lambda>_.
     bind (brelse lbuf) (\<lambda>_.
     bind (brelse dbuf) (\<lambda>_.
     ret a)))))))))) (\<lambda>c t. c = a \<and> cache {} p dv ((put_block w y (v_data w x))\<lparr>v_pins := if r then v_pins w else v_pins w - {y}\<rparr>) t) (\<lambda>d. d = v_disk w)"
proof (rule works_know)
  show "v_data w x = v_disk w (unat x)" if "cache {} p dv w s" for s
    using bufs_okD(9) [OF cacheD(5) [OF that], of x] x(4) h by simp
  assume d: "v_data w x = v_disk w (unat x)"
  have xy: "unat x \<noteq> unat y" using x(3) by (simp add: word_unat_eq_iff)
  have un: "works dev k (cache {} p dv v) (bind (whenM (\<not> r) (bunpin b)) f) Q C"
    if "v_held v b = Some y" "v_pins v = v_pins w" "works dev k (cache {} p dv (v\<lparr>v_pins := if r then v_pins w else v_pins w - {y}\<rparr>)) (f ()) Q C"
    for k v b f Q C
  proof (cases r)
    case True
    have e: "v\<lparr>v_pins := v_pins w\<rparr> = v" by (simp flip: that(2))
    show ?thesis using True that(3) by (simp add: whenM_def e)
  next
    case False
    then show ?thesis using that seq_bunpin [OF that(1)] y by (simp add: whenM_def)
  qed
  show ?thesis
    apply (rule seq_bread, simp add: h, rule x, use room h in \<open>simp split: if_splits\<close>, rule refl)
    apply (rule seq_getl [where a = y], simp add: y)
    apply (rule seq_bread, use h x(3) in simp, rule x, use room h y in \<open>simp split: if_splits\<close>, simp)
    apply (rule seq_getdata [where x = x], simp add: h split: if_splits)
    apply (rule seq_setdata [where x = y], simp)
    apply (rule seq_bwrite [where x = y], simp, rule x, simp)
    apply (rule un, simp, simp)
    apply (rule seq_brelse [where x = x], use xy in \<open>simp add: h split: if_splits\<close>, use xy x in \<open>simp add: d\<close>)
    apply (rule seq_brelse [where x = y], simp add: h split: if_splits, simp)
    apply (rule works_ret, rule conjI, rule refl, erule cache_view)
    apply (auto simp: h split: if_splits)
    done
qed

lemma write_log_works:
  assumes h: "v_held v = Map.empty" and g: "good_targets (l_start (v_log v)) n (home_blk v)" and n: "lh_n (l_lh (v_log v)) = int n"
    and dv: "l_dev (v_log v) = dv" and pins: "v_pins v = home_blk v ` {..<n}"
  shows "works dev (3 * n) (cache {} p dv v) write_log (\<lambda>_. cache {} p dv (logged v n)) (\<lambda>d. \<exists>i \<le> n. d = v_disk (logged v i))"
proof -
  let ?C = "\<lambda>d. \<exists>i \<le> n. d = v_disk (logged v i)"
  have card: "card (v_pins v) < NBUF" using g card_image_le [of "{..<n}" "home_blk v"] by (simp add: pins good_targets_def)
  show ?thesis unfolding write_log_def
    apply (rule seq_getl [where a = "int n"], rule n)
    unfolding nat_int
    proof (rule works_for [where I = "\<lambda>i. cache {} p dv (logged v i)", unfolded logged.simps(1)], goal_cases)
      case (1 i)
      have x: "unat (log_blk v i) < 2 ^ 31" "unat (home_blk v i) < 2 ^ 31" "log_blk v i \<noteq> home_blk v i"
        using log_apart [OF g 1] 1 by (simp_all add: log_blk_def)
      show ?case
        apply (rule seq_getl [where a = "int n"], simp add: n)
        apply (subst if_not_P, use 1 in simp)
        apply (rule seq_getl [where a = dv], simp add: dv, rule seq_getl, rule refl)
        apply (rule works_conseq [OF write_log_step [where w = "logged v i" and y = "home_blk v i"]])
        using h x pins 1 card by (auto simp: log_blk_def home_blk_def intro: exI [of _ i])
    next
      case 2
      show ?case
        by (rule seq_getl [where a = "int n"]) (simp_all add: n works_ret)
    qed
qed

lemma install_trans_works:
  assumes h: "v_held v = Map.empty" and g: "good_targets (l_start (v_log v)) n (home_blk v)" and n: "lh_n (l_lh (v_log v)) = int n"
    and dv: "l_dev (v_log v) = dv" and pins: "v_pins v = (if r then {} else home_blk v ` {..<n})"
  shows "works dev (3 * n) (cache {} p dv v) (install_trans r) (\<lambda>_. cache {} p dv (installed r v n)) (\<lambda>d. \<exists>i \<le> n. d = v_disk (installed r v i))"
proof -
  let ?C = "\<lambda>d. \<exists>i \<le> n. d = v_disk (installed r v i)"
  have card: "card (v_pins v) < NBUF" using g card_image_le [of "{..<n}" "home_blk v"] by (simp add: pins good_targets_def)
  show ?thesis unfolding install_trans_def
    apply (rule seq_getl [where a = "int n"], rule n)
    unfolding nat_int
    proof (rule works_for [where I = "\<lambda>i. cache {} p dv (installed r v i)", unfolded installed.simps(1)], goal_cases)
      case (1 i)
      note la = log_apart [OF g 1]
      have x: "unat (log_blk v i) < 2 ^ 31" "unat (home_blk v i) < 2 ^ 31" "log_blk v i \<noteq> home_blk v i"
        using la 1 by (simp_all add: log_blk_def)
      have xp: "log_blk v i \<notin> v_pins (installed r v i)" using la(4) by (auto simp: pins log_blk_def)
      have yp: "\<not> r \<Longrightarrow> home_blk v i \<in> v_pins (installed r v i)"
      proof -
        assume r: "\<not> r"
        have "home_blk v j \<noteq> home_blk v i" if "j < i" for j
          using g 1 that inj_onD [of "home_blk v" "{..<n}" j i] by (auto simp: good_targets_def)
        then show ?thesis using 1 r by (force simp: pins)
      qed
      have "card (v_pins (installed r v i)) \<le> card (v_pins v)" by (intro card_mono) (auto simp: pins)
      then have c: "card (v_pins (installed r v i)) + (if r then 1 else 0) < NBUF" using card pins by (cases r) auto
      show ?case
        apply (rule seq_getl [where a = "int n"], simp add: n)
        apply (subst if_not_P, use 1 in simp)
        apply (rule seq_getl [where a = dv], simp add: dv, rule seq_getl, rule refl)
        apply (rule works_conseq [OF install_step [where w = "installed r v i" and y = "home_blk v i" and r = r]])
        apply (simp add: h)
        using x apply (simp add: log_blk_def)
        apply (rule x)
        using x apply (simp add: log_blk_def)
        using xp apply (simp add: log_blk_def)
        apply (simp add: home_blk_def)
        apply (erule yp)
        apply (rule c)
        using 1 by (auto simp: log_blk_def intro: exI [of _ i])
    next
      case 2
      show ?case
        by (rule seq_getl [where a = "int n"]) (simp_all add: n works_ret)
    qed
qed

lemma write_head_works:
  assumes h: "v_held v = Map.empty" and st: "unat (l_start (v_log v)) < 2 ^ 31" "card (v_pins v) < NBUF" and dv: "l_dev (v_log v) = dv"
  shows "works dev (1 + (1 + 0)) (cache {} p dv v) write_head
    (\<lambda>_. cache {} p dv (put_block v (l_start (v_log v)) (put_header (v_data v (l_start (v_log v))) (l_lh (v_log v))))) (\<lambda>d. d = v_disk v)"
  unfolding write_head_def
  apply (rule seq_getl [where a = dv], rule dv, rule seq_getl, rule refl)
  apply (rule seq_bread, simp add: h, rule st, use st h in simp, rule refl)
  apply (rule seq_getl, rule refl)
  apply (rule seq_setdata [where x = "l_start (v_log v)"], simp)
  apply (rule seq_bwrite [where x = "l_start (v_log v)"], simp, rule st, simp)
  apply (rule last_brelse [where x = "l_start (v_log v)"], simp, simp)
  by (erule cache_view; auto simp: h)

lemma read_head_works:
  assumes h: "v_held v = Map.empty" and st: "unat (l_start (v_log v)) < 2 ^ 31" "card (v_pins v) < NBUF" "l_start (v_log v) \<notin> v_pins v" and dv: "l_dev (v_log v) = dv"
  shows "works dev (1 + 0) (cache {} p dv v) read_head
    (\<lambda>_. cache {} p dv (v\<lparr>v_log := (v_log v)\<lparr>l_lh := header_of (v_disk v (unat (l_start (v_log v)))) (l_lh (v_log v))\<rparr>\<rparr>)) (\<lambda>d. d = v_disk v)"
proof (rule works_know)
  let ?st = "l_start (v_log v)"
  show "v_data v ?st = v_disk v (unat ?st)" if "cache {} p dv v s" for s :: "'a kern_scheme"
    using bufs_okD(9) [OF cacheD(5) [OF that], of ?st] st h by simp
  assume d: "v_data v ?st = v_disk v (unat ?st)"
  show ?thesis unfolding read_head_def
    apply (rule seq_getl [where a = dv], rule dv, rule seq_getl, rule refl)
    apply (rule seq_bread, simp add: h, rule st, use st h in simp, rule refl)
    apply (rule seq_getdata [where x = ?st], simp)
    apply (rule seq_upd_log)
    apply (rule last_brelse [where x = ?st], simp, simp add: d)
    by (erule cache_view; simp add: h d)
qed

end
end
