(* ===== verification/Recovery.thy ===== *)
theory Recovery
  imports Crash
begin

text \<open>
  Crash safety of the log, \<^verbatim>\<open>kernel/log.c\<close>: what a disk stands for while a transaction is written, that
  \<open>commit\<close> and \<open>end_op\<close> may be cut off at any request to the disk, and that start-up then finds all of the
  transaction or nothing of it.
\<close>

section \<open>The contents behind the log\<close>

lemma find_first:
  assumes "i < n" and "P i" and "\<And>j. j < n \<Longrightarrow> P j \<Longrightarrow> j = i"
  shows "find P [0..<n] = Some i"
proof (cases "find P [0..<n]")
  case None
  then show ?thesis using assms(1,2) by (auto simp: find_None_iff)
next
  case (Some j)
  then show ?thesis using find_in [OF Some] assms(3) by simp
qed

lemma stands_for_target:
  assumes "inj_on bk {..<n}" and "log_count st d = n" and t: "\<And>i. i < n \<Longrightarrow> log_target st d i = bk i"
  shows "i < n \<Longrightarrow> stands_for st d (unat (bk i)) = d (unat st + i + 1)"
    and "x \<notin> (\<lambda>i. unat (bk i)) ` {..<n} \<Longrightarrow> stands_for st d x = d x"
proof -
  assume i: "i < n"
  have "find (\<lambda>j. unat (log_target st d j) = unat (bk i)) [0..<n] = Some i"
    by (rule find_first) (use i t assms(1) in \<open>auto simp: word_unat_eq_iff [symmetric] dest: inj_onD\<close>)
  then show "stands_for st d (unat (bk i)) = d (unat st + i + 1)" by (simp add: stands_for_def assms(2))
next
  assume x: "x \<notin> (\<lambda>i. unat (bk i)) ` {..<n}"
  have "find (\<lambda>j. unat (log_target st d j) = x) [0..<n] = None" using x t by (auto simp: find_None_iff)
  then show "stands_for st d x = d x" by (simp add: stands_for_def assms(2))
qed

lemma stands_for_empty: "log_count st d = 0 \<Longrightarrow> stands_for st d x = d x"
  by (simp add: stands_for_def)

text \<open>Writing the log leaves every other block alone.\<close>

lemma logged_facts:
  assumes g: "good_targets (l_start (v_log v)) n (home_blk v)" and i: "i \<le> n"
  shows "x \<notin> {unat (l_start (v_log v)) + 1..unat (l_start (v_log v)) + n} \<Longrightarrow> v_disk (logged v i) x = v_disk v x"
    and "j < n \<Longrightarrow> v_data (logged v i) (home_blk v j) = v_data v (home_blk v j)"
    and "j < i \<Longrightarrow> v_disk (logged v i) (unat (l_start (v_log v)) + j + 1) = v_data v (home_blk v j)"
    and "v_data (logged v i) (l_start (v_log v)) = v_data v (l_start (v_log v))"
    and "j < i \<Longrightarrow> v_data (logged v i) (log_blk v j) = v_data v (home_blk v j)"
proof -
  let ?st = "l_start (v_log v)"
  have u: "unat (log_blk v i) = unat ?st + i + 1" if "i < n" for i using log_apart(1) [OF g that] by (simp add: log_blk_def)
  have d: "v_data (logged v i) (home_blk v j) = v_data v (home_blk v j)" if "j < n" "i \<le> n" for i j
    using that(2)
  proof (induction i)
    case (Suc i)
    then show ?case using log_apart(4) [OF g _ that(1), of i] by (auto simp: log_blk_def)
  qed simp
  show "v_data (logged v i) (home_blk v j) = v_data v (home_blk v j)" if "j < n" using d that i by blast
  show "v_disk (logged v i) x = v_disk v x" if "x \<notin> {unat ?st + 1..unat ?st + n}"
    using i that by (induction i) (auto simp: u)
  show "v_disk (logged v i) (unat ?st + j + 1) = v_data v (home_blk v j)" if "j < i"
    using i that
  proof (induction i)
    case (Suc i)
    then show ?case by (cases "j = i") (auto simp: u d)
  qed simp
  show "v_data (logged v i) (log_blk v j) = v_data v (home_blk v j)" if "j < i"
    using i that
  proof (induction i)
    case (Suc i)
    have "log_blk v j \<noteq> log_blk v i" if "j \<noteq> i" using u [of i] u [of j] Suc.prems that by auto
    then show ?case using Suc by (cases "j = i") (auto simp: d)
  qed simp
  show "v_data (logged v i) ?st = v_data v ?st" using i
  proof (induction i)
    case (Suc i)
    then have "log_blk v i \<noteq> ?st" using u [of i] by auto
    then show ?case using Suc by auto
  qed simp
qed

text \<open>Installing it writes the blocks it names.\<close>

lemma installed_facts:
  assumes g: "good_targets (l_start (v_log v)) n (home_blk v)" and i: "i \<le> n"
  shows "x \<notin> (\<lambda>j. unat (home_blk v j)) ` {..<i} \<Longrightarrow> v_disk (installed r v i) x = v_disk v x"
    and "j < i \<Longrightarrow> v_disk (installed r v i) (unat (home_blk v j)) = v_data v (log_blk v j)"
    and "\<And>y. unat y \<in> log_area (l_start (v_log v)) \<Longrightarrow> v_data (installed r v i) y = v_data v y"
proof -
  have na: "unat (home_blk v j) \<notin> log_area (l_start (v_log v))" if "j < n" for j using g that by (simp add: good_targets_def)
  show "v_disk (installed r v i) x = v_disk v x" if "x \<notin> (\<lambda>j. unat (home_blk v j)) ` {..<i}"
    using that by (induction i) (auto simp: lessThan_Suc)
  have l: "v_data (installed r v i) y = v_data v y" if "unat y \<in> log_area (l_start (v_log v))" "i \<le> n" for y i
    using that(2)
  proof (induction i)
    case (Suc i)
    then show ?case using na [of i] that(1) by auto
  qed simp
  show "v_data (installed r v i) y = v_data v y" if "unat y \<in> log_area (l_start (v_log v))" for y using l that i by blast
  show "v_disk (installed r v i) (unat (home_blk v j)) = v_data v (log_blk v j)" if "j < i"
    using i that
  proof (induction i)
    case (Suc i)
    have "unat (log_blk v i) \<in> log_area (l_start (v_log v))"
      using log_apart(1) [OF g, of i] Suc.prems g by (auto simp: log_blk_def log_area_def good_targets_def)
    moreover have "home_blk v j \<noteq> home_blk v i" if "j \<noteq> i"
      using that Suc.prems g inj_onD [of "home_blk v" "{..<n}" j i] by (auto simp: good_targets_def)
    ultimately show ?case using Suc l [of "log_blk v i" i] by (cases "j = i") (auto simp: word_unat_eq_iff)
  qed simp
qed


text \<open>A disk recovery can start from.\<close>

definition good_log :: "uint32 \<Rightarrow> (nat \<Rightarrow> uint8 list) \<Rightarrow> bool" where
  "good_log st d \<longleftrightarrow> 0 \<le> sint (get32 (d (unat st)) 0) \<and> good_targets st (log_count st d) (log_target st d) \<and>
     length (d (unat st)) = BSIZE"

lemma log_cong:
  "d' (unat st) = d (unat st) \<Longrightarrow> log_count st d' = log_count st d \<and> log_target st d' i = log_target st d i \<and> good_log st d' = good_log st d"
  by (simp add: log_count_def log_target_def [abs_def] good_log_def)

text \<open>The same blocks seen through equal headers and logs.\<close>

lemma installed_stands_for:
  assumes g: "good_targets st n (home_blk v)" and st: "l_start (v_log v) = st" and i: "i \<le> n"
    and c: "log_count st (v_disk v) = n" and t: "\<And>j. j < n \<Longrightarrow> log_target st (v_disk v) j = home_blk v j"
    and cl: "\<And>j. j < n \<Longrightarrow> v_data v (log_blk v j) = v_disk v (unat st + j + 1)"
  shows "stands_for st (v_disk (installed r v i)) x = stands_for st (v_disk v) x"
    and "v_disk (installed r v n) x = stands_for st (v_disk v) x"
    and "v_disk (installed r v i) (unat st) = v_disk v (unat st)"
proof -
  let ?d = "\<lambda>i. v_disk (installed r v i)"
  have inj: "inj_on (home_blk v) {..<n}" and na: "\<And>j. j < n \<Longrightarrow> unat (home_blk v j) \<notin> log_area st" and n: "n < NBUF"
    using g by (auto simp: good_targets_def)
  note f = installed_facts [OF g [folded st], unfolded st, where r = r]
  have area: "?d i y = v_disk v y" if "y \<in> log_area st" "i \<le> n" for y i
    by (rule f(1)) (use that na in auto)
  have hd: "?d i (unat st) = v_disk v (unat st)" if "i \<le> n" for i using area that by (simp add: log_area_def)
  then show "?d i (unat st) = v_disk v (unat st)" using i by blast
  have lc: "log_count st (?d i) = n" "\<And>j. j < n \<Longrightarrow> log_target st (?d i) j = home_blk v j"
    using log_cong [of "?d i" st "v_disk v"] hd [OF i] c t by simp_all
  have lg: "?d i (unat st + j + 1) = v_disk v (unat st + j + 1)" if "j < n" for j
    by (rule area) (use that n i in \<open>simp_all add: log_area_def\<close>)
  show "stands_for st (?d i) x = stands_for st (v_disk v) x"
  proof (cases "x \<in> (\<lambda>j. unat (home_blk v j)) ` {..<n}")
    case True
    then show ?thesis using stands_for_target(1) [OF inj lc] stands_for_target(1) [OF inj c t] lg by auto
  next
    case False
    then have "x \<notin> (\<lambda>j. unat (home_blk v j)) ` {..<i}" using i by auto
    then show ?thesis using stands_for_target(2) [OF inj lc False] stands_for_target(2) [OF inj c t False] f(1) [OF i] by simp
  qed
  show "?d n x = stands_for st (v_disk v) x"
  proof (cases "x \<in> (\<lambda>j. unat (home_blk v j)) ` {..<n}")
    case True
    then show ?thesis using stands_for_target(1) [OF inj c t] f(2) [of n] cl by auto
  next
    case False
    then show ?thesis using stands_for_target(2) [OF inj c t False] f(1) [of n] by simp
  qed
qed

lemma erased:
  assumes "length (d (unat st)) = BSIZE" and "lh_n lh = 0" and "d' = d(unat st := put_header (d (unat st)) lh)" and "unat st + LOGSIZE < 2 ^ 31"
  shows "log_count st d' = 0" "good_log st d'" "\<And>x. x \<notin> log_area st \<Longrightarrow> d' x = d x"
proof -
  have h: "length (d' (unat st)) = BSIZE" "sint (get32 (d' (unat st)) 0) = 0"
    using put_header_get(1,2) [of lh 0 "d (unat st)"] assms by simp_all
  then show "log_count st d' = 0" by (simp add: log_count_def)
  then show "good_log st d'" using h assms(4) by (simp add: good_log_def good_targets_def)
  show "d' x = d x" if "x \<notin> log_area st" for x using that assms(3) by (auto simp: log_area_def)
qed

text \<open>Writing the header of the log in memory, and the empty header.\<close>

definition rehead :: "view \<Rightarrow> view" where
  "rehead w = put_block w (l_start (v_log w)) (put_header (v_data w (l_start (v_log w))) (l_lh (v_log w)))"

definition cleared :: "view \<Rightarrow> view" where
  "cleared w = w\<lparr>v_log := (v_log w)\<lparr>l_lh := (l_lh (v_log w))\<lparr>lh_n := 0\<rparr>\<rparr>\<rparr>"

lemma rehead_simps [simp]: "v_held (rehead w) = v_held w" "v_pins (rehead w) = v_pins w" "v_log (rehead w) = v_log w"
  "v_held (cleared w) = v_held w" "v_pins (cleared w) = v_pins w" "v_disk (cleared w) = v_disk w" "v_data (cleared w) = v_data w"
  "l_start (v_log (cleared w)) = l_start (v_log w)" "l_dev (v_log (cleared w)) = l_dev (v_log w)" "lh_n (l_lh (v_log (cleared w))) = 0"
  by (simp_all add: rehead_def cleared_def)

lemma erase_installed:
  assumes g: "good_targets st n (home_blk v)" and st: "l_start (v_log v) = st"
    and c: "log_count st (v_disk v) = n" and t: "\<And>j. j < n \<Longrightarrow> log_target st (v_disk v) j = home_blk v j"
    and cl: "\<And>j. j < n \<Longrightarrow> v_data v (log_blk v j) = v_disk v (unat st + j + 1)"
    and hd: "v_data v st = v_disk v (unat st)" "length (v_disk v (unat st)) = BSIZE"
  shows "log_count st (v_disk (rehead (cleared (installed r v n)))) = 0" "good_log st (v_disk (rehead (cleared (installed r v n))))"
    "\<And>x. x \<notin> log_area st \<Longrightarrow> v_disk (rehead (cleared (installed r v n))) x = stands_for st (v_disk v) x"
proof -
  let ?w = "installed r v n"
  note isf = installed_stands_for [OF g st order_refl c t cl, where r = r]
  have "v_data ?w st = v_disk ?w (unat st)"
    using installed_facts(3) [OF g [folded st] order_refl, of st r] isf(3) hd st by (simp add: log_area_def)
  then have d: "v_disk (rehead (cleared ?w)) = (v_disk ?w)(unat st := put_header (v_disk ?w (unat st)) (l_lh (v_log (cleared ?w))))"
    by (simp add: rehead_def st)
  have "unat st + LOGSIZE < 2 ^ 31" using g by (simp add: good_targets_def)
  note e = erased [OF _ _ d this]
  show "log_count st (v_disk (rehead (cleared ?w))) = 0" "good_log st (v_disk (rehead (cleared ?w)))"
    using e(1,2) isf(3) hd by simp_all
  show "v_disk (rehead (cleared ?w)) x = stands_for st (v_disk v) x" if "x \<notin> log_area st" for x
    using e(3) [OF _ _ that] isf(2,3) hd by simp
qed

context block_device
begin

lemma set_lh_n_works: "works dev 0 (cache {} p dv v) (set_lh_n 0) (\<lambda>_. cache {} p dv (cleared v)) C"
  unfolding set_lh_n_def cleared_def by (rule works_upd_log)

lemma rehead_works:
  assumes "v_held v = Map.empty" and "unat (l_start (v_log v)) < 2 ^ 31" "card (v_pins v) < NBUF" and "l_dev (v_log v) = dv" and "C (v_disk v)"
  shows "works dev 2 (cache {} p dv v) write_head (\<lambda>_. cache {} p dv (rehead v)) C"
  using assms(5) by (intro works_conseq [OF write_head_works [OF assms(1-4)]]) (auto simp: rehead_def)

end

text \<open>The header read back.\<close>

definition with_head :: "view \<Rightarrow> view" where
  "with_head v = v\<lparr>v_log := (v_log v)\<lparr>l_lh := header_of (v_disk v (unat (l_start (v_log v)))) (l_lh (v_log v))\<rparr>\<rparr>"

lemma with_head_facts:
  assumes "l_start (v_log v) = st" and g: "good_log st (v_disk v)"
  shows "good_targets st (log_count st (v_disk v)) (home_blk (with_head v))" "lh_n (l_lh (v_log (with_head v))) = int (log_count st (v_disk v))"
    "\<And>j. j < log_count st (v_disk v) \<Longrightarrow> log_target st (v_disk v) j = home_blk (with_head v) j"
    "l_start (v_log (with_head v)) = st" "l_dev (v_log (with_head v)) = l_dev (v_log v)"
    "v_held (with_head v) = v_held v" "v_pins (with_head v) = v_pins v" "v_disk (with_head v) = v_disk v" "v_data (with_head v) = v_data v"
proof -
  show t: "log_target st (v_disk v) j = home_blk (with_head v) j" if "j < log_count st (v_disk v)" for j
    using that assms(1) by (simp add: with_head_def home_blk_def header_of_def Let_def log_target_def log_count_def)
  show "good_targets st (log_count st (v_disk v)) (home_blk (with_head v))"
    using g t by (auto simp: good_log_def good_targets_def inj_on_def)
qed (use assms in \<open>simp_all add: with_head_def header_of_def Let_def log_count_def good_log_def\<close>)

text \<open>
  The transaction that runs: the header in memory names the pinned blocks, and the header on the disk is empty.
  It can be committed once no buffer is in use.
\<close>

definition log_ok :: "uint32 \<Rightarrow> uint32 \<Rightarrow> nat \<Rightarrow> view \<Rightarrow> bool" where
  "log_ok dv st n v \<longleftrightarrow> l_start (v_log v) = st \<and> l_dev (v_log v) = dv \<and>
     lh_n (l_lh (v_log v)) = int n \<and> good_targets st n (home_blk v) \<and> v_pins v = home_blk v ` {..<n} \<and>
     good_log st (v_disk v) \<and> log_count st (v_disk v) = 0"

definition ready_to_commit :: "uint32 \<Rightarrow> uint32 \<Rightarrow> nat \<Rightarrow> view \<Rightarrow> bool" where
  "ready_to_commit dv st n v \<longleftrightarrow> v_held v = Map.empty \<and> log_ok dv st n v"

section \<open>Recovery\<close>

context block_device
begin

lemma recover_works:
  assumes h: "v_held v = Map.empty" "v_pins v = {}" and lg: "l_start (v_log v) = st" "l_dev (v_log v) = dv" and g: "good_log st (v_disk v)"
  shows "works dev (3 * NBUF) (cache {} p dv v) recover_from_log
    (\<lambda>_ t. \<exists>w. cache {} p dv w t \<and> ready_to_commit dv st 0 w \<and> (\<forall>x. x \<notin> log_area st \<longrightarrow> v_disk w x = stands_for st (v_disk v) x))
    (\<lambda>d. good_log st d \<and> (\<forall>x. x \<notin> log_area st \<longrightarrow> stands_for st d x = stands_for st (v_disk v) x))"
proof (rule works_know)
  show "\<forall>y. v_data v y = v_disk v (unat y)" if "cache {} p dv v s" for s :: "'a kern_scheme"
    using bufs_okD(9) [OF cacheD(5) [OF that]] h by simp
  assume clean: "\<forall>y. v_data v y = v_disk v (unat y)"
  let ?n = "log_count st (v_disk v)" and ?v1 = "with_head v"
  let ?C = "\<lambda>d. good_log st d \<and> (\<forall>x. x \<notin> log_area st \<longrightarrow> stands_for st d x = stands_for st (v_disk v) x)"
  note v1 = with_head_facts [OF lg(1) g]
  have cl: "v_data ?v1 (log_blk ?v1 j) = v_disk v (unat st + j + 1)" if "j < ?n" for j
    using log_apart(1) [OF v1(1) that] clean v1 by (simp add: log_blk_def)
  have n: "?n < NBUF" "unat st < 2 ^ 31" "length (v_disk v (unat st)) = BSIZE" using g by (simp_all add: good_log_def good_targets_def)
  note isf = installed_stands_for [OF v1(1,4), where r = True, unfolded v1(8), OF _ refl v1(3) cl]
  note er = erase_installed [OF v1(1,4), where r = True, unfolded v1(8,9), OF refl v1(3) cl [unfolded v1(9)] clean [rule_format] n(3)]
  have C2: "?C (v_disk (installed True ?v1 i))" if "i \<le> ?n" for i
    using isf(1,3) [OF that] g log_cong [of "v_disk (installed True ?v1 i)" st "v_disk v"] by simp
  have W1: "works dev 1 (cache {} p dv v) read_head (\<lambda>_. cache {} p dv ?v1) ?C"
    by (rule works_conseq [OF read_head_works [where v = v and dv = dv and p = p]]) (use h lg n g in \<open>auto simp: with_head_def\<close>)
  have W2: "works dev (3 * ?n) (cache {} p dv ?v1) (install_trans True) (\<lambda>_. cache {} p dv (installed True ?v1 ?n)) ?C"
    by (rule works_conseq [OF install_trans_works [where v = ?v1 and n = ?n and dv = dv and r = True and p = p]]) (use v1 h lg C2 in auto)
  have W4: "works dev 2 (cache {} p dv (cleared (installed True ?v1 ?n))) write_head (\<lambda>_. cache {} p dv (rehead (cleared (installed True ?v1 ?n)))) ?C"
    by (rule rehead_works) (use v1 h lg n C2 [OF order_refl] in simp_all)
  have "works dev (1 + (3 * ?n + (0 + 2))) (cache {} p dv v) recover_from_log (\<lambda>_. cache {} p dv (rehead (cleared (installed True ?v1 ?n)))) ?C"
    unfolding recover_from_log_def by (intro works_bind [OF W1] works_bind [OF W2] works_bind [OF set_lh_n_works] W4)
  moreover have "good_targets st 0 bk" for bk using g by (simp add: good_log_def good_targets_def)
  then have "ready_to_commit dv st 0 (rehead (cleared (installed True ?v1 ?n)))"
    using er(1,2) v1 h lg by (simp add: ready_to_commit_def log_ok_def)
  ultimately show ?thesis using n by (elim works_conseq) (use er(3) in auto)
qed

end

section \<open>Commit\<close>

text \<open>The contents after the transaction: the new data of the blocks it pins, and the old data of the rest.\<close>

definition committed :: "view \<Rightarrow> nat \<Rightarrow> uint8 list" where
  "committed v x = (if x \<in> unat ` v_pins v then v_data v (of_nat x) else v_disk v x)"

lemma write_head_commits:
  assumes r: "ready_to_commit dv st n v" and st: "v_data v st = v_disk v (unat st)"
    and v2: "v2 = rehead (logged v n)"
  shows "log_count st (v_disk v2) = n" "\<And>j. j < n \<Longrightarrow> log_target st (v_disk v2) j = home_blk v2 j"
    "good_log st (v_disk v2)" "\<And>x. x \<notin> log_area st \<Longrightarrow> stands_for st (v_disk v2) x = committed v x"
    "\<And>j. j < n \<Longrightarrow> v_data v2 (log_blk v2 j) = v_disk v2 (unat st + j + 1)"
proof -
  have v2: "v2 = put_block (logged v n) st (put_header (v_data (logged v n) st) (l_lh (v_log v)))"
    using r v2 by (simp add: rehead_def ready_to_commit_def log_ok_def)
  have R: "l_start (v_log v) = st" "lh_n (l_lh (v_log v)) = int n" "good_targets st n (home_blk v)" "v_pins v = home_blk v ` {..<n}"
    "length (v_disk v (unat st)) = BSIZE" using r by (simp_all add: ready_to_commit_def log_ok_def good_log_def)
  note lf = logged_facts [OF R(3) [folded R(1)], unfolded R(1)]
  have n: "n < NBUF" using R(3) by (simp add: good_targets_def)
  have b: "home_blk v2 = home_blk v" "log_blk v2 = log_blk v" by (auto simp: v2 home_blk_def log_blk_def)
  have hd: "v_disk v2 (unat st) = put_header (v_disk v (unat st)) (l_lh (v_log v))" using st lf(4) by (simp add: v2)
  note ph = put_header_get [OF R(2), of "v_disk v (unat st)"]
  show c: "log_count st (v_disk v2) = n" using ph(2) n R(5) by (simp add: log_count_def hd)
  show t: "log_target st (v_disk v2) j = home_blk v2 j" if "j < n" for j
    using ph(3) n R(5) that by (simp add: log_target_def hd b) (simp add: home_blk_def)
  have "good_targets st n (log_target st (v_disk v2))" using R(3) t by (auto simp: good_targets_def inj_on_def b)
  then show "good_log st (v_disk v2)" using ph(1,2) n R(5) c by (simp add: good_log_def hd)
  have lg: "v_disk v2 (unat st + j + 1) = v_data v (home_blk v j)" if "j < n" for j using lf(3) [OF order_refl that] by (simp add: v2)
  have la: "log_blk v j \<noteq> st" if "j < n" for j
  proof
    assume "log_blk v j = st"
    then have "unat (log_blk v j) = unat st" by simp
    then show False using log_apart(1) [OF R(3) that] R(1) by (simp add: log_blk_def)
  qed
  show "v_data v2 (log_blk v2 j) = v_disk v2 (unat st + j + 1)" if "j < n" for j
    using lg [OF that] lf(5) [OF order_refl that] la [OF that] by (simp add: b) (simp add: v2)
  have inj: "inj_on (home_blk v2) {..<n}" using R(3) by (simp add: good_targets_def b)
  show "stands_for st (v_disk v2) x = committed v x" if x: "x \<notin> log_area st" for x
  proof (cases "x \<in> (\<lambda>j. unat (home_blk v2 j)) ` {..<n}")
    case True
    then obtain j where j: "j < n" "x = unat (home_blk v j)" by (auto simp: b)
    then have "stands_for st (v_disk v2) x = v_data v (home_blk v j)" using stands_for_target(1) [OF inj c t j(1)] lg by (simp add: b)
    moreover have "committed v x = v_data v (home_blk v j)" using j R(4) by (auto simp: committed_def)
    ultimately show ?thesis by simp
  next
    case False
    then have "committed v x = v_disk v x" using R(4) by (auto simp: committed_def b)
    moreover have "v_disk v2 x = v_disk v x" using lf(1) [OF order_refl, of x] x n by (auto simp: v2 log_area_def)
    ultimately show ?thesis using stands_for_target(2) [OF inj c t False] by simp
  qed
qed

definition all_or_nothing :: "uint32 \<Rightarrow> view \<Rightarrow> (nat \<Rightarrow> uint8 list) \<Rightarrow> bool" where
  "all_or_nothing st v d \<longleftrightarrow> good_log st d \<and>
     ((\<forall>x. x \<notin> log_area st \<longrightarrow> stands_for st d x = v_disk v x) \<or> (\<forall>x. x \<notin> log_area st \<longrightarrow> stands_for st d x = committed v x))"

text \<open>The view once a transaction is over.\<close>

definition commit_done :: "uint32 \<Rightarrow> uint32 \<Rightarrow> view \<Rightarrow> view \<Rightarrow> bool" where
  "commit_done dv st v w \<longleftrightarrow> ready_to_commit dv st 0 w \<and> v_log w = (v_log v)\<lparr>l_lh := (l_lh (v_log v))\<lparr>lh_n := 0\<rparr>\<rparr> \<and>
     (\<forall>x. x \<notin> log_area st \<longrightarrow> v_disk w x = committed v x)"

lemma logged_old:
  assumes r: "ready_to_commit dv st n v" and i: "i \<le> n"
  shows "all_or_nothing st v (v_disk (logged v i))"
proof -
  have R: "l_start (v_log v) = st" "good_targets st n (home_blk v)" "good_log st (v_disk v)" "log_count st (v_disk v) = 0"
    using r by (simp_all add: ready_to_commit_def log_ok_def)
  note lf = logged_facts(1) [OF R(2) [folded R(1)] i, unfolded R(1)]
  have n: "n < NBUF" using R(2) by (simp add: good_targets_def)
  have "v_disk (logged v i) (unat st) = v_disk v (unat st)" by (rule lf) simp
  then have "good_log st (v_disk (logged v i))" "log_count st (v_disk (logged v i)) = 0"
    using log_cong [of "v_disk (logged v i)" st "v_disk v"] R(3,4) by simp_all
  moreover have "v_disk (logged v i) x = v_disk v x" if "x \<notin> log_area st" for x by (rule lf) (use that n in \<open>auto simp: log_area_def\<close>)
  ultimately show ?thesis by (simp add: all_or_nothing_def stands_for_empty)
qed

lemma installed_new:
  assumes r: "ready_to_commit dv st n v" and st: "v_data v st = v_disk v (unat st)"
  defines "v2 \<equiv> rehead (logged v n)"
  shows "i \<le> n \<Longrightarrow> all_or_nothing st v (v_disk (installed False v2 i))" "commit_done dv st v (rehead (cleared (installed False v2 n)))"
proof -
  have R: "v_held v = Map.empty" "l_start (v_log v) = st" "l_dev (v_log v) = dv" "good_targets st n (home_blk v)" "v_pins v = home_blk v ` {..<n}"
    using r by (simp_all add: ready_to_commit_def log_ok_def)
  note w = write_head_commits [OF r st v2_def [THEN meta_eq_to_obj_eq]]
  have b: "home_blk v2 = home_blk v" by (auto simp: v2_def home_blk_def)
  have v2: "l_start (v_log v2) = st" "good_targets st n (home_blk v2)" using R by (simp_all add: b) (simp add: v2_def)
  have hd: "v_data v2 st = v_disk v2 (unat st)" using R by (simp add: v2_def rehead_def)
  show "all_or_nothing st v (v_disk (installed False v2 i))" if "i \<le> n"
    using installed_stands_for(1,3) [OF v2(2,1) that w(1,2,5), where r = False] w(3,4)
      log_cong [of "v_disk (installed False v2 i)" st "v_disk v2"] by (simp add: all_or_nothing_def)
  note e = erase_installed [OF v2(2,1) w(1,2,5) hd, where r = False]
  have "good_targets st 0 bk" for bk using R(4) by (simp add: good_targets_def)
  then show "commit_done dv st v (rehead (cleared (installed False v2 n)))"
    using e w(3,4) R by (simp add: commit_done_def ready_to_commit_def log_ok_def good_log_def v2_def b [unfolded v2_def]) (simp add: cleared_def)
qed

context block_device
begin

lemma commit_works:
  assumes r: "ready_to_commit dv st n v"
  shows "works dev (6 * n + 4) (cache {} p dv v) commit
    (\<lambda>_ t. \<exists>w. cache {} p dv w t \<and> commit_done dv st v w) (all_or_nothing st v)"
proof (cases "n = 0")
  case True
  have R: "lh_n (l_lh (v_log v)) = 0" "v_pins v = {}" using r True by (simp_all add: ready_to_commit_def log_ok_def)
  have "(v_log v)\<lparr>l_lh := (l_lh (v_log v))\<lparr>lh_n := 0\<rparr>\<rparr> = v_log v" by (rule log.equality; simp add: R)
  then have dn: "commit_done dv st v v" using r True R by (simp add: commit_done_def committed_def)
  have "works dev 0 (cache {} p dv v) commit
    (\<lambda>_ t. \<exists>w. cache {} p dv w t \<and> commit_done dv st v w) (all_or_nothing st v)"
    unfolding commit_def
    by (rule seq_getl [where a = 0], rule R, unfold whenM_def, simp, rule works_ret) (use dn in \<open>auto intro: exI [of _ v]\<close>)
  then show ?thesis by (rule works_conseq) simp_all
next
  case False
  show ?thesis
  proof (rule works_know)
    show "v_data v st = v_disk v (unat st)" if "cache {} p dv v s" for s :: "'a kern_scheme"
    proof -
      have "st \<notin> v_pins v" using r by (auto simp: ready_to_commit_def log_ok_def good_targets_def log_area_def)
      then show ?thesis using bufs_okD(9) [OF cacheD(5) [OF that], of st] r by (simp add: ready_to_commit_def log_ok_def)
    qed
    assume st: "v_data v st = v_disk v (unat st)"
    let ?C = "all_or_nothing st v" and ?v1 = "logged v n" and ?v2 = "rehead (logged v n)" and ?v3 = "installed False (rehead (logged v n)) n"
    have R: "v_held v = Map.empty" "l_start (v_log v) = st" "l_dev (v_log v) = dv" "lh_n (l_lh (v_log v)) = int n" "good_targets st n (home_blk v)"
      "v_pins v = home_blk v ` {..<n}" using r by (simp_all add: ready_to_commit_def log_ok_def)
    note old = logged_old [OF r] and new = installed_new(1) [OF r st]
    have b: "home_blk ?v2 = home_blk v" by (auto simp: home_blk_def)
    have n: "n < NBUF" "unat st < 2 ^ 31" using R(5) by (simp_all add: good_targets_def)
    have card: "card (v_pins v) < NBUF" using n card_image_le [of "{..<n}" "home_blk v"] by (simp add: R(6))
    have W1: "works dev (3 * n) (cache {} p dv v) write_log (\<lambda>_. cache {} p dv ?v1) ?C"
      by (rule works_conseq [OF write_log_works [where v = v and n = n and dv = dv and p = p]]) (use R old in auto)
    have W2: "works dev 2 (cache {} p dv ?v1) write_head (\<lambda>_. cache {} p dv ?v2) ?C"
      by (rule rehead_works) (use R n card old [OF order_refl] in simp_all)
    have W3: "works dev (3 * n) (cache {} p dv ?v2) (install_trans False) (\<lambda>_. cache {} p dv ?v3) ?C"
      by (rule works_conseq [OF install_trans_works [where v = ?v2 and n = n and dv = dv and r = False and p = p]]) (use R b new in auto)
    have W5: "works dev 2 (cache {} p dv (cleared ?v3)) write_head (\<lambda>_. cache {} p dv (rehead (cleared ?v3))) ?C"
      by (rule rehead_works) (use R b n new [OF order_refl] in simp_all)
    have "works dev (3 * n + (2 + (3 * n + (0 + 2)))) (cache {} p dv v) commit (\<lambda>_. cache {} p dv (rehead (cleared ?v3))) ?C"
      unfolding commit_def
      by (rule seq_getl [where a = "int n"], rule R, unfold whenM_def, subst if_P, use False in simp)
        (intro works_bind [OF W1] works_bind [OF W2] works_bind [OF W3] works_bind [OF set_lh_n_works] W5)
    then show ?thesis by (rule works_conseq) (use installed_new(2) [OF r st] in auto)
  qed
qed

end


section \<open>The end of a system call\<close>

lemma works_step:
  assumes "\<And>s e. P s \<Longrightarrow> m s e = m' (g s) e" and "\<And>s. P s \<Longrightarrow> P' (g s)" and "works dev k P' m' Q C"
  shows "works dev k P m Q C"
  using assms unfolding works_def by simp

lemma cache_log: "cache E p dv v s \<Longrightarrow> cache E p dv (v\<lparr>v_log := l\<rparr>) (s\<lparr>klog := l\<rparr>)"
  using works_upd_log [of id E p dv v "\<lambda>_. l" "\<lambda>_. True"]
  by (force simp: works_def upd_log_def modify_apply)

lemma cache_procs:
  assumes "cache E p dv v s" and "ps p = procs s p"
  shows "cache E p dv v (s\<lparr>procs := ps\<rparr>)"
proof -
  have l: "lru (s\<lparr>procs := ps\<rparr>) = lru s" by (rule ext, rule lru_cong) simp_all
  show ?thesis using assms by (simp add: cache_def ready_procs l idle_disk_def)
qed

definition ending :: "log \<Rightarrow> log" where
  "ending l = l\<lparr>l_outstanding := 0, l_committing := True\<rparr>"

lemma end_op_last:
  assumes c: "cache {} p dv v s" and o: "l_outstanding (v_log v) = 1" "\<not> l_committing (v_log v)"
  shows "end_op s e = bind commit (\<lambda>_. bind (acquire LLog) (\<lambda>_.
       bind (upd_log (\<lambda>l. l\<lparr>l_committing := False\<rparr>)) (\<lambda>_.
       bind (wakeup ChLog) (\<lambda>_.
       release LLog)))) (s\<lparr>klog := ending (klog s)\<rparr>) e"
proof -
  note f = ready_simps [OF cacheD(1) [OF c]] and k = cacheD(4) [OF c]
  have rel: "release LLog (locked LLog (s\<lparr>klog := ending (v_log v)\<rparr>)) e = Ret () (s\<lparr>klog := ending (v_log v)\<rparr>) e"
    using f by (intro release_locked) simp_all
  show ?thesis unfolding end_op_def using f o
    by (simp add: bind_apply acquire_locked upd_log_def getl_def gets_apply modify_apply locked_updates k rel whenM_def ending_def [symmetric])
qed

lemma end_op_tail:
  "works dev 0 (cache {} p dv v) (bind (acquire LLog) (\<lambda>_.
       bind (upd_log (\<lambda>l. l\<lparr>l_committing := False\<rparr>)) (\<lambda>_.
       bind (wakeup ChLog) (\<lambda>_.
       release LLog)))) (\<lambda>_. cache {} p dv (v\<lparr>v_log := (v_log v)\<lparr>l_committing := False\<rparr>\<rparr>)) C"
proof (rule works_pure)
  fix s :: "'a kern_scheme" and e assume c: "cache {} p dv v s"
  note f = ready_simps [OF cacheD(1) [OF c]] and k = cacheD(4) [OF c]
  let ?s = "s\<lparr>klog := (v_log v)\<lparr>l_committing := False\<rparr>\<rparr>" let ?t = "?s\<lparr>procs := wakes ChLog s\<rparr>"
  have w: "wakes ChLog s p = procs s p" by (rule wakes_me) (rule f(4))
  have ct: "cache {} p dv (v\<lparr>v_log := (v_log v)\<lparr>l_committing := False\<rparr>\<rparr>) ?t"
    by (rule cache_procs [OF cache_log [OF c]]) (simp add: w)
  note f' = ready_simps [OF cacheD(1) [OF ct]]
  have "wakeup ChLog (locked LLog ?s) e = Ret () (locked LLog ?t) e"
    using f by (subst wakeup_wakes) (simp_all add: locked_updates)
  moreover have "release LLog (locked LLog ?t) e = Ret () ?t e" using f' by (intro release_locked) simp_all
  ultimately show "\<exists>a t. bind (acquire LLog) (\<lambda>_. bind (upd_log (\<lambda>l. l\<lparr>l_committing := False\<rparr>)) (\<lambda>_.
       bind (wakeup ChLog) (\<lambda>_. release LLog))) s e = Ret a t e \<and> cache {} p dv (v\<lparr>v_log := (v_log v)\<lparr>l_committing := False\<rparr>\<rparr>) t"
    using f ct by (simp add: bind_apply acquire_locked upd_log_def modify_apply locked_updates k)
qed

lemma ending_simps [simp]:
  "ready_to_commit dv st n (v\<lparr>v_log := ending (v_log v)\<rparr>) = ready_to_commit dv st n v"
  "all_or_nothing st (v\<lparr>v_log := ending (v_log v)\<rparr>) = all_or_nothing st v" "committed (v\<lparr>v_log := l\<rparr>) = committed v"
  by (auto simp: ready_to_commit_def log_ok_def all_or_nothing_def committed_def ending_def home_blk_def [abs_def] fun_eq_iff)

text \<open>Between transactions: nothing is logged, nothing runs, and the disk holds the given contents.\<close>

definition log_idle :: "uint32 \<Rightarrow> uint32 \<Rightarrow> (nat \<Rightarrow> uint8 list) \<Rightarrow> view \<Rightarrow> bool" where
  "log_idle dv st c w \<longleftrightarrow> ready_to_commit dv st 0 w \<and> l_outstanding (v_log w) = 0 \<and> \<not> l_committing (v_log w) \<and>
     (\<forall>x. x \<notin> log_area st \<longrightarrow> v_disk w x = c x)"

context block_device
begin

lemma end_op_works:
  assumes r: "ready_to_commit dv st n v" and o: "l_outstanding (v_log v) = 1" "\<not> l_committing (v_log v)"
  shows "works dev (6 * n + 4) (cache {} p dv v) end_op (\<lambda>_ t. \<exists>w. cache {} p dv w t \<and> log_idle dv st (committed v) w) (all_or_nothing st v)"
proof (rule works_step)
  let ?v = "v\<lparr>v_log := ending (v_log v)\<rparr>"
  show "end_op s e = bind commit (\<lambda>_. bind (acquire LLog) (\<lambda>_.
       bind (upd_log (\<lambda>l. l\<lparr>l_committing := False\<rparr>)) (\<lambda>_.
       bind (wakeup ChLog) (\<lambda>_.
       release LLog)))) (s\<lparr>klog := ending (klog s)\<rparr>) e" if "cache {} p dv v s" for s e
    by (rule end_op_last [OF that o])
  show "cache {} p dv ?v (s\<lparr>klog := ending (klog s)\<rparr>)" if "cache {} p dv v s" for s :: "'a kern_scheme"
    using cache_log [OF that] cacheD(4) [OF that] by simp
  have c: "works dev (6 * n + 4) (cache {} p dv ?v) commit (\<lambda>_ t. \<exists>w. cache {} p dv w t \<and> commit_done dv st ?v w) (all_or_nothing st v)"
    using commit_works [of dv st n ?v p] r by simp
  have t: "works dev 0 (\<lambda>t. \<exists>w. cache {} p dv w t \<and> commit_done dv st ?v w) (bind (acquire LLog) (\<lambda>_.
       bind (upd_log (\<lambda>l. l\<lparr>l_committing := False\<rparr>)) (\<lambda>_.
       bind (wakeup ChLog) (\<lambda>_.
       release LLog)))) (\<lambda>_ t. \<exists>w. cache {} p dv w t \<and> log_idle dv st (committed v) w) (all_or_nothing st v)"
  proof (rule works_ex)
    fix w
    have "log_idle dv st (committed v) (w\<lparr>v_log := (v_log w)\<lparr>l_committing := False\<rparr>\<rparr>)" if "commit_done dv st ?v w"
      using that by (auto simp: log_idle_def commit_done_def ready_to_commit_def log_ok_def ending_def home_blk_def [abs_def])
    then show "works dev 0 (\<lambda>t. cache {} p dv w t \<and> commit_done dv st ?v w) (bind (acquire LLog) (\<lambda>_.
       bind (upd_log (\<lambda>l. l\<lparr>l_committing := False\<rparr>)) (\<lambda>_.
       bind (wakeup ChLog) (\<lambda>_.
       release LLog)))) (\<lambda>_ t. \<exists>w. cache {} p dv w t \<and> log_idle dv st (committed v) w) (all_or_nothing st v)"
      by (subst conj_commute, intro works_imp) (rule works_conseq [OF end_op_tail]; auto)
  qed
  show "works dev (6 * n + 4) (cache {} p dv ?v) (bind commit (\<lambda>_. bind (acquire LLog) (\<lambda>_.
       bind (upd_log (\<lambda>l. l\<lparr>l_committing := False\<rparr>)) (\<lambda>_.
       bind (wakeup ChLog) (\<lambda>_.
       release LLog))))) (\<lambda>_ t. \<exists>w. cache {} p dv w t \<and> log_idle dv st (committed v) w) (all_or_nothing st v)"
    using works_bind [OF c t] by simp
qed

end


section \<open>Adding a block to the transaction\<close>

definition log_added :: "uint32 \<Rightarrow> log \<Rightarrow> log" where
  "log_added x l = (let i = log_slot (l_lh l) x; h = (l_lh l)\<lparr>lh_block := (lh_block (l_lh l))(i := x)\<rparr>
     in l\<lparr>l_lh := if int i = lh_n (l_lh l) then h\<lparr>lh_n := lh_n (l_lh l) + 1\<rparr> else h\<rparr>)"

lemma log_slot_cases:
  assumes "log_ok dv st n v"
  shows "x \<in> v_pins v \<Longrightarrow> log_slot (l_lh (v_log v)) x < n \<and> home_blk v (log_slot (l_lh (v_log v)) x) = x"
    and "x \<notin> v_pins v \<Longrightarrow> log_slot (l_lh (v_log v)) x = n"
proof -
  let ?P = "\<lambda>i. lh_block (l_lh (v_log v)) i = x"
  have n: "nat (lh_n (l_lh (v_log v))) = n" and p: "v_pins v = home_blk v ` {..<n}" using assms by (simp_all add: log_ok_def)
  show "log_slot (l_lh (v_log v)) x < n \<and> home_blk v (log_slot (l_lh (v_log v)) x) = x" if "x \<in> v_pins v"
  proof -
    have "find ?P [0..<n] \<noteq> None" using that p by (auto simp: find_None_iff home_blk_def)
    then obtain i where "find ?P [0..<n] = Some i" by blast
    then show ?thesis using find_in [of ?P "[0..<n]" i] by (simp add: log_slot_def n home_blk_def)
  qed
  show "log_slot (l_lh (v_log v)) x = n" if "x \<notin> v_pins v"
  proof -
    have "find ?P [0..<n] = None" using that p by (auto simp: find_None_iff home_blk_def)
    then show ?thesis by (simp add: log_slot_def n)
  qed
qed

lemma log_added_ok:
  assumes k: "log_ok dv st n v" and x: "unat x < 2 ^ 31" "unat x \<notin> log_area st" and n: "Suc n < NBUF"
  shows "log_ok dv st (if x \<in> v_pins v then n else Suc n) (v\<lparr>v_pins := insert x (v_pins v), v_log := log_added x (v_log v)\<rparr>)"
proof -
  note s = log_slot_cases [OF k, of x]
  have K: "lh_n (l_lh (v_log v)) = int n" "v_pins v = home_blk v ` {..<n}" "good_targets st n (home_blk v)" using k by (simp_all add: log_ok_def)
  show ?thesis
  proof (cases "x \<in> v_pins v")
    case True
    have "(lh_block (l_lh (v_log v)))(log_slot (l_lh (v_log v)) x := x) = lh_block (l_lh (v_log v))"
      using s(1) [OF True] by (simp add: home_blk_def fun_upd_idem)
    then have "log_added x (v_log v) = v_log v" using s(1) [OF True] K(1) by (simp add: log_added_def Let_def)
    then show ?thesis using k True by (simp add: insert_absorb log_ok_def home_blk_def [abs_def])
  next
    case False
    let ?v = "v\<lparr>v_pins := insert x (v_pins v), v_log := log_added x (v_log v)\<rparr>"
    have h: "home_blk ?v = (home_blk v)(n := x)" using s(2) [OF False] K(1) by (auto simp: home_blk_def log_added_def Let_def)
    have "inj_on ((home_blk v)(n := x)) {..<Suc n}"
      using K False by (auto simp: good_targets_def lessThan_Suc inj_on_fun_updI)
    then have "good_targets st (Suc n) (home_blk ?v)" using K(3) x n by (auto simp: h good_targets_def less_Suc_eq)
    moreover have "insert x (home_blk v ` {..<n}) = (home_blk v)(n := x) ` {..<Suc n}" by (auto simp: lessThan_Suc)
    then have "insert x (v_pins v) = home_blk ?v ` {..<Suc n}" unfolding h by (simp only: K(2))
    ultimately show ?thesis using k False s(2) [OF False] K(1) by (simp add: log_ok_def) (simp add: log_added_def Let_def)
  qed
qed

lemma cache_pin:
  assumes c: "cache {} p dv v s" and b: "v_held v b = Some x" and x: "x \<notin> v_pins v"
  shows "cache {} p dv (v\<lparr>v_pins := insert x (v_pins v)\<rparr>) (s\<lparr>bufs := (bufs s)(b := (bufs s b)\<lparr>b_refcnt := b_refcnt (bufs s b) + 1\<rparr>)\<rparr>)"
  by (rule cache_bufs [OF c]) (use bufs_ok_pin [OF cacheD(5) [OF c] b x] in simp_all)

lemma log_write_apply:
  assumes c: "cache {} p dv v s" and b: "v_held v b = Some x" and k: "log_ok dv st n v" and o: "1 \<le> l_outstanding (v_log v)"
    and n: "n < LOGSIZE" "int n < l_size (v_log v) - 1"
  shows "\<exists>t. log_write b s e = Ret () t e \<and> cache {} p dv (v\<lparr>v_pins := insert x (v_pins v), v_log := log_added x (v_log v)\<rparr>) t"
proof -
  note f = ready_simps [OF cacheD(1) [OF c]] and kl = cacheD(4) [OF c] and h = held_buf [OF cacheD(5) [OF c] b] and s = log_slot_cases [OF k, of x]
  have K: "lh_n (l_lh (v_log v)) = int n" using k by (simp add: log_ok_def)
  have rel: "release LLog (locked LLog t) e = Ret () t e" if "cache {} p dv w t" for t w
    using ready_simps [OF cacheD(1) [OF that]] by (intro release_locked) simp_all
  show ?thesis
  proof (cases "x \<in> v_pins v")
    case True
    let ?t = "s\<lparr>klog := log_added x (v_log v)\<rparr>"
    have ct: "cache {} p dv (v\<lparr>v_log := log_added x (v_log v)\<rparr>) ?t" by (rule cache_log [OF c])
    have "log_write b s e = Ret () ?t e" unfolding log_write_def
      using rel [OF ct] s(1) [OF True] K n o f
      by (simp add: bind_apply acquire_locked getl_def gets_apply kl getbuf_def h(3) upd_log_def modify_apply locked_updates whenM_def ret_apply log_added_def Let_def)
    then show ?thesis using ct True by (simp add: insert_absorb)
  next
    case False
    let ?t = "s\<lparr>bufs := (bufs s)(b := (bufs s b)\<lparr>b_refcnt := b_refcnt (bufs s b) + 1\<rparr>), klog := log_added x (v_log v)\<rparr>"
    have ct: "cache {} p dv (v\<lparr>v_pins := insert x (v_pins v), v_log := log_added x (v_log v)\<rparr>) ?t"
      using cache_log [OF cache_pin [OF c b False], of "log_added x (v_log v)"] by simp
    have bp: "bpin b (locked LLog t) e = Ret () (locked LLog (t\<lparr>bufs := (bufs t)(b := (bufs t b)\<lparr>b_refcnt := b_refcnt (bufs t b) + 1\<rparr>)\<rparr>)) e"
      if "settled t" "\<And>lk. lock_free (locks t lk)" for t
    proof -
      let ?u = "t\<lparr>bufs := (bufs t)(b := (bufs t b)\<lparr>b_refcnt := b_refcnt (bufs t b) + 1\<rparr>)\<rparr>"
      have "release LBcache (locked LBcache (locked LLog ?u)) e = Ret () (locked LLog ?u) e"
        using that by (intro release_locked) (simp_all add: locks_locked)
      then show ?thesis unfolding bpin_def using that by (simp add: bind_apply acquire_locked locks_locked upd_buf_def modify_apply locked_updates)
    qed
    have "log_write b s e = Ret () ?t e" unfolding log_write_def
      using rel [OF ct] s(2) [OF False] K n o f
      by (simp add: bind_apply acquire_locked getl_def gets_apply kl getbuf_def h(3) upd_log_def modify_apply locked_updates whenM_def ret_apply bp log_added_def Let_def)
    then show ?thesis using ct by blast
  qed
qed


section \<open>Start-up after a crash\<close>

lemma cache_initlock:
  assumes "cache E p dv v s"
  shows "\<exists>t. initlock lk nm s e = Ret () t e \<and> cache E p dv v t"
proof -
  let ?t = "s\<lparr>locks := (locks s)(lk := \<lparr>lk_locked = 0, lk_name = nm, lk_cpu = None\<rparr>)\<rparr>"
  have l: "lru ?t = lru s" by (rule ext, rule lru_cong) simp_all
  have "ready ?t p" using cacheD(1) [OF assms] by (auto simp: ready_def quiet_def me_def lock_free_def)
  then have "cache E p dv v ?t" using assms by (simp add: cache_def l idle_disk_def)
  then show ?thesis by (simp add: initlock_def kmon_simps upd_lock_def)
qed

context block_device
begin

lemma initlog_works:
  assumes h: "v_held v = Map.empty" "v_pins v = {}" and sb: "sb_logstart sbk = st" and g: "good_log st (v_disk v)"
  shows "works dev (3 * NBUF) (cache {} p dv v) (initlog dv sbk)
    (\<lambda>_ t. \<exists>w. cache {} p dv w t \<and> ready_to_commit dv st 0 w \<and> (\<forall>x. x \<notin> log_area st \<longrightarrow> v_disk w x = stands_for st (v_disk v) x))
    (\<lambda>d. good_log st d \<and> (\<forall>x. x \<notin> log_area st \<longrightarrow> stands_for st d x = stands_for st (v_disk v) x))"
proof -
  have i: "works dev 0 (cache {} p dv v) (initlock LLog nm) (\<lambda>_. cache {} p dv v) C" for nm C
    by (rule works_pure) (use cache_initlock in blast)
  show ?thesis unfolding initlog_def
    apply (subst if_not_P, simp)
    apply (rule works_bind0, rule i)
    apply (rule seq_upd_log)+
    apply (rule works_conseq [OF recover_works [where st = st and dv = dv and p = p
          and v = "v\<lparr>v_log := (v_log v)\<lparr>l_start := st, l_size := sint (sb_nlog sbk), l_dev := dv\<rparr>\<rparr>"]])
    using h sb g by auto
qed

end

text \<open>
  A machine that starts up with nothing in its cache; and a start-up that is cut off by another crash, as a
  relation between the contents of the disk before and after.
\<close>

definition restarted :: "nat \<Rightarrow> uint32 \<Rightarrow> 'a kern_scheme \<Rightarrow> bool" where
  "restarted p dv s \<longleftrightarrow> (\<exists>w. cache {} p dv w s \<and> v_held w = Map.empty \<and> v_pins w = {})"

inductive recovery_cut :: "('a kern_scheme \<Rightarrow> 'a kern_scheme) \<Rightarrow> uint32 \<Rightarrow> superblock \<Rightarrow> (nat \<Rightarrow> uint8 list) \<Rightarrow> (nat \<Rightarrow> uint8 list) \<Rightarrow> bool"
  for dev dv sbk where
  cut: "restarted p dv s \<Longrightarrow> initlog dv sbk s (replicate m (turn dev)) = Blocked t \<Longrightarrow> recovery_cut dev dv sbk (vdisk s) (vdisk t)"

context block_device
begin

lemma initlog_run:
  assumes s: "restarted p dv s" and sb: "sb_logstart sbk = st" and g: "good_log st (vdisk s)"
  shows "case initlog dv sbk s (replicate m (turn dev)) of
      Ret a t e \<Rightarrow> \<forall>x. x \<notin> log_area st \<longrightarrow> vdisk t x = stands_for st (vdisk s) x
    | Panic msg t \<Rightarrow> False
    | Blocked t \<Rightarrow> m < 3 * NBUF \<and> good_log st (vdisk t) \<and> (\<forall>x. x \<notin> log_area st \<longrightarrow> stands_for st (vdisk t) x = stands_for st (vdisk s) x)"
proof -
  obtain w where w: "cache {} p dv w s" "v_held w = Map.empty" "v_pins w = {}" using s by (auto simp: restarted_def)
  have d: "v_disk w = vdisk s" using cacheD(3) [OF w(1)] by simp
  show ?thesis using initlog_works [OF w(2,3) sb, of p dv] w(1) g unfolding works_def d
    by (fastforce split: res.splits dest: cacheD(3))
qed

lemma recovery_cuts:
  assumes "(recovery_cut dev dv sbk)\<^sup>*\<^sup>* d d'" and sb: "sb_logstart sbk = st" and g: "good_log st d"
  shows "good_log st d' \<and> (\<forall>x. x \<notin> log_area st \<longrightarrow> stands_for st d' x = stands_for st d x)"
  using assms(1)
proof (induction rule: rtranclp_induct)
  case base
  then show ?case using g by simp
next
  case (step d1 d2)
  from step(2) obtain p s m t where "restarted p dv s" "initlog dv sbk s (replicate m (turn dev)) = Blocked t" "d1 = vdisk s" "d2 = vdisk t"
    by (auto elim!: recovery_cut.cases)
  then show ?case using initlog_run [of p dv s sbk st m] sb step(3) by simp
qed

end

end
