(* ===== verification/Printing.thy ===== *)
theory Printing
  imports Locked
begin

text \<open>
  What the kernel's \<open>printf\<close> sends to the serial line. \<open>prints m bs\<close> says that \<open>m\<close> sends exactly
  the bytes \<open>bs\<close>, in order, and changes nothing else; it holds for a device that is always ready
  to transmit.
\<close>

section \<open>Sending bytes\<close>

definition sent :: "uacc list \<Rightarrow> uint8 list" where
  "sent h = concat (map (\<lambda>a. case a of UWrite r v \<Rightarrow> if r = THR then [v] else [] | URead _ _ \<Rightarrow> []) h)"

definition uart_ready :: "'a uart_scheme \<Rightarrow> bool" where
  "uart_ready s \<longleftrightarrow> settled s \<and> \<not> panicked s \<and> (\<forall>h. uart_dev s h LSR AND LSR_TX_IDLE \<noteq> 0)"

primrec emitted :: "(uacc list \<Rightarrow> nat \<Rightarrow> uint8) \<Rightarrow> uint8 list \<Rightarrow> uacc list \<Rightarrow> uacc list" where
  "emitted dev [] h = h"
| "emitted dev (c # cs) h = emitted dev cs (h @ [URead LSR (dev h LSR), UWrite THR c])"

definition emit :: "uint8 list \<Rightarrow> 'a uart_scheme \<Rightarrow> 'a uart_scheme" where
  "emit bs s = s\<lparr>uart_hist := emitted (uart_dev s) bs (uart_hist s)\<rparr>"

definition prints :: "('a uart_scheme, unit) kmon \<Rightarrow> uint8 list \<Rightarrow> bool" where
  "prints m bs \<longleftrightarrow> (\<forall>s e. uart_ready s \<longrightarrow> m s e = Ret () (emit bs s) e)"

lemma sent_append [simp]: "sent (h @ h') = sent h @ sent h'"
  by (simp add: sent_def)

lemma sent_emitted [simp]: "sent (emitted dev bs h) = sent h @ bs"
  by (induction bs arbitrary: h) (simp_all, simp add: sent_def)

lemma emitted_append: "emitted dev (as @ bs) h = emitted dev bs (emitted dev as h)"
  by (induction as arbitrary: h) simp_all

lemma emit_ready [simp]: "uart_ready (emit bs s) = uart_ready s"
  by (simp add: uart_ready_def emit_def settled_def)

lemma emit_append: "emit (as @ bs) s = emit bs (emit as s)"
  by (simp add: emit_def emitted_append)

lemma prints_ret: "prints (ret ()) []"
  by (simp add: prints_def kmon_simps emit_def)

lemma prints_bind: "prints m as \<Longrightarrow> prints n bs \<Longrightarrow> prints (bind m (\<lambda>_. n)) (as @ bs)"
  by (simp add: prints_def bind_apply emit_append)

lemma prints_each: "(\<And>c. c \<in> set cs \<Longrightarrow> prints (f c) (g c)) \<Longrightarrow> prints (for_each cs f) (concat (map g cs))"
  by (induction cs) (simp_all add: prints_ret prints_bind)

lemma prints_sync: "prints (uartputc_sync c) [c]"
proof -
  have "uartputc_sync c s e = Ret () (emit [c] s) e" if "uart_ready s" for s :: "'a uart_scheme" and e
  proof -
    have s: "cpu_ok (harts s) (cur s) (cpus s)" "calm (harts s) (cur s) (cpus s) = cpus s"
      "\<not> panicked s" "\<And>h. uart_dev s h 5 AND 32 \<noteq> 0"
      using that by (simp_all add: uart_ready_def settled_def)
    show ?thesis using s
      by (simp add: uartputc_sync_def wait_loop_def kmon_simps ReadReg_def WriteReg_def emit_def)
  qed
  then show ?thesis by (simp add: prints_def)
qed

lemma prints_consputc: "c \<noteq> BACKSPACE \<Longrightarrow> prints (consputc c) [word_of_int c]"
  by (simp add: consputc_def prints_sync)

lemma prints_consputc_byte: "prints (consputc (uint (c :: uint8))) [c]"
  using prints_consputc [of "uint c"] uint_lt2p [of c] by (simp add: BACKSPACE_def)

lemma prints_backspace: "prints (consputc BACKSPACE) [8, 32, 8]"
  using prints_bind [OF prints_sync prints_bind [OF prints_sync prints_sync], of 8 32 8]
  by (simp add: consputc_def)

lemma prints_str: "prints (print_str bs) bs"
  using prints_each [of bs "\<lambda>c. consputc (uint c)" "\<lambda>c. [c]", OF prints_consputc_byte]
  by (simp add: print_str_def)

section \<open>Numbers\<close>

text \<open>Reading digits back, to say that a printed number is the right one.\<close>

definition digit_val :: "uint8 \<Rightarrow> nat" where
  "digit_val c = (if c \<le> 57 then unat c - 48 else unat c - 87)"

definition digits_val :: "nat \<Rightarrow> uint8 list \<Rightarrow> nat" where
  "digits_val base ds = foldl (\<lambda>n c. n * base + digit_val c) 0 ds"

definition read_int :: "nat \<Rightarrow> uint8 list \<Rightarrow> int" where
  "read_int base ds = (case ds of [] \<Rightarrow> 0
     | c # cs \<Rightarrow> if c = 45 then - int (digits_val base cs) else int (digits_val base ds))"

lemma length_digits [simp]: "length digits = 16"
  by (simp add: digits_def bytes_of_def)

lemma digits_nth:
  assumes "d < 16"
  shows "digit_val (digits ! d) = d" and "digits ! d \<noteq> 45"
proof -
  have "list_all (\<lambda>d. digit_val (digits ! d) = d \<and> digits ! d \<noteq> 45) [0..<16]"
    by (simp add: upt_rec digit_val_def digits_def bytes_of_def of_char_def)
  then show "digit_val (digits ! d) = d" and "digits ! d \<noteq> 45"
    using assms by (simp_all add: list_all_iff)
qed

lemma digits_val_snoc [simp]: "digits_val base (ds @ [c]) = digits_val base ds * base + digit_val c"
  by (simp add: digits_val_def)

lemma digits_rev_base:
  assumes "2 \<le> base"
  shows "x < base \<Longrightarrow> digits_rev base x = [digits ! x]"
    and "\<not> x < base \<Longrightarrow> digits_rev base x = digits ! (x mod base) # digits_rev base (x div base)"
  using assms by (simp_all add: digits_rev.simps [of base x] div_eq_0_iff)

lemma digits_rev_val:
  assumes "2 \<le> base" and "base \<le> 16"
  shows "digits_val base (rev (digits_rev base x)) = x \<and> hd (rev (digits_rev base x)) \<noteq> 45 \<and>
    digits_rev base x \<noteq> [] \<and> (0 < x \<longrightarrow> hd (rev (digits_rev base x)) \<noteq> digits ! 0)"
proof (induction x rule: less_induct)
  case (less x)
  show ?case
  proof (cases "x < base")
    case True
    then show ?thesis using assms digits_nth [of x] digits_nth [of 0]
      by (auto simp: digits_rev_base(1) [OF assms(1)] digits_val_def)
  next
    case False
    have "x div base < x" using False assms by (auto intro: div_less_dividend)
    moreover have "0 < x div base" and "x mod base < 16" using False assms
      by (auto simp: div_greater_zero_iff intro: less_le_trans [OF mod_less_divisor])
    moreover have "x div base * base + x mod base = x" by simp
    ultimately show ?thesis using less.IH [of "x div base"] digits_nth [of "x mod base"]
      by (simp add: digits_rev_base(2) [OF assms(1) False])
  qed
qed

lemma digits_rev_length:
  assumes "2 \<le> base"
  shows "0 < n \<Longrightarrow> x < base ^ n \<Longrightarrow> length (digits_rev base x) \<le> n"
proof (induction n arbitrary: x)
  case (Suc n)
  show ?case
  proof (cases "x < base")
    case False
    have n: "0 < n" using False Suc.prems(2) by (cases n) auto
    have "x div base < base ^ n" using Suc.prems(2) assms by (simp add: div_less_iff_less_mult mult.commute)
    then show ?thesis using Suc.IH [OF n, of "x div base"] by (simp add: digits_rev_base(2) [OF assms False])
  qed (simp add: digits_rev_base(1) [OF assms])
qed simp

lemma read_int_digits:
  assumes "ds \<noteq> []" and "hd ds \<noteq> 45"
  shows "read_int base ds = int (digits_val base ds)" "read_int base (45 # ds) = - int (digits_val base ds)"
  using assms by (auto simp: read_int_def split: list.splits)

text \<open>
  \<open>printint\<close> with a sign: the bytes in print order read back as the number, and with its sign and
  the digits of any 32-bit number the code's 16-byte buffer is never exceeded.
\<close>

lemma printint_buf_value:
  assumes "2 \<le> base" and "base \<le> 16" and "- (2 ^ 31) \<le> xx" and "xx < 2 ^ 31"
  shows "read_int base (rev (printint_buf xx base True)) = xx"
proof (cases "xx < 0")
  case True
  have "- word_of_int xx = (word_of_int (- xx) :: uint32)" by simp
  then have "unat (- word_of_int xx :: uint32) = nat (- xx)"
    using True assms(3) by (simp add: unsigned_of_int take_bit_int_eq_self del: of_int_minus)
  then show ?thesis using True digits_rev_val [OF assms(1,2), of "nat (- xx)"]
    by (simp add: printint_buf_def read_int_digits)
next
  case False
  then have "unat (word_of_int xx :: uint32) = nat xx"
    using assms(4) by (simp add: unsigned_of_int take_bit_int_eq_self)
  then show ?thesis using False digits_rev_val [OF assms(1,2), of "nat xx"]
    by (simp add: printint_buf_def read_int_digits)
qed

lemma printint_buf_length:
  assumes "10 \<le> base" and "base \<le> 16"
  shows "length (printint_buf xx base sign) \<le> 11"
proof -
  have "length (digits_rev base (unat x)) \<le> 10" for x :: uint32
  proof (rule digits_rev_length)
    have "unat x < 2 ^ 32" using unsigned_less [of x] by simp
    also have "(2::nat) ^ 32 < 10 ^ 10" by simp
    also have "(10::nat) ^ 10 \<le> base ^ 10" using assms(1) by (rule power_mono) simp
    finally show "unat x < base ^ 10" .
  qed (use assms in simp_all)
  from this [of "word_of_int xx"] this [of "- word_of_int xx"]
  show ?thesis by (simp add: printint_buf_def Let_def)
qed

lemma prints_printint: "prints (printint xx base sign) (rev (printint_buf xx base sign))"
  using prints_str [of "rev (printint_buf xx base sign)"] by (simp add: printint_def print_str_def)

section \<open>Formats\<close>

text \<open>
  A format is a sequence of pieces, plain characters and directives; a lone \<^verbatim>\<open>%\<close> at the end and
  everything after a zero byte is dropped. \<open>render\<close> is what the pieces stand for, \<open>None\<close> if the
  arguments do not fit.
\<close>

datatype fpiece = Plain uint8 | Dir uint8

fun pieces :: "uint8 list \<Rightarrow> fpiece list" where
  "pieces [] = []"
| "pieces [c] = (if c = 0 \<or> c = 37 then [] else [Plain c])"
| "pieces (c # d # cs) = (if c = 0 then [] else if c \<noteq> 37 then Plain c # pieces (d # cs)
     else if d = 0 then [] else Dir d # pieces cs)"

definition hex16 :: "uint64 \<Rightarrow> uint8 list" where
  "hex16 x = map (\<lambda>i. digits ! (unat x div 16 ^ (15 - i) mod 16)) [0..<16]"

fun render :: "fpiece list \<Rightarrow> parg list \<Rightarrow> uint8 list option" where
  "render [] ap = Some []"
| "render (Plain c # ps) ap = map_option ((#) c) (render ps ap)"
| "render (Dir d # ps) ap =
    (if d = 100 then (case ap of AInt i # ap' \<Rightarrow> map_option ((@) (rev (printint_buf i 10 True))) (render ps ap') | _ \<Rightarrow> None)
     else if d = 120 then (case ap of AInt i # ap' \<Rightarrow> map_option ((@) (rev (printint_buf i 16 True))) (render ps ap') | _ \<Rightarrow> None)
     else if d = 112 then (case ap of APtr x # ap' \<Rightarrow> map_option ((@) ([48, 120] @ hex16 x)) (render ps ap') | _ \<Rightarrow> None)
     else if d = 115 then (case ap of AStr so # ap' \<Rightarrow>
         map_option ((@) (case so of Some s \<Rightarrow> s | None \<Rightarrow> bytes_of ''(null)'')) (render ps ap') | _ \<Rightarrow> None)
     else map_option ((@) (if d = 37 then [37] else [37, d])) (render ps ap))"

lemma hex_digit: "i < 16 \<Longrightarrow> unat (drop_bit 60 (push_bit (4 * i) (x :: uint64))) = unat x div 16 ^ (15 - i) mod 16"
proof -
  assume i: "i < 16"
  have "drop_bit 60 (push_bit (4 * i) x) = take_bit 4 (drop_bit (60 - 4 * i) x)"
    by (rule bit_word_eqI) (use i in \<open>auto simp: bit_simps algebra_simps\<close>)
  moreover have "unat x < 2 ^ LENGTH(64)" using unsigned_less [of x] by simp
  moreover from this have "take_bit LENGTH(64) (unat x) = unat x" by (rule take_bit_nat_eq_self)
  ultimately have "unat (drop_bit 60 (push_bit (4 * i) x)) = take_bit 4 (drop_bit (60 - 4 * i) (unat x))"
    by (simp only: unsigned_take_bit_eq unsigned_drop_bit_eq)
  moreover have "(16::nat) ^ (15 - i) = 2 ^ (60 - 4 * i)"
    using power_mult [of "2::nat" 4 "15 - i"] by (simp add: right_diff_distrib')
  ultimately show ?thesis by (simp add: take_bit_eq_mod drop_bit_eq_div)
qed

lemma prints_printptr: "prints (printptr x) ([48, 120] @ hex16 x)"
proof -
  have "prints (for_each [0..<16] (\<lambda>i. consputc (uint (digits ! unat (drop_bit 60 (push_bit (4 * i) x))))))
      (concat (map (\<lambda>i. [digits ! unat (drop_bit 60 (push_bit (4 * i) x))]) [0..<16]))"
    by (rule prints_each) (rule prints_consputc_byte)
  also have "concat (map (\<lambda>i. [digits ! unat (drop_bit 60 (push_bit (4 * i) x))]) [0..<16]) = hex16 x"
    by (simp add: hex16_def hex_digit)
  finally show ?thesis
    using prints_bind [OF prints_consputc [of 48] prints_bind [OF prints_consputc [of 120]]]
    by (simp add: printptr_def BACKSPACE_def)
qed

lemmas prints_parts = prints_ret prints_bind [OF prints_printint] prints_bind [OF prints_printptr, simplified]
  prints_bind [OF prints_str]

lemma prints_char: "c < 256 \<Longrightarrow> 0 \<le> c \<Longrightarrow> prints n bs \<Longrightarrow> prints (bind (consputc c) (\<lambda>_. n)) (word_of_int c # bs)"
  using prints_bind [OF prints_consputc [of c]] by (simp add: BACKSPACE_def)

lemma prints_byte: "prints n bs \<Longrightarrow> prints (bind (consputc (uint c)) (\<lambda>_. n)) (c # bs)" for c :: uint8
  using prints_bind [OF prints_consputc_byte] by simp

lemma printf_loop_prints: "render (pieces fmt) ap = Some out \<Longrightarrow> prints (printf_loop fmt ap) out"
proof (induction fmt arbitrary: ap out rule: pieces.induct)
  case 1
  then show ?case by (simp add: prints_ret)
next
  case (2 c)
  then show ?case using prints_byte [OF prints_ret, of c] by (auto simp: prints_ret split: if_splits)
next
  case (3 c d cs)
  consider "c = 0" | "c \<noteq> 0" "c \<noteq> 37" | "c = 37" "d = 0" | "c = 37" "d \<noteq> 0" by blast
  then show ?case
  proof cases
    case 2
    then obtain z where z: "render (pieces (d # cs)) ap = Some z" "out = c # z" using "3.prems" by auto
    show ?thesis using 2 prints_byte [OF 3(1) [OF 2 z(1)], of c]
      by (simp only: z(2) printf_loop.simps(2) [of c] if_False if_True not_False_eq_True)
  next
    case 4
    note IH = 3(2) [of ap' out' for ap' out', simplified 4, simplified]
    show ?thesis using 4 "3.prems"
      by (auto simp: prints_parts IH prints_char [of 37, simplified] prints_byte
          split: if_splits list.splits parg.splits option.splits)
  qed (use "3.prems" in \<open>simp_all add: prints_ret\<close>)
qed

lemma uart_ready_locked [simp]: "uart_ready s \<Longrightarrow> uart_ready (locked lk s)"
  by (simp add: uart_ready_def)

lemma emit_locked: "emit bs (locked lk s) = locked lk (emit bs s)"
  by (simp add: emit_def locked_simps)

lemma printf_apply:
  assumes "uart_ready s" and "lock_free (locks s LPr)" and "render (pieces (bytes_of fmt)) ap = Some out"
  shows "printf fmt ap s e = Ret () (emit out s) e"
proof -
  note p = printf_loop_prints [OF assms(3), unfolded prints_def, rule_format]
  have "settled (emit out s)" "locks (emit out s) = locks s"
    using assms(1) by (simp_all add: emit_def uart_ready_def)
  then have "release LPr (locked LPr (emit out s)) e = Ret () (emit out s) e"
    using assms(2) by (simp add: release_locked)
  then show ?thesis using assms
    by (cases "pr_locking s") (simp_all add: printf_def bind_apply gets_apply ret_apply whenM_def
        acquire_locked p emit_locked)
qed

section \<open>Properties\<close>




text \<open>Witness: a device that is always idle.\<close>

definition uart0 :: uart where
  "uart0 = ptable.extend ptable0 (uart.fields (\<lambda>_ _. 32) [] (replicate 32 0) 0 0 False)"

definition prstate0 :: prstate where
  "prstate0 = settle (uart.extend uart0 (prstate.fields True))"

lemma uart0_fields [simp]: "harts uart0 = harts smp0" "cur uart0 = 0" "cpus uart0 = cpus smp0"
  "locks uart0 = locks smp0" "procs uart0 = procs ptable0"
  "uart_dev uart0 = (\<lambda>_ _. 32)" "uart_hist uart0 = []" "uart_tx_buf uart0 = replicate 32 0"
  "uart_tx_w uart0 = 0" "uart_tx_r uart0 = 0" "\<not> panicked uart0"
  by (simp_all add: uart0_def ptable.extend_def uart.fields_def)

lemma prstate0_fields [simp]: "settled prstate0" "locks prstate0 = locks smp0" "procs prstate0 = procs ptable0"
  "uart_dev prstate0 = (\<lambda>_ _. 32)" "uart_hist prstate0 = []" "uart_tx_buf prstate0 = replicate 32 0"
  "uart_tx_w prstate0 = 0" "uart_tx_r prstate0 = 0" "\<not> panicked prstate0" "pr_locking prstate0"
proof -
  let ?s = "uart.extend uart0 (prstate.fields True)"
  have f: "harts ?s = harts smp0" "cur ?s = 0" "cpus ?s = cpus smp0" "locks ?s = locks smp0" "procs ?s = procs ptable0"
      "uart_dev ?s = (\<lambda>_ _. 32)" "uart_hist ?s = []" "uart_tx_buf ?s = replicate 32 0"
      "uart_tx_w ?s = 0" "uart_tx_r ?s = 0" "\<not> panicked ?s" "pr_locking ?s"
    by (simp_all add: uart.extend_def prstate.fields_def)
  have "cpu_ok (harts ?s) (cur ?s) (cpus ?s)" using smp0_ok(1) f(1-3) by (simp add: smp0_def)
  then show "settled prstate0" by (simp add: prstate0_def)
  show "locks prstate0 = locks smp0" "procs prstate0 = procs ptable0" "uart_dev prstate0 = (\<lambda>_ _. 32)"
    "uart_hist prstate0 = []" "uart_tx_buf prstate0 = replicate 32 0" "uart_tx_w prstate0 = 0"
    "uart_tx_r prstate0 = 0" "\<not> panicked prstate0" "pr_locking prstate0"
    using f by (simp_all add: prstate0_def settle_def)
qed


end
