(* ===== verification/Ring.thy ===== *)
theory Ring
  imports Prelude
begin

text \<open>
  Ring buffers. The UART's output buffer, the console's input buffer and a pipe's buffer are
  arrays whose size is a power of two, indexed by counters that only grow and wrap at the width
  of their C type. \<open>ring_items\<close> is the queue such a buffer holds. The locale \<open>bounded_queue\<close> is
  what the drivers promise of them, and its client lemma is that bytes come out in the order in
  which they went in.
\<close>

section \<open>Contents of a ring\<close>

definition ring_items :: "'e list \<Rightarrow> 'a::len word \<Rightarrow> 'a word \<Rightarrow> 'e list" where
  "ring_items buf r w = map (\<lambda>i. buf ! (unat (r + of_nat i) mod length buf)) [0..<unat (w - r)]"

definition ring_ok :: "'e list \<Rightarrow> 'a::len word \<Rightarrow> 'a word \<Rightarrow> bool" where
  "ring_ok buf r w \<longleftrightarrow> (\<exists>k < LENGTH('a). length buf = 2 ^ k) \<and> unat (w - r) \<le> length buf"

lemma length_ring_items [simp]: "length (ring_items buf r w) = unat (w - r)"
  by (simp add: ring_items_def)

lemma ring_items_Nil_iff [simp]: "ring_items buf r w = [] \<longleftrightarrow> w = r"
  using length_ring_items [of buf r w] by (auto simp: unat_eq_0 simp del: length_ring_items)

text \<open>The index of a counter, and two counters closer than the size name different cells.\<close>

lemma unat_add_mod:
  assumes "k \<le> LENGTH('a::len)"
  shows "unat (x + of_nat n :: 'a word) mod 2 ^ k = (unat x + n) mod 2 ^ k"
proof -
  have "(2::nat) ^ k dvd 2 ^ LENGTH('a)" using assms by (rule le_imp_power_dvd)
  moreover have "unat (x + of_nat n) = (unat x + n) mod 2 ^ LENGTH('a)"
    by (simp add: unat_word_ariths unsigned_of_nat take_bit_eq_mod mod_add_right_eq)
  ultimately show ?thesis by (simp add: mod_mod_cancel)
qed

lemma ring_index_eq:
  fixes x :: "'a::len word"
  assumes "k \<le> LENGTH('a)" and "unat (x + of_nat n) mod 2 ^ k = unat (x + of_nat m) mod 2 ^ k"
    and "n < 2 ^ k" and "m < 2 ^ k"
  shows "n = m"
proof -
  have "(unat x + n) mod 2 ^ k = (unat x + m) mod 2 ^ k"
    using assms(2) by (simp add: unat_add_mod [OF assms(1)])
  then have "n mod 2 ^ k = m mod 2 ^ k" by (simp add: nat_mod_eq_iff)
  then show ?thesis using assms(3,4) by simp
qed

lemma ring_span:
  assumes "ring_ok buf r (w :: 'a::len word)" and "unat (w - r) < length buf"
  shows "unat (w + 1 - r) = Suc (unat (w - r))"
proof -
  obtain k where k: "k < LENGTH('a)" "length buf = 2 ^ k" using assms(1) by (auto simp: ring_ok_def)
  have "(2::nat) ^ k < 2 ^ LENGTH('a)" using k(1) by simp
  then have "unat ((w - r) + of_nat 1) = unat (w - r) + 1" using assms(2) k(2) by (intro unat_add_nat) linarith
  then show ?thesis by (simp add: algebra_simps)
qed

lemma ring_push:
  assumes ok: "ring_ok buf r (w :: 'a::len word)" and room: "unat (w - r) < length buf"
  shows "ring_items (buf[unat w mod length buf := c]) r (w + 1) = ring_items buf r w @ [c]"
    and "ring_ok (buf[unat w mod length buf := c]) r (w + 1)"
proof -
  obtain k where k: "k < LENGTH('a)" "length buf = 2 ^ k" using ok by (auto simp: ring_ok_def)
  let ?n = "unat (w - r)"
  have w: "w = r + of_nat ?n" by simp
  have ne: "unat (r + of_nat i) mod length buf \<noteq> unat w mod length buf" if "i < ?n" for i
  proof
    assume "unat (r + of_nat i) mod length buf = unat w mod length buf"
    then have "unat (r + of_nat i) mod 2 ^ k = unat (r + of_nat ?n) mod 2 ^ k" using k(2) w by simp
    then have "i = ?n" by (rule ring_index_eq [rotated]) (use that room k in simp_all)
    then show False using that by simp
  qed
  have "unat w mod length buf < length buf" using k(2) by simp
  then show "ring_items (buf[unat w mod length buf := c]) r (w + 1) = ring_items buf r w @ [c]"
    using ne [THEN not_sym] w by (simp add: ring_items_def ring_span [OF ok room])
  show "ring_ok (buf[unat w mod length buf := c]) r (w + 1)"
    using k room by (auto simp: ring_ok_def ring_span [OF ok room])
qed

lemma unat_pred: "w \<noteq> r \<Longrightarrow> unat (w - r) = Suc (unat (w - r - 1))" for w r :: "'a::len word"
  using unat_minus_one [of "w - r"] unat_gt_0 [of "w - r"] by simp

lemma ring_pop:
  assumes ok: "ring_ok buf r (w :: 'a::len word)" and "w \<noteq> r"
  shows "ring_items buf r w = buf ! (unat r mod length buf) # ring_items buf (r + 1) w"
    and "ring_ok buf (r + 1) w"
proof -
  have n: "unat (w - r) = Suc (unat (w - (r + 1)))"
    using unat_pred [OF assms(2)] by (simp add: diff_diff_eq)
  show "ring_items buf r w = buf ! (unat r mod length buf) # ring_items buf (r + 1) w"
    unfolding ring_items_def n upt_conv_Cons [OF zero_less_Suc] map_Suc_upt [symmetric]
    by (simp add: algebra_simps)
  show "ring_ok buf (r + 1) w" using ok n by (simp add: ring_ok_def)
qed

lemma ring_unpush:
  assumes ok: "ring_ok buf r (w :: 'a::len word)" and "w \<noteq> r"
  shows "ring_items buf r (w - 1) = butlast (ring_items buf r w)" and "ring_ok buf r (w - 1)"
    and "last (ring_items buf r w) = buf ! (unat (w - 1) mod length buf)"
proof -
  have n: "unat (w - r) = Suc (unat (w - 1 - r))"
    using unat_pred [OF assms(2)] by (simp add: diff_right_commute)
  show "ring_items buf r (w - 1) = butlast (ring_items buf r w)" by (simp add: ring_items_def n)
  show "ring_ok buf r (w - 1)" using ok n by (simp add: ring_ok_def)
  have "w - 1 = r + of_nat (unat (w - 1 - r))" by simp
  then show "last (ring_items buf r w) = buf ! (unat (w - 1) mod length buf)"
    by (simp add: ring_items_def n)
qed

text \<open>Moving the boundary between two parts of a ring.\<close>

lemma ring_split:
  assumes "unat (w - r) + unat (e - w) \<le> length buf" and "ring_ok buf r (e :: 'a::len word)"
  shows "ring_items buf r e = ring_items buf r w @ ring_items buf w e"
proof -
  obtain k where k: "k < LENGTH('a)" "length buf = 2 ^ k" using assms(2) by (auto simp: ring_ok_def)
  have "(2::nat) ^ k < 2 ^ LENGTH('a)" using k(1) by simp
  then have "unat ((w - r) + of_nat (unat (e - w))) = unat (w - r) + unat (e - w)"
    using assms(1) k(2) by (intro unat_add_nat) linarith
  then have n: "unat (e - r) = unat (w - r) + unat (e - w)" by simp
  have w: "w = r + of_nat (unat (w - r))" by simp
  show ?thesis
  proof (rule nth_equalityI)
    fix i assume "i < length (ring_items buf r e)"
    then have i: "i < unat (w - r) + unat (e - w)" by (simp add: n)
    have "r + of_nat i = w + of_nat (i - unat (w - r))" if "\<not> i < unat (w - r)"
      using that by (simp add: of_nat_diff)
    then show "ring_items buf r e ! i = (ring_items buf r w @ ring_items buf w e) ! i"
      using i n by (auto simp: ring_items_def nth_append add.commute)
  qed (simp add: n)
qed

section \<open>Queues\<close>

text \<open>
  The interface of a bounded queue: \<open>items\<close> abstracts a state to the list it holds, \<open>put\<close> adds at
  the end when there is room, and \<open>get\<close> takes from the front when there is something. A run is a
  list of operations, \<open>Inl x\<close> for \<open>put x\<close> and \<open>Inr ()\<close> for \<open>get\<close>.
\<close>

locale bounded_queue =
  fixes cap :: nat
    and ok :: "'s \<Rightarrow> bool"
    and items :: "'s \<Rightarrow> 'e list"
    and put :: "'e \<Rightarrow> 's \<Rightarrow> 's"
    and get :: "'s \<Rightarrow> 'e \<times> 's"
  assumes cap: "ok s \<Longrightarrow> length (items s) \<le> cap"
    and put: "ok s \<Longrightarrow> length (items s) < cap \<Longrightarrow> ok (put x s) \<and> items (put x s) = items s @ [x]"
    and get: "ok s \<Longrightarrow> items s \<noteq> [] \<Longrightarrow> ok (snd (get s)) \<and> items s = fst (get s) # items (snd (get s))"
begin

fun run :: "('e + unit) list \<Rightarrow> 's \<Rightarrow> ('e list \<times> 's) option" where
  "run [] s = Some ([], s)"
| "run (Inl x # ops) s = (if length (items s) < cap then run ops (put x s) else None)"
| "run (Inr _ # ops) s = (if items s = [] then None
     else map_option (\<lambda>(ys, t). (fst (get s) # ys, t)) (run ops (snd (get s))))"

definition puts :: "('e + unit) list \<Rightarrow> 'e list" where
  "puts ops = List.map_filter (\<lambda>op. case op of Inl x \<Rightarrow> Some x | Inr _ \<Rightarrow> None) ops"

lemma puts_simps [simp]: "puts [] = []" "puts (Inl x # ops) = x # puts ops" "puts (Inr u # ops) = puts ops"
  by (simp_all add: puts_def map_filter_simps)

lemma fifo:
  assumes "ok s" and "run ops s = Some (ys, t)"
  shows "ok t \<and> ys @ items t = items s @ puts ops"
  using assms
proof (induction ops s arbitrary: ys rule: run.induct)
  case (2 x ops s)
  then show ?case using put [of s x] by (auto split: if_splits)
next
  case (3 u ops s)
  then show ?case using get [of s] by (auto split: if_splits)
qed simp

lemma put_get_all:
  assumes "ok s" and "items s = []" and "length xs \<le> cap"
  shows "ok (fold put xs s) \<and> items (fold put xs s) = xs"
proof -
  have "ok (fold put xs s) \<and> items (fold put xs s) = items s @ xs" if "length (items s) + length xs \<le> cap"
    using assms(1) that
  proof (induction xs arbitrary: s)
    case (Cons x xs)
    then show ?case using put [of s x] Cons.IH [of "put x s"] by simp
  qed simp
  then show ?thesis using assms(2,3) by simp
qed

end

end
