(* ===== verification/Serial.thy ===== *)
theory Serial
  imports Printing Ring
begin

text \<open>
  The serial line: the UART's output buffer and the console's input buffer as queues. Both are
  rings indexed by wrapping counters, so both are instances of \<open>bounded_queue\<close>.
\<close>

section \<open>Output\<close>

definition tx_items :: "'a uart_scheme \<Rightarrow> uint8 list" where
  "tx_items s = ring_items (uart_tx_buf s) (uart_tx_r s) (uart_tx_w s)"

definition tx_ok :: "'a uart_scheme \<Rightarrow> bool" where
  "tx_ok s \<longleftrightarrow> length (uart_tx_buf s) = 32 \<and> ring_ok (uart_tx_buf s) (uart_tx_r s) (uart_tx_w s)"

definition tx_put :: "uint8 \<Rightarrow> 'a uart_scheme \<Rightarrow> 'a uart_scheme" where
  "tx_put c s = s\<lparr>uart_tx_buf := (uart_tx_buf s)[unat (uart_tx_w s mod UART_TX_BUF_SIZE) := c],
     uart_tx_w := uart_tx_w s + 1\<rparr>"

definition tx_get :: "'a uart_scheme \<Rightarrow> uint8 \<times> 'a uart_scheme" where
  "tx_get s = (uart_tx_buf s ! unat (uart_tx_r s mod UART_TX_BUF_SIZE), s\<lparr>uart_tx_r := uart_tx_r s + 1\<rparr>)"

lemma unat_mod_numeral32: "unat (x mod 32 :: uint64) = unat x mod 32"
  by (simp add: unat_mod)

interpretation txq: bounded_queue 32 tx_ok tx_items tx_put tx_get
proof
  show "tx_ok s \<Longrightarrow> length (tx_items s) \<le> 32" for s :: "'a uart_scheme"
    by (simp add: tx_ok_def tx_items_def ring_ok_def)
  show "tx_ok s \<Longrightarrow> length (tx_items s) < 32 \<Longrightarrow> tx_ok (tx_put x s) \<and> tx_items (tx_put x s) = tx_items s @ [x]"
    for s :: "'a uart_scheme" and x
    using ring_push [of "uart_tx_buf s" "uart_tx_r s" "uart_tx_w s" x]
    by (simp add: tx_ok_def tx_items_def tx_put_def unat_mod_numeral32)
  show "tx_ok s \<Longrightarrow> tx_items s \<noteq> [] \<Longrightarrow> tx_ok (snd (tx_get s)) \<and> tx_items s = fst (tx_get s) # tx_items (snd (tx_get s))"
    for s :: "'a uart_scheme"
    using ring_pop [of "uart_tx_buf s" "uart_tx_r s" "uart_tx_w s"]
    by (simp add: tx_ok_def tx_items_def tx_get_def unat_mod_numeral32)
qed

text \<open>
  One round of \<open>uartstart\<close>: nothing to send, the device is busy, or the next byte goes out.
\<close>

definition tx_procs :: "nat \<Rightarrow> 'a ptable_scheme \<Rightarrow> nat \<Rightarrow> proc" where
  "tx_procs k s = (if k = 0 then procs s else wakes ChUart s)"

definition sends :: "'a uart_scheme \<Rightarrow> nat \<Rightarrow> 'a uart_scheme \<Rightarrow> bool" where
  "sends s k t \<longleftrightarrow> k \<le> length (tx_items s) \<and> tx_ok t \<and> tx_items t = drop k (tx_items s) \<and>
     sent (uart_hist t) = sent (uart_hist s) @ take k (tx_items s) \<and>
     procs t = tx_procs k s \<and>
     t = s\<lparr>procs := procs t, uart_tx_r := uart_tx_r t, uart_hist := uart_hist t\<rparr>"

lemma uartstart_loop:
  assumes "tx_ok s" and "settled s" and "plocks_free s" and "length (tx_items s) < n"
  shows "\<exists>k t. loop n uartstart_round () s e = Ret () t e \<and> sends s k t \<and>
    ((\<forall>h. uart_dev s h LSR AND LSR_TX_IDLE \<noteq> 0) \<longrightarrow> k = length (tx_items s))"
  using assms
proof (induction n arbitrary: s)
  case (Suc n)
  let ?st = "uart_dev s (uart_hist s) LSR"
  let ?h = "uart_hist s @ [URead LSR ?st]"
  have s0: "sends s 0 s" using Suc.prems(1) by (simp add: sends_def tx_procs_def)
  show ?case
  proof (cases "uart_tx_w s = uart_tx_r s")
    case True
    then have "loop (Suc n) uartstart_round () s e = Ret () s e"
      by (simp add: uartstart_round_def kmon_simps)
    moreover have "length (tx_items s) = 0" using True by (simp add: tx_items_def)
    ultimately show ?thesis using s0 by (metis)
  next
    case ne: False
    show ?thesis
    proof (cases "?st AND LSR_TX_IDLE = 0")
      case True
      let ?t = "s\<lparr>uart_hist := ?h\<rparr>"
      have "loop (Suc n) uartstart_round () s e = Ret () ?t e"
        using ne True by (simp add: uartstart_round_def kmon_simps ReadReg_def)
      moreover have "sends s 0 ?t" using Suc.prems(1) by (simp add: sends_def tx_procs_def tx_ok_def tx_items_def sent_def)
      ultimately show ?thesis using True by blast
    next
      case False
      let ?c = "fst (tx_get s)"
      let ?t = "s\<lparr>uart_tx_r := uart_tx_r s + 1, procs := wakes ChUart s, uart_hist := ?h @ [UWrite THR ?c]\<rparr>"
      have step: "loop (Suc n) uartstart_round () s e = loop n uartstart_round () ?t e"
        using ne False Suc.prems(2,3)
        by (simp add: uartstart_round_def kmon_simps ReadReg_def WriteReg_def tx_get_def)
      have g: "tx_ok ?t" "tx_items s = ?c # tx_items ?t"
        using txq.get [of s] Suc.prems(1) ne
        by (simp_all add: tx_get_def tx_ok_def tx_items_def)
      then obtain k t where k: "loop n uartstart_round () ?t e = Ret () t e" "sends ?t k t"
          "(\<forall>h. uart_dev s h LSR AND LSR_TX_IDLE \<noteq> 0) \<longrightarrow> k = length (tx_items ?t)"
        using Suc.IH [of ?t] Suc.prems by auto
      have "wakes ChUart ?t = wakes ChUart s" using wakes_wakes [of ChUart "s\<lparr>uart_tx_r := uart_tx_r s + 1\<rparr>"] by simp
      then have "procs t = tx_procs (Suc k) s" using k(2) by (auto simp: sends_def tx_procs_def split: if_splits)
      then have "sends s (Suc k) t" using k(2) g by (auto simp: sends_def sent_def)
      then show ?thesis using step k(1,3) g(2) by (metis length_Cons)
    qed
  qed
qed simp

lemma tx_full_iff: "tx_ok s \<Longrightarrow> uart_tx_w s = uart_tx_r s + UART_TX_BUF_SIZE \<longleftrightarrow> length (tx_items s) = 32"
proof -
  have "uart_tx_w s = uart_tx_r s + 32 \<longleftrightarrow> uart_tx_w s - uart_tx_r s = of_nat 32" by (auto simp: algebra_simps)
  also have "\<dots> \<longleftrightarrow> unat (uart_tx_w s - uart_tx_r s) = 32" by (simp add: word_unat_eq_iff)
  finally show ?thesis by (simp add: tx_items_def)
qed

lemma tx_locked [simp]: "tx_items (locked lk s) = tx_items s" "tx_ok (locked lk s) = tx_ok s"
  by (simp_all add: tx_items_def tx_ok_def)

lemma tx_procs_locked [simp]: "tx_procs k (locked lk s) = tx_procs k s"
  by (simp add: tx_procs_def)

lemma tx_put_locked: "tx_put c (locked lk s) = locked lk (tx_put c s)"
  by (simp add: tx_put_def locked_simps)

lemma sends_locked:
  assumes "sends (locked lk s) k t"
  obtains t' where "t = locked lk t'" "sends s k t'"
proof -
  let ?t = "s\<lparr>procs := procs t, uart_tx_r := uart_tx_r t, uart_hist := uart_hist t\<rparr>"
  have eq: "t = (locked lk s)\<lparr>procs := procs t, uart_tx_r := uart_tx_r t, uart_hist := uart_hist t\<rparr>"
    using assms unfolding sends_def by blast
  then have t: "t = locked lk ?t" by (simp add: locked_simps)
  have "tx_items t = tx_items ?t" "tx_ok t = tx_ok ?t" by (subst t, simp)+
  then have "sends s k ?t" using assms by (auto simp: sends_def)
  then show thesis using that t by blast
qed

lemma sends_frame:
  assumes "sends s k t"
  shows "settled t = settled s" "locks t = locks s" "uart_dev t = uart_dev s" "plocks_free t = plocks_free s"
proof -
  have t: "t = s\<lparr>procs := procs t, uart_tx_r := uart_tx_r t, uart_hist := uart_hist t\<rparr>"
    using assms unfolding sends_def by blast
  show "settled t = settled s" "locks t = locks s" "uart_dev t = uart_dev s" "plocks_free t = plocks_free s"
    by (subst t, simp)+
qed

lemma uartputc_apply:
  assumes "tx_ok s" and "settled s" and "plocks_free s" and "lock_free (locks s LUart)" and "\<not> panicked s"
    and room: "length (tx_items s) < 32"
  obtains k t where "uartputc c s e = Ret () t e" and "sends (tx_put c s) k t"
    and "(\<forall>h. uart_dev s h LSR AND LSR_TX_IDLE \<noteq> 0) \<longrightarrow> k = length (tx_items (tx_put c s))"
proof -
  let ?s = "tx_put c s" let ?l = "locked LUart ?s"
  have p: "tx_ok ?s" "tx_items ?s = tx_items s @ [c]" using txq.put [of s c] assms by simp_all
  have f: "settled ?s" "plocks_free ?s" "locks ?s = locks s" "uart_dev ?s = uart_dev s"
    using assms by (simp_all add: tx_put_def)
  obtain k t where u: "uartstart ?l e = Ret () t e" "sends ?l k t"
      "(\<forall>h. uart_dev s h LSR AND LSR_TX_IDLE \<noteq> 0) \<longrightarrow> k = length (tx_items ?s)"
    using uartstart_loop [of ?l "Suc (length (tx_items ?s))" e] p(1) f
    by (auto simp: uartstart_def bind_apply gets_apply tx_items_def)
  obtain t' where t: "t = locked LUart t'" "sends ?s k t'" using sends_locked [OF u(2)] .
  have "settled t'" "locks t' = locks s" using sends_frame [OF t(2)] f by simp_all
  then have "release LUart t e = Ret () t' e" using assms(4) t(1) by (simp add: release_locked)
  moreover have "uart_tx_w s \<noteq> uart_tx_r s + 32" using tx_full_iff [OF assms(1)] room by simp
  ultimately have "uartputc c s e = Ret () t' e" using assms(4,5) u(1)
    by (simp add: uartputc_def bind_apply gets_apply modify_apply ret_apply acquire_locked wait_loop_def
        locked_simps tx_put_def)
  then show thesis using that t(2) u(3) by blast
qed

section \<open>Input\<close>

text \<open>
  The console's buffer holds complete lines, to be read, followed by the line being edited. Keys
  act on this pair of lists; \<open>key\<close> is what the editor promises and \<open>echo\<close> what it displays.
\<close>

definition cons_view :: "'a console_scheme \<Rightarrow> uint8 list \<times> uint8 list" where
  "cons_view s = (ring_items (cons_buf s) (cons_r s) (cons_w s), ring_items (cons_buf s) (cons_w s) (cons_e s))"

definition cons_ok :: "'a console_scheme \<Rightarrow> bool" where
  "cons_ok s \<longleftrightarrow> length (cons_buf s) = 128 \<and> unat (cons_w s - cons_r s) + unat (cons_e s - cons_w s) \<le> 128"

definition key :: "int \<Rightarrow> uint8 list \<times> uint8 list \<Rightarrow> uint8 list \<times> uint8 list" where
  "key c = (\<lambda>(ready, edit).
     if c = ctrl (CHR ''P'') then (ready, edit)
     else if c = ctrl (CHR ''U'') then (ready, rev (dropWhile (\<lambda>x. x \<noteq> 10) (rev edit)))
     else if c = ctrl (CHR ''H'') \<or> c = 127 then (ready, butlast edit)
     else if c = 0 \<or> length ready + length edit \<ge> 128 then (ready, edit)
     else let ch = word_of_int (if c = 13 then 10 else c) in
       if ch = 10 \<or> ch = 4 \<or> length ready + length edit = 127 then (ready @ edit @ [ch], [])
       else (ready, edit @ [ch]))"

definition completes :: "int \<Rightarrow> uint8 list \<times> uint8 list \<Rightarrow> bool" where
  "completes c v \<longleftrightarrow> c \<notin> {0, ctrl (CHR ''P''), ctrl (CHR ''U''), ctrl (CHR ''H''), 127} \<and>
     length (fst v) + length (snd v) < 128 \<and> (c \<in> {10, 13, ctrl (CHR ''D'')} \<or> length (fst v) + length (snd v) = 127)"

lemma ctrl_simps [simp]: "ctrl (CHR ''P'') = 16" "ctrl (CHR ''U'') = 21" "ctrl (CHR ''H'') = 8" "ctrl (CHR ''D'') = 4"
  by (simp_all add: ctrl_def of_char_def)

lemma ring_ok_pow: "length buf = 128 \<Longrightarrow> unat (w - r) \<le> 128 \<Longrightarrow> ring_ok buf r (w :: uint32)"
  unfolding ring_ok_def by (intro conjI exI [of _ 7]) simp_all

lemma cons_span:
  assumes "cons_ok s"
  shows "unat (cons_e s - cons_r s) = length (fst (cons_view s)) + length (snd (cons_view s))"
    and "ring_ok (cons_buf s) (cons_r s) (cons_e s)" and "ring_ok (cons_buf s) (cons_w s) (cons_e s)"
    and "ring_ok (cons_buf s) (cons_r s) (cons_w s)"
proof -
  have "unat ((cons_w s - cons_r s) + of_nat (unat (cons_e s - cons_w s))) =
      unat (cons_w s - cons_r s) + unat (cons_e s - cons_w s)"
    by (rule unat_add_nat) (use assms in \<open>simp add: cons_ok_def\<close>)
  then show n: "unat (cons_e s - cons_r s) = length (fst (cons_view s)) + length (snd (cons_view s))"
    by (simp add: cons_view_def)
  show "ring_ok (cons_buf s) (cons_r s) (cons_e s)" "ring_ok (cons_buf s) (cons_w s) (cons_e s)"
    "ring_ok (cons_buf s) (cons_r s) (cons_w s)"
    using assms n by (auto intro!: ring_ok_pow simp: cons_ok_def cons_view_def)
qed

lemma unat_mod_numeral128: "unat (x mod 128 :: uint32) = unat x mod 128"
  by (simp add: unat_mod)

definition cons_store :: "uint8 \<Rightarrow> 'a console_scheme \<Rightarrow> 'a console_scheme" where
  "cons_store ch s = s\<lparr>cons_buf := (cons_buf s)[unat (cons_e s mod INPUT_BUF_SIZE) := ch], cons_e := cons_e s + 1\<rparr>"

lemma cons_store_view:
  assumes ok: "cons_ok s" and room: "length (fst (cons_view s)) + length (snd (cons_view s)) < 128"
  shows "cons_view (cons_store ch s) = (fst (cons_view s), snd (cons_view s) @ [ch])" and "cons_ok (cons_store ch s)"
proof -
  let ?b = "cons_buf s" and ?r = "cons_r s" and ?w = "cons_w s" and ?e = "cons_e s"
  let ?b' = "?b[unat ?e mod length ?b := ch]"
  have l: "length ?b = 128" using ok by (simp add: cons_ok_def)
  note sp = cons_span [OF ok]
  have lt: "unat (?e - ?r) < length ?b" "unat (?e - ?w) < length ?b" using room sp(1) l by (simp_all add: cons_view_def)
  note pr = ring_push [OF sp(2) lt(1), of ch] and pw = ring_push [OF sp(3) lt(2), of ch]
  have u: "unat (?w - ?r) + unat (?e + 1 - ?w) \<le> 128"
    using ring_span [OF sp(3) lt(2)] room by (simp add: cons_view_def)
  have "ring_items ?b' ?r (?e + 1) = ring_items ?b' ?r ?w @ ring_items ?b' ?w (?e + 1)"
    by (rule ring_split) (use u l pr(2) in simp_all)
  moreover have "ring_items ?b ?r ?e = ring_items ?b ?r ?w @ ring_items ?b ?w ?e"
    by (rule ring_split) (use ok l sp(2) in \<open>simp_all add: cons_ok_def\<close>)
  ultimately have "ring_items ?b' ?r ?w = ring_items ?b ?r ?w" using pr(1) pw(1) by simp
  then show "cons_view (cons_store ch s) = (fst (cons_view s), snd (cons_view s) @ [ch])"
    using pw(1) l by (simp add: cons_view_def cons_store_def unat_mod_numeral128)
  show "cons_ok (cons_store ch s)" using u l by (simp add: cons_ok_def cons_store_def)
qed

lemma cons_commit_view:
  assumes ok: "cons_ok s"
  shows "cons_view (s\<lparr>cons_w := cons_e s\<rparr>) = (fst (cons_view s) @ snd (cons_view s), [])" and "cons_ok (s\<lparr>cons_w := cons_e s\<rparr>)"
  using ring_split [of "cons_w s" "cons_r s" "cons_e s" "cons_buf s"] cons_span [OF ok] ok
  by (simp_all add: cons_view_def cons_ok_def)

lemma cons_erase_view:
  assumes ok: "cons_ok s" and ne: "cons_e s \<noteq> cons_w s"
  shows "cons_view (s\<lparr>cons_e := cons_e s - 1\<rparr>) = (fst (cons_view s), butlast (snd (cons_view s)))"
    and "cons_ok (s\<lparr>cons_e := cons_e s - 1\<rparr>)"
    and "last (snd (cons_view s)) = cons_buf s ! unat ((cons_e s - 1) mod INPUT_BUF_SIZE)"
proof -
  note u = ring_unpush [OF cons_span(3) [OF ok] ne]
  show "cons_view (s\<lparr>cons_e := cons_e s - 1\<rparr>) = (fst (cons_view s), butlast (snd (cons_view s)))"
    using u(1) by (simp add: cons_view_def)
  have "unat (cons_e s - 1 - cons_w s) \<le> unat (cons_e s - cons_w s)"
    using arg_cong [OF u(1), of length] by simp
  then show "cons_ok (s\<lparr>cons_e := cons_e s - 1\<rparr>)" using ok by (simp add: cons_ok_def)
  show "last (snd (cons_view s)) = cons_buf s ! unat ((cons_e s - 1) mod INPUT_BUF_SIZE)"
    using u(3) ok by (simp add: cons_view_def cons_ok_def unat_mod_numeral128)
qed

lemma cons_frame [simp]:
  "cons_view (locked lk s) = cons_view s" "cons_ok (locked lk s) = cons_ok s"
  "cons_view (emit bs s) = cons_view s" "cons_ok (emit bs s) = cons_ok s"
  "cons_view (s\<lparr>procs := ps\<rparr>) = cons_view s" "cons_ok (s\<lparr>procs := ps\<rparr>) = cons_ok s"
  by (simp_all add: cons_view_def cons_ok_def emit_def)

text \<open>The line-kill key erases back to the last newline.\<close>

lemma kill_line_loop:
  assumes "cons_ok s" and "uart_ready s" and "length (snd (cons_view s)) < n"
  shows "\<exists>t. loop n (\<lambda>_. bind (gets (\<lambda>s. cons_e s \<noteq> cons_w s \<and>
           cons_buf s ! unat ((cons_e s - 1) mod INPUT_BUF_SIZE) \<noteq> 10)) (\<lambda>b.
         if b then bind (modify (\<lambda>s. s\<lparr>cons_e := cons_e s - 1\<rparr>)) (\<lambda>_. bind (consputc BACKSPACE) (\<lambda>_. ret (Inl ())))
         else ret (Inr ()))) () s e = Ret () t e \<and> cons_ok t \<and> uart_ready t \<and>
      cons_view t = (fst (cons_view s), rev (dropWhile (\<lambda>x. x \<noteq> 10) (rev (snd (cons_view s))))) \<and>
      t = s\<lparr>cons_e := cons_e t, uart_hist := uart_hist t\<rparr>"
    (is "\<exists>t. loop n ?body () s e = _ \<and> _")
  using assms
proof (induction n arbitrary: s)
  case (Suc n)
  let ?ed = "snd (cons_view s)"
  show ?case
  proof (cases "cons_e s \<noteq> cons_w s \<and> cons_buf s ! unat ((cons_e s - 1) mod INPUT_BUF_SIZE) \<noteq> 10")
    case False
    then have "rev (dropWhile (\<lambda>x. x \<noteq> 10) (rev ?ed)) = ?ed"
    proof (cases "cons_e s = cons_w s")
      case True
      then have "?ed = []" by (simp add: cons_view_def)
      then show ?thesis by simp
    next
      case ne: False
      then have "last ?ed = 10" "?ed \<noteq> []" using False cons_erase_view(3) [OF Suc.prems(1)] by (auto simp: cons_view_def)
      then show ?thesis by (cases ?ed rule: rev_cases) simp_all
    qed
    moreover have "loop (Suc n) ?body () s e = Ret () s e"
      using False by (auto simp: bind_apply gets_apply ret_apply)
    ultimately show ?thesis using Suc.prems(1,2)
      by (intro exI [of _ s]) simp
  next
    case True
    let ?s = "s\<lparr>cons_e := cons_e s - 1\<rparr>"
    have v: "cons_view ?s = (fst (cons_view s), butlast ?ed)" "cons_ok ?s" "last ?ed \<noteq> 10" "?ed \<noteq> []"
      using cons_erase_view [OF Suc.prems(1)] True by (auto simp: cons_view_def)
    have r: "uart_ready ?s" using Suc.prems(2) by (simp add: uart_ready_def)
    have "loop (Suc n) ?body () s e = loop n ?body () (emit [8, 32, 8] ?s) e"
      using True prints_backspace [unfolded prints_def, rule_format, OF r, of e]
      by (simp add: bind_apply gets_apply modify_apply ret_apply)
    moreover have "length (snd (cons_view (emit [8, 32, 8] ?s))) < n"
      using v(1,4) Suc.prems(3) by (cases ?ed) auto
    ultimately obtain t where t: "loop (Suc n) ?body () s e = Ret () t e" "cons_ok t" "uart_ready t"
        "cons_view t = (fst (cons_view s), rev (dropWhile (\<lambda>x. x \<noteq> 10) (rev (butlast ?ed))))"
        "t = (emit [8, 32, 8] ?s)\<lparr>cons_e := cons_e t, uart_hist := uart_hist t\<rparr>"
      using Suc.IH [of "emit [8, 32, 8] ?s"] v r by auto
    have re: "rev ?ed = last ?ed # rev (butlast ?ed)" using v(4) by (cases ?ed rule: rev_cases) simp_all
    have "dropWhile (\<lambda>x. x \<noteq> 10) (rev ?ed) = dropWhile (\<lambda>x. x \<noteq> 10) (rev (butlast ?ed))"
      unfolding re using v(3) by simp
    moreover have "t = s\<lparr>cons_e := cons_e t, uart_hist := uart_hist t\<rparr>" using t(5) by (simp add: emit_def)
    ultimately show ?thesis using t(1-4) by auto
  qed
qed simp

lemma emit_more [simp]: "procs (emit bs s) = procs s" "locks (emit bs s) = locks s" "harts (emit bs s) = harts s"
  "cur (emit bs s) = cur s" "cpus (emit bs s) = cpus s"
  by (simp_all add: emit_def)

lemma emit_concat: "fold (\<lambda>i. emit (f i)) is s = emit (concat (map f is)) s"
  by (induction "is" arbitrary: s) (simp_all add: emit_append, simp add: emit_def)

lemma procdump_apply:
  assumes r: "uart_ready s" and l: "lock_free (locks s LPr)"
  shows "\<exists>out. procdump s e = Ret () (emit out s) e"
proof -
  let ?args = "\<lambda>r. [AInt (p_pid r), AStr (Some (bytes_of (procstate_name (p_state r)))),
           AStr (Some (takeWhile (\<lambda>c. c \<noteq> 0) (p_name r)))]"
  let ?out = "\<lambda>r. the (render (pieces (bytes_of ''%d %s %s'')) (?args r)) @ [10]"
  let ?dump = "\<lambda>p. if p_state (procs s p) = UNUSED then [] else ?out (procs s p)"
  let ?body = "\<lambda>p. bind (gets (\<lambda>s. procs s p)) (\<lambda>r. if p_state r = UNUSED then ret () else
      bind (printf ''%d %s %s'' (?args r)) (\<lambda>_. printf [CHR 0x0A] []))"
  have nl: "render (pieces (bytes_of [CHR 0x0A])) [] = Some [10]" by (simp add: bytes_of_def of_char_def)
  have ren: "render (pieces (bytes_of ''%d %s %s'')) (?args r) = Some (the (render (pieces (bytes_of ''%d %s %s'')) (?args r)))" for r
    by (simp add: bytes_of_def of_char_def)
  have body: "?body p t e = Ret () (emit (?dump p) t) e" if "uart_ready t" "lock_free (locks t LPr)" "procs t = procs s" for p t
    using that printf_apply [OF that(1,2) ren, of "procs s p" e]
      printf_apply [OF _ _ nl, of "emit (the (render (pieces (bytes_of ''%d %s %s'')) (?args (procs s p)))) t" e]
    by (cases "p_state (procs s p) = UNUSED") (simp_all add: bind_apply gets_apply ret_apply emit_append, simp add: emit_def)
  have "for_each [0..<NPROC] ?body (emit [10] s) e = Ret () (fold (\<lambda>p. emit (?dump p)) [0..<NPROC] (emit [10] s)) e \<and>
      (\<lambda>t. uart_ready t \<and> lock_free (locks t LPr) \<and> procs t = procs s) (fold (\<lambda>p. emit (?dump p)) [0..<NPROC] (emit [10] s))"
    by (rule for_each_apply) (use r l body in simp_all)
  then have "procdump s e = Ret () (emit (concat (map ?dump [0..<NPROC])) (emit [10] s)) e"
    using printf_apply [OF r l nl, of e] by (simp add: procdump_def bind_apply emit_concat)
  then show ?thesis unfolding emit_append [symmetric] by blast
qed

text \<open>The handler for one character, on the state inside the console's critical section.\<close>

definition cons_step :: "'a console_scheme \<Rightarrow> int \<Rightarrow> 'a console_scheme \<Rightarrow> bool" where
  "cons_step s c t \<longleftrightarrow> cons_ok t \<and> uart_ready t \<and> cons_view t = key c (cons_view s) \<and>
     t = s\<lparr>procs := procs t, uart_hist := uart_hist t, cons_buf := cons_buf t, cons_w := cons_w t, cons_e := cons_e t\<rparr> \<and>
     procs t = (if completes c (cons_view s) then wakes ChCons s else procs s)"

lemma console_key_apply:
  assumes ok: "cons_ok s" and r: "uart_ready s" and pf: "plocks_free s" and c: "0 \<le> c" "c < 256"
    and nk: "c \<noteq> 16" "c \<noteq> 21" "c \<noteq> 8" "c \<noteq> 127"
  shows "\<exists>t. console_key c s e = Ret () t e \<and> cons_step s c t"
proof -
  let ?n = "length (fst (cons_view s)) + length (snd (cons_view s))"
  have room: "cons_e s - cons_r s < 128 \<longleftrightarrow> ?n < 128" using cons_span(1) [OF ok] by (simp add: word_less_nat_alt)
  let ?c = "if c = 13 then 10 else c"
  let ?w = "word_of_int ?c :: uint8"
  show ?thesis
  proof (cases "c \<noteq> 0 \<and> ?n < 128")
    case False
    have "console_key c s e = Ret () s e"
      using False room by (auto simp: console_key_def bind_apply gets_apply ret_apply)
    moreover have "key c (cons_view s) = cons_view s"
      using False nk by (auto simp: key_def split: prod.split)
    moreover have "\<not> completes c (cons_view s)" using False by (auto simp: completes_def)
    ultimately show ?thesis using ok r by (intro exI [of _ s]) (simp add: cons_step_def)
  next
    case True
    let ?s = "cons_store ?w (emit [?w] s)"
    have v: "cons_view ?s = (fst (cons_view s), snd (cons_view s) @ [?w])" "cons_ok ?s"
      using cons_store_view [of "emit [?w] s" ?w] ok True by simp_all
    have u: "uint ?w = ?c" using c by (simp add: uint_word_of_int)
    have p: "consputc ?c s e = Ret () (emit [?w] s) e"
      using prints_consputc [of ?c, unfolded prints_def, rule_format, OF _ r, of e] c by (simp add: BACKSPACE_def)
    have sp: "cons_e ?s - cons_r ?s = 128 \<longleftrightarrow> ?n = 127"
      using cons_span(1) [OF v(2)] v(1) by (simp add: word_unat_eq_iff)
    have f: "settled ?s" "plocks_free ?s" "uart_ready ?s" "wakes ChCons ?s = wakes ChCons s"
      "cons_r ?s = cons_r s" "cons_e ?s = cons_e s + 1"
      using r pf by (simp_all add: cons_store_def emit_def uart_ready_def)
    have wc: "?w = 10 \<longleftrightarrow> ?c = 10" "?w = 4 \<longleftrightarrow> ?c = 4" unfolding word_uint_eq_iff u by simp_all
    let ?full = "?w = 10 \<or> ?w = 4 \<or> ?n = 127"
    have w: "?c = 10 \<or> ?c = ctrl (CHR ''D'') \<or> cons_e ?s - cons_r ?s = 128 \<longleftrightarrow> ?full"
      using sp by (simp add: wc)
    let ?t = "if ?full then (?s\<lparr>cons_w := cons_e ?s\<rparr>)\<lparr>procs := wakes ChCons s\<rparr> else ?s"
    have run: "console_key c s e = Ret () ?t e"
    proof (cases ?full)
      case True
      then show ?thesis using \<open>c \<noteq> 0 \<and> ?n < 128\<close> room p w f
        by (simp add: console_key_def Let_def bind_apply gets_apply modify_apply whenM_def cons_store_def wakeup_wakes)
    next
      case False
      then show ?thesis using \<open>c \<noteq> 0 \<and> ?n < 128\<close> room p w f
        by (simp add: console_key_def Let_def bind_apply gets_apply modify_apply whenM_def cons_store_def ret_apply)
    qed
    have "key c (cons_view s) = (if ?full then (fst (cons_view s) @ snd (cons_view s) @ [?w], [])
        else (fst (cons_view s), snd (cons_view s) @ [?w]))"
      using True nk by (simp add: key_def Let_def split_beta)
    moreover have "completes c (cons_view s) \<longleftrightarrow> ?full"
      using True nk by (auto simp: completes_def wc)
    ultimately have "cons_step s c ?t"
      using cons_commit_view [OF v(2)] v f(3) by (simp add: cons_step_def uart_ready_def, simp add: cons_store_def emit_def)
    then show ?thesis using run by blast
  qed
qed

definition cons_body :: "int \<Rightarrow> ('a console_scheme, unit) kmon" where
  "cons_body c = (if c = ctrl (CHR ''P'') then procdump
      else if c = ctrl (CHR ''U'') then kill_line
      else if c = ctrl (CHR ''H'') \<or> c = 127 then
        bind (gets (\<lambda>s. cons_e s \<noteq> cons_w s)) (\<lambda>b.
          whenM b (bind (modify (\<lambda>s. s\<lparr>cons_e := cons_e s - 1\<rparr>)) (\<lambda>_. consputc BACKSPACE)))
      else console_key c)"

lemma consoleintr_body: "consoleintr c = bind (acquire LCons) (\<lambda>_. bind (cons_body c) (\<lambda>_. release LCons))"
  by (simp add: consoleintr_def cons_body_def)

lemma erase_apply:
  assumes ok: "cons_ok s" and r: "uart_ready s" and c: "c = 8 \<or> c = 127"
  shows "\<exists>t. cons_body c s e = Ret () t e \<and> cons_step s c t"
proof (cases "cons_e s = cons_w s")
  case True
  then have "cons_body c s e = Ret () s e" "snd (cons_view s) = []"
    using c by (auto simp: cons_body_def bind_apply gets_apply whenM_def ret_apply cons_view_def)
  then show ?thesis using ok r c by (intro exI [of _ s]) (auto simp: cons_step_def key_def completes_def split_beta prod_eq_iff)
next
  case False
  let ?s = "s\<lparr>cons_e := cons_e s - 1\<rparr>"
  have r': "uart_ready ?s" using r by (simp add: uart_ready_def)
  have "cons_body c s e = Ret () (emit [8, 32, 8] ?s) e"
    using False c prints_backspace [unfolded prints_def, rule_format, OF r', of e]
    by (auto simp: cons_body_def bind_apply gets_apply modify_apply whenM_def)
  moreover have "cons_step s c (emit [8, 32, 8] ?s)"
    using cons_erase_view(1,2) [OF ok False] r' c
    by (auto simp: cons_step_def key_def completes_def split_beta) (simp_all add: emit_def)
  ultimately show ?thesis by blast
qed

lemma cons_body_apply:
  assumes ok: "cons_ok s" and r: "uart_ready s" and pf: "plocks_free s" and c: "0 \<le> c" "c < 256"
    and l: "lock_free (locks s LPr)"
  shows "\<exists>t. cons_body c s e = Ret () t e \<and> cons_step s c t"
proof -
  consider "c = 16" | "c = 21" | "c = 8 \<or> c = 127" | "c \<noteq> 16" "c \<noteq> 21" "c \<noteq> 8" "c \<noteq> 127" by blast
  then show ?thesis
  proof cases
    case 1
    obtain out where o: "procdump s e = Ret () (emit out s) e" using procdump_apply [OF r l] by blast
    then have "cons_step s c (emit out s)" using ok r 1
      by (auto simp: cons_step_def key_def completes_def) (simp add: emit_def)
    then show ?thesis using o 1 by (auto simp: cons_body_def)
  next
    case 2
    have "length (snd (cons_view s)) < Suc (unat (cons_e s - cons_w s))" by (simp add: cons_view_def)
    then obtain t where t: "kill_line s e = Ret () t e" "cons_ok t" "uart_ready t"
        "cons_view t = (fst (cons_view s), rev (dropWhile (\<lambda>x. x \<noteq> 10) (rev (snd (cons_view s)))))"
        "t = s\<lparr>cons_e := cons_e t, uart_hist := uart_hist t\<rparr>"
      using kill_line_loop [OF ok r, of "Suc (unat (cons_e s - cons_w s))" e]
      unfolding kill_line_def bind_apply gets_apply res.case by blast
    obtain x y where xy: "t = s\<lparr>cons_e := x, uart_hist := y\<rparr>" using t(5) by blast
    have "cons_step s c t" using t(2-4) 2 by (simp add: cons_step_def key_def completes_def split_beta) (simp add: xy)
    then show ?thesis using t(1) 2 by (auto simp: cons_body_def)
  next
    case 3
    then show ?thesis by (rule erase_apply [OF ok r])
  next
    case 4
    then show ?thesis using console_key_apply [OF ok r pf c 4, of e] by (simp add: cons_body_def)
  qed
qed

lemma consoleintr_apply:
  assumes ok: "cons_ok s" and r: "uart_ready s" and pf: "plocks_free s" and c: "0 \<le> c" "c < 256"
    and l: "lock_free (locks s LCons)" "lock_free (locks s LPr)"
  shows "\<exists>t. consoleintr c s e = Ret () t e \<and> cons_step s c t"
proof -
  have r': "uart_ready (locked LCons s)" using r by (simp add: uart_ready_def)
  have pf': "plocks_free (locked LCons s)" using pf by simp
  have l': "lock_free (locks (locked LCons s) LPr)" using l by (simp add: locks_locked)
  obtain t where t: "cons_body c (locked LCons s) e = Ret () t e" "cons_step (locked LCons s) c t"
    using cons_body_apply [OF _ r' pf' c l'] ok by auto
  let ?t = "s\<lparr>procs := procs t, uart_hist := uart_hist t, cons_buf := cons_buf t, cons_w := cons_w t, cons_e := cons_e t\<rparr>"
  have "t = (locked LCons s)\<lparr>procs := procs t, uart_hist := uart_hist t, cons_buf := cons_buf t,
      cons_w := cons_w t, cons_e := cons_e t\<rparr>" using t(2) unfolding cons_step_def by blast
  note tt = this [unfolded locked_updates]
  have "uart_ready ?t" using r by (simp add: uart_ready_def)
  moreover have "cons_ok (locked LCons ?t)" "cons_view (locked LCons ?t) = key c (cons_view s)"
    unfolding tt [symmetric] using t(2) unfolding cons_step_def by simp_all
  moreover have "procs t = (if completes c (cons_view s) then wakes ChCons s else procs s)"
    using t(2) by (simp add: cons_step_def)
  ultimately have "cons_step s c ?t" unfolding cons_frame by (simp add: cons_step_def)
  moreover have "release LCons (locked LCons ?t) e = Ret () ?t e"
    using r l by (intro release_locked) (simp_all add: uart_ready_def)
  ultimately show ?thesis using t(1) l(1) unfolding tt [symmetric]
    by (auto simp: consoleintr_body bind_apply acquire_locked)
qed

section \<open>Properties\<close>


text \<open>Witness: an idle device, and a console with nothing typed yet.\<close>

definition console0 :: console where
  "console0 = prstate.extend prstate0 (console.fields (replicate 128 0) 0 0 0 (\<lambda>_. None) 0)"

lemma console0_fields [simp]: "settled console0" "locks console0 = locks smp0" "procs console0 = procs ptable0"
  "uart_dev console0 = (\<lambda>_ _. 32)" "uart_hist console0 = []" "uart_tx_buf console0 = replicate 32 0"
  "uart_tx_w console0 = 0" "uart_tx_r console0 = 0" "\<not> panicked console0" "pr_locking console0"
  "cons_buf console0 = replicate 128 0" "cons_r console0 = 0" "cons_w console0 = 0" "cons_e console0 = 0"
  using prstate0_fields by (simp_all add: console0_def prstate.extend_def console.fields_def settled_def)




end
