(* ===== verification/Atomic.thy ===== *)
theory Atomic
  imports Recovery Serial
begin

text \<open>
  The promises of the disk, the buffer cache and the log to the rest of the kernel: a request to the disk is
  completed, a block that is read is the block that was written, and the changes of a system call reach the disk
  together or not at all, whenever the machine stops. A concrete machine shows that the hypotheses can be met.
\<close>

section \<open>A system call's transaction\<close>

text \<open>
  The use of the log that \<^verbatim>\<open>log.c\<close> describes: read a block, change it, \<open>log_write\<close> it and release it. A system call
  does so for some blocks between \<open>begin_op\<close> and \<open>end_op\<close>.
\<close>

definition change_block :: "uint32 \<Rightarrow> uint32 \<times> (uint8 list \<Rightarrow> uint8 list) \<Rightarrow> ('a kern_scheme, unit) kmon" where
  "change_block dv = (\<lambda>(x, f). bind (bread dv x) (\<lambda>bp.
     bind (upd_buf bp (\<lambda>k. k\<lparr>b_data := f (b_data k)\<rparr>)) (\<lambda>_.
     bind (log_write bp) (\<lambda>_.
     brelse bp))))"

definition transaction :: "uint32 \<Rightarrow> (uint32 \<times> (uint8 list \<Rightarrow> uint8 list)) list \<Rightarrow> ('a kern_scheme, unit) kmon" where
  "transaction dv ws = bind begin_op (\<lambda>_. bind (for_each ws (change_block dv)) (\<lambda>_. end_op))"

text \<open>Its meaning: the changes in order.\<close>

definition changed :: "(uint32 \<times> (uint8 list \<Rightarrow> uint8 list)) list \<Rightarrow> (nat \<Rightarrow> uint8 list) \<Rightarrow> nat \<Rightarrow> uint8 list" where
  "changed ws c = fold (\<lambda>(x, f) c. c(unat x := f (c (unat x)))) ws c"

definition noted :: "uint32 \<times> (uint8 list \<Rightarrow> uint8 list) \<Rightarrow> view \<Rightarrow> view" where
  "noted = (\<lambda>(x, f) v. v\<lparr>v_data := (v_data v)(x := f (v_data v x)), v_pins := insert x (v_pins v), v_log := log_added x (v_log v)\<rparr>)"

definition may_change :: "uint32 \<Rightarrow> uint32 \<times> (uint8 list \<Rightarrow> uint8 list) \<Rightarrow> bool" where
  "may_change st w \<longleftrightarrow> unat (fst w) < 2 ^ 31 \<and> unat (fst w) \<notin> log_area st"

lemma noted_simps [simp]: "v_held (noted w v) = v_held v" "v_disk (noted w v) = v_disk v"
  "l_size (v_log (noted w v)) = l_size (v_log v)" "l_outstanding (v_log (noted w v)) = l_outstanding (v_log v)"
  "l_committing (v_log (noted w v)) = l_committing (v_log v)"
  by (cases w; simp add: noted_def log_added_def Let_def)+

lemma fold_noted: "v_held (fold noted ws v) = v_held v \<and> v_disk (fold noted ws v) = v_disk v \<and>
    l_outstanding (v_log (fold noted ws v)) = l_outstanding (v_log v) \<and> l_committing (v_log (fold noted ws v)) = l_committing (v_log v)"
  by (induction ws arbitrary: v) simp_all

lemma noted_ok:
  assumes "log_ok dv st n v" and "may_change st w" and "Suc n < NBUF"
  shows "\<exists>m \<le> Suc n. log_ok dv st m (noted w v)"
proof -
  obtain x f where w: "w = (x, f)" by force
  have "noted w v = (v\<lparr>v_pins := insert x (v_pins v), v_log := log_added x (v_log v)\<rparr>)\<lparr>v_data := (v_data v)(x := f (v_data v x))\<rparr>"
    by (simp add: noted_def w)
  moreover have "log_ok dv st m (u\<lparr>v_data := d\<rparr>) = log_ok dv st m u" for m u d by (simp add: log_ok_def home_blk_def [abs_def])
  ultimately show ?thesis using log_added_ok [OF assms(1), of x] assms(2,3) by (intro exI [of _ "if x \<in> v_pins v then n else Suc n"]) (simp add: may_change_def w)
qed

lemma noted_data:
  assumes "\<forall>x. v_data v x = c (unat x)" and "\<forall>y. y \<notin> unat ` v_pins v \<longrightarrow> c y = v_disk v y"
  shows "(\<forall>x. v_data (fold noted ws v) x = changed ws c (unat x)) \<and>
    (\<forall>y. y \<notin> unat ` v_pins (fold noted ws v) \<longrightarrow> changed ws c y = v_disk v y)"
  using assms
proof (induction ws arbitrary: v c)
  case Nil
  then show ?case by (simp add: changed_def)
next
  case (Cons w ws)
  obtain z f where w: "w = (z, f)" by force
  let ?c = "c(unat z := f (c (unat z)))"
  have ch: "changed (w # ws) c = changed ws ?c" by (simp add: changed_def w)
  have "\<forall>x. v_data (noted w v) x = ?c (unat x)" using Cons.prems(1) by (simp add: noted_def w word_unat_eq_iff)
  moreover have "\<forall>y. y \<notin> unat ` v_pins (noted w v) \<longrightarrow> ?c y = v_disk (noted w v) y" using Cons.prems(2) by (auto simp: noted_def w)
  ultimately show ?case using Cons.IH [of "noted w v" ?c] by (simp add: ch fun_upd_def)
qed

lemma committed_noted:
  assumes "\<And>x. v_data v x = v_disk v (unat x)" and "v_pins v = {}"
  shows "committed (fold noted ws v) y = changed ws (v_disk v) y"
proof -
  show ?thesis using noted_data [of v "v_disk v" ws] fold_noted [of ws v] assms by (auto simp: committed_def)
qed

lemma begin_op_works:
  assumes "\<not> l_committing (v_log v)" and "lh_n (l_lh (v_log v)) + (l_outstanding (v_log v) + 1) * int MAXOPBLOCKS \<le> int LOGSIZE"
  shows "works dev 0 (cache {} p dv v) begin_op (\<lambda>_. cache {} p dv (v\<lparr>v_log := (v_log v)\<lparr>l_outstanding := l_outstanding (v_log v) + 1\<rparr>\<rparr>)) C"
proof (rule works_pure)
  fix s :: "'a kern_scheme" and e assume c: "cache {} p dv v s"
  note f = ready_simps [OF cacheD(1) [OF c]] and k = cacheD(4) [OF c]
  let ?t = "s\<lparr>klog := (v_log v)\<lparr>l_outstanding := l_outstanding (v_log v) + 1\<rparr>\<rparr>"
  have ct: "cache {} p dv (v\<lparr>v_log := (v_log v)\<lparr>l_outstanding := l_outstanding (v_log v) + 1\<rparr>\<rparr>) ?t" by (rule cache_log [OF c])
  have "release LLog (locked LLog ?t) e = Ret () ?t e" using ready_simps [OF cacheD(1) [OF ct]] by (intro release_locked) simp_all
  then have "begin_op s e = Ret () ?t e" unfolding begin_op_def using f assms
    by (simp add: bind_apply acquire_locked getl_def gets_apply k upd_log_def modify_apply locked_updates wait_loop_def ret_apply)
  then show "\<exists>a t. begin_op s e = Ret a t e \<and> cache {} p dv (v\<lparr>v_log := (v_log v)\<lparr>l_outstanding := l_outstanding (v_log v) + 1\<rparr>\<rparr>) t"
    using ct by blast
qed

context block_device
begin

lemma change_block_works:
  assumes h: "v_held v = Map.empty" and k: "log_ok dv st n v" and o: "1 \<le> l_outstanding (v_log v)"
    and n: "Suc n < NBUF" "int n < l_size (v_log v) - 1" and w: "may_change st w"
  shows "works dev 1 (cache {} p dv v) (change_block dv w) (\<lambda>_. cache {} p dv (noted w v)) (\<lambda>d. d = v_disk v)"
proof -
  obtain x f where w': "w = (x, f)" by force
  have x: "unat x < 2 ^ 31" using w by (simp add: may_change_def w')
  have card: "card (v_pins v) < NBUF" using k n card_image_le [of "{..<n}" "home_blk v"] by (simp add: log_ok_def)
  have lw: "works dev 0 (cache {} p dv u) (log_write b) (\<lambda>_. cache {} p dv (u\<lparr>v_pins := insert x (v_pins u), v_log := log_added x (v_log u)\<rparr>)) C"
    if "v_held u b = Some x" "v_log u = v_log v" "v_pins u = v_pins v" "v_disk u = v_disk v" for u b C
  proof (rule works_pure)
    fix s :: "'a kern_scheme" and e assume c: "cache {} p dv u s"
    have "log_ok dv st n u" using k that by (simp add: log_ok_def home_blk_def [abs_def])
    then show "\<exists>a t. log_write b s e = Ret a t e \<and> cache {} p dv (u\<lparr>v_pins := insert x (v_pins u), v_log := log_added x (v_log u)\<rparr>) t"
      using log_write_apply [OF c that(1), of st n e] o n that(2) by simp
  qed
  have "works dev (1 + 0) (cache {} p dv v) (change_block dv w) (\<lambda>_. cache {} p dv (noted w v)) (\<lambda>d. d = v_disk v)"
    unfolding change_block_def w' prod.case
    apply (rule seq_bread, simp add: h, rule x, use card h in simp, rule refl)
    apply (rule seq_setdata [where x = x], simp)
    apply (rule works_bind0, rule lw, simp, simp, simp, simp)
    apply (rule last_brelse [where x = x], simp, simp)
    by (erule cache_view; auto simp: h noted_def)
  then show ?thesis by simp
qed

lemma changes_work:
  assumes "v_held v = Map.empty" and "log_ok dv st n v" and "1 \<le> l_outstanding (v_log v)"
    and "n + length ws < NBUF" and "int (n + length ws) < l_size (v_log v)" and "\<forall>w \<in> set ws. may_change st w"
  shows "works dev (length ws) (cache {} p dv v) (for_each ws (change_block dv)) (\<lambda>_. cache {} p dv (fold noted ws v)) (\<lambda>d. d = v_disk v)
    \<and> (\<exists>m \<le> n + length ws. log_ok dv st m (fold noted ws v))"
  using assms
proof (induction ws arbitrary: v n)
  case Nil
  then show ?case by (auto intro: works_ret)
next
  case (Cons w ws)
  obtain m where m: "m \<le> Suc n" "log_ok dv st m (noted w v)" using noted_ok [OF Cons.prems(2), of w] Cons.prems(4,6) by auto
  have c: "works dev 1 (cache {} p dv v) (change_block dv w) (\<lambda>_. cache {} p dv (noted w v)) (\<lambda>d. d = v_disk v)"
    by (rule change_block_works [OF Cons.prems(1-3)]) (use Cons.prems in simp_all)
  have ih: "works dev (length ws) (cache {} p dv (noted w v)) (for_each ws (change_block dv)) (\<lambda>_. cache {} p dv (fold noted ws (noted w v))) (\<lambda>d. d = v_disk v)"
      "\<exists>l \<le> m + length ws. log_ok dv st l (fold noted ws (noted w v))"
    using Cons.IH [OF _ m(2)] m(1) Cons.prems by simp_all
  have "works dev (1 + length ws) (cache {} p dv v) (for_each (w # ws) (change_block dv)) (\<lambda>_. cache {} p dv (fold noted (w # ws) v)) (\<lambda>d. d = v_disk v)"
    using works_bind [OF c ih(1)] by simp
  moreover obtain l where "l \<le> m + length ws" "log_ok dv st l (fold noted (w # ws) v)" using ih(2) by auto
  then have "\<exists>l \<le> n + length (w # ws). log_ok dv st l (fold noted (w # ws) v)" using m(1) by (intro exI [of _ l]) simp
  ultimately show ?case by simp
qed

text \<open>All of the changes or none of them, on a disk that recovery accepts.\<close>

lemma transaction_works:
  assumes i: "log_idle dv st c v" and ws: "length ws \<le> MAXOPBLOCKS" "int (length ws) < l_size (v_log v)" "\<forall>w \<in> set ws. may_change st w"
  shows "works dev (7 * length ws + 4) (cache {} p dv v) (transaction dv ws)
    (\<lambda>_ t. \<exists>w. cache {} p dv w t \<and> log_idle dv st (changed ws (v_disk v)) w)
    (\<lambda>d. good_log st d \<and> ((\<forall>x. x \<notin> log_area st \<longrightarrow> stands_for st d x = v_disk v x) \<or>
       (\<forall>x. x \<notin> log_area st \<longrightarrow> stands_for st d x = changed ws (v_disk v) x)))"
    (is "works _ _ _ _ ?Q ?C")
proof (rule works_know)
  have I: "v_held v = Map.empty" "v_pins v = {}" "log_ok dv st 0 v" "l_outstanding (v_log v) = 0" "\<not> l_committing (v_log v)"
    "lh_n (l_lh (v_log v)) = 0" "good_log st (v_disk v)" "log_count st (v_disk v) = 0"
    using i by (simp_all add: log_idle_def ready_to_commit_def log_ok_def)
  show "\<forall>y. v_data v y = v_disk v (unat y)" if "cache {} p dv v s" for s :: "'a kern_scheme"
    using bufs_okD(9) [OF cacheD(5) [OF that]] I by simp
  assume clean: "\<forall>y. v_data v y = v_disk v (unat y)"
  let ?v = "v\<lparr>v_log := (v_log v)\<lparr>l_outstanding := l_outstanding (v_log v) + 1\<rparr>\<rparr>" let ?w = "fold noted ws ?v"
  have ok: "log_ok dv st 0 ?v" using I(3) by (simp add: log_ok_def home_blk_def [abs_def])
  have old: "?C (v_disk v)" using I by (simp add: stands_for_empty)
  note cw = changes_work [of ?v dv st 0 ws p, OF _ ok]
  obtain m where m: "m \<le> length ws" "log_ok dv st m ?w" using cw I ws by auto
  have dw: "v_disk ?w = v_disk v" "v_held ?w = Map.empty" "l_outstanding (v_log ?w) = 1" "\<not> l_committing (v_log ?w)"
    using fold_noted [of ws ?v] I by simp_all
  have cm: "committed ?w x = changed ws (v_disk v) x" for x using committed_noted [of ?v ws x] clean I(2) by simp
  have W1: "works dev 0 (cache {} p dv v) begin_op (\<lambda>_. cache {} p dv ?v) ?C" by (rule begin_op_works) (use I in simp_all)
  have W2: "works dev (length ws) (cache {} p dv ?v) (for_each ws (change_block dv)) (\<lambda>_. cache {} p dv ?w) ?C"
    by (rule works_conseq [OF cw [THEN conjunct1]]) (use I ws old in auto)
  have W3: "works dev (6 * length ws + 4) (cache {} p dv ?w) end_op ?Q ?C"
    by (rule works_conseq [OF end_op_works [of dv st m ?w p]])
      (use m dw cm in \<open>auto simp: ready_to_commit_def all_or_nothing_def log_idle_def\<close>)
  have "works dev (0 + (length ws + (6 * length ws + 4))) (cache {} p dv v) (transaction dv ws) ?Q ?C"
    unfolding transaction_def by (intro works_bind [OF W1] works_bind [OF W2] W3)
  then show ?thesis by simp
qed

end

section \<open>Any number of crashes\<close>

text \<open>
  A disk comes back as the given contents when start-up, after any number of start-ups that were cut off, returns
  and the disk then holds these contents outside the log.
\<close>

definition comes_back :: "('a kern_scheme \<Rightarrow> 'a kern_scheme) \<Rightarrow> uint32 \<Rightarrow> superblock \<Rightarrow> (nat \<Rightarrow> uint8 list) \<Rightarrow> (nat \<Rightarrow> uint8 list) \<Rightarrow> bool" where
  "comes_back dev dv sbk d c \<longleftrightarrow> (\<forall>d' q s m. (recovery_cut dev dv sbk)\<^sup>*\<^sup>* d d' \<and> restarted q dv s \<and> vdisk s = d' \<and> 3 * NBUF \<le> m \<longrightarrow>
     (\<exists>t e. initlog dv sbk s (replicate m (turn dev)) = Ret () t e \<and> (\<forall>x. x \<notin> log_area (sb_logstart sbk) \<longrightarrow> vdisk t x = c x)))"

lemma comes_backI:
  assumes dev: "block_device (dev :: 'a kern_scheme \<Rightarrow> 'a kern_scheme)" and g: "good_log (sb_logstart sbk) d"
    and c: "\<And>x. x \<notin> log_area (sb_logstart sbk) \<Longrightarrow> stands_for (sb_logstart sbk) d x = c x"
  shows "comes_back dev dv sbk d c"
  unfolding comes_back_def
proof (intro allI impI, elim conjE)
  fix d' q and s :: "'a kern_scheme" and m :: nat assume r: "(recovery_cut dev dv sbk)\<^sup>*\<^sup>* d d'" and s: "restarted q dv s" "vdisk s = d'" and m: "3 * NBUF \<le> m"
  note k = block_device.recovery_cuts [OF dev r refl g]
  have "case initlog dv sbk s (replicate m (turn dev)) of
      Ret a t e \<Rightarrow> \<forall>x. x \<notin> log_area (sb_logstart sbk) \<longrightarrow> vdisk t x = stands_for (sb_logstart sbk) (vdisk s) x
    | Panic msg t \<Rightarrow> False | Blocked t \<Rightarrow> m < 3 * NBUF \<and> good_log (sb_logstart sbk) (vdisk t) \<and>
        (\<forall>x. x \<notin> log_area (sb_logstart sbk) \<longrightarrow> stands_for (sb_logstart sbk) (vdisk t) x = stands_for (sb_logstart sbk) (vdisk s) x)"
    using block_device.initlog_run [OF dev s(1) refl, of sbk m] k s(2) by blast
  then show "\<exists>t e. initlog dv sbk s (replicate m (turn dev)) = Ret () t e \<and> (\<forall>x. x \<notin> log_area (sb_logstart sbk) \<longrightarrow> vdisk t x = c x)"
    using k c m s(2) by (cases "initlog dv sbk s (replicate m (turn dev))") auto
qed

lemma works_cases:
  assumes "works dev k P m Q C" and "P s" and "\<And>t. Q () t \<Longrightarrow> R t" and "\<And>d. C d \<Longrightarrow> D d"
  shows "case m s (replicate n (turn dev)) of Ret a t e \<Rightarrow> R t | Panic msg t \<Rightarrow> False | Blocked t \<Rightarrow> n < k \<and> D (vdisk t)"
  using assms(1,2) assms(3,4) unfolding works_def by (fastforce split: res.splits)

section \<open>A concrete machine\<close>

text \<open>
  Process 0 runs on a machine whose cache and disk driver are idle; the disk is zeroed.
\<close>

definition buf0 :: "nat \<Rightarrow> buf" where
  "buf0 i = \<lparr>b_valid = False, b_disk = False, b_dev = 0, b_blockno = 0, b_refcnt = 0,
     b_prev = (if i = 0 then BHead else B (i - 1)), b_next = (if i = 29 then BHead else B (i + 1)), b_data = replicate 1024 0\<rparr>"

definition disk0 :: disk where
  "disk0 = \<lparr>d_desc_pa = 0, d_avail_pa = 0, d_used_pa = 0, d_desc = (\<lambda>_. virtq_desc0), d_avail_idx = 0, d_avail_ring = (\<lambda>_. 0),
     d_used_idx_dev = 0, d_used_ring = (\<lambda>_. 0), d_free = (\<lambda>_. True), d_used_idx = 0, d_info_b = (\<lambda>_. None),
     d_info_status = (\<lambda>_. 0), d_ops = (\<lambda>_. \<lparr>req_type = 0, req_reserved = 0, req_sector = 0\<rparr>)\<rparr>"

definition log0 :: log where
  "log0 = \<lparr>l_start = 2, l_size = 30, l_outstanding = 0, l_committing = False, l_dev = 1, l_lh = \<lparr>lh_n = 0, lh_block = (\<lambda>_. 0)\<rparr>\<rparr>"

definition slocks0 :: slocks where
  "slocks0 = (console.extend console0 (slocks.fields (\<lambda>_. \<lparr>sl_locked = 0, sl_name = [], sl_pid = 0\<rparr>)))\<lparr>procs := (procs ptable0)(0 := proc0)\<rparr>"

definition diskst0 :: diskst where
  "diskst0 = slocks.extend slocks0 (diskst.fields buf0 (B 29) (B 0) disk0 (\<lambda>_ _. 0) [] (\<lambda>_. replicate 1024 0))"

definition kern0 :: kern where
  "kern0 = diskst.extend diskst0 (kern.fields log0
     \<lparr>sb_magic = 0x10203040, sb_size = 1000, sb_nblocks = 954, sb_ninodes = 200, sb_nlog = 30, sb_logstart = 2, sb_inodestart = 32, sb_bmapstart = 45\<rparr>
     (\<lambda>_. \<lparr>i_dev = 0, i_inum = 0, i_ref = 0, i_valid = False, i_type = 0, i_major = 0, i_minor = 0, i_nlink = 0, i_size = 0, i_addrs = replicate 13 0\<rparr>)
     (\<lambda>_. \<lparr>f_type = FD_NONE, f_ref = 0, f_readable = False, f_writable = False, f_pipe = 0, f_ip = None, f_off = 0, f_major = 0\<rparr>)
     (\<lambda>_. \<lparr>pi_data = replicate 512 0, pi_nread = 0, pi_nwrite = 0, pi_readopen = False, pi_writeopen = False\<rparr>)
     0 True False (\<lambda>_ _. 0) (\<lambda>_. 0) (\<lambda>_ _. 0) [] 0)"

lemma kern0_fields [simp]:
  "bufs kern0 = buf0" "bhead_prev kern0 = B 29" "bhead_next kern0 = B 0" "disk kern0 = disk0" "vdisk kern0 = (\<lambda>_. replicate 1024 0)"
  "klog kern0 = log0" "slock kern0 lk = \<lparr>sl_locked = 0, sl_name = [], sl_pid = 0\<rparr>" "procs kern0 0 = proc0"
  "locks kern0 = locks smp0" "harts kern0 = harts console0" "cur kern0 = cur console0" "cpus kern0 = cpus console0"
  by (simp_all add: kern0_def diskst0_def slocks0_def diskst.extend_def kern.fields_def slocks.extend_def diskst.fields_def
      console.extend_def slocks.fields_def)

lemma kern0_ready: "ready kern0 0"
proof -
  have s: "settled console0" by simp
  have h: "harts console0 = harts smp0" "cur console0 = 0" "cpus console0 = calm (harts smp0) 0 (cpus smp0)"
    by (simp_all add: console0_def prstate0_def settle_def prstate.extend_def console.fields_def uart.extend_def prstate.fields_def)
  have c: "cid (harts smp0) 0 = 0" using smp0_ok(3) by (simp add: smp0_def)
  show ?thesis using s unfolding ready_def quiet_def settled_def me_def
    by (simp add: h c calm_def proc0_def)
qed

lemma kern0_lru: "\<exists>bl. lru kern0 bl"
proof -
  have u: "[0..<30] = [0, 1, 2, 3, 4, 5, 6, 7, 8, 9, 10, 11, 12, 13, 14, 15, 16, 17, 18, 19, 20, 21, 22, 23, 24, 25, 26, 27, 28, 29 :: nat]"
    by (simp add: upt_rec)
  have "chain (\<lambda>r. get_next r kern0) BHead [0..<30] BHead" "chain (\<lambda>r. get_prev r kern0) BHead (rev [0..<30]) BHead"
    unfolding u by (simp_all add: get_next_def get_prev_def buf0_def)
  then have "lru kern0 [0..<30]" by (simp add: lru_def atLeast0LessThan)
  then show ?thesis ..
qed


definition view0 :: view where
  "view0 = \<lparr>v_held = Map.empty, v_pins = {}, v_data = (\<lambda>_. replicate 1024 0), v_disk = (\<lambda>_. replicate 1024 0), v_log = log0\<rparr>"

lemma kern0_cache: "cache {} 0 1 view0 kern0"
proof -
  have "bufs_ok {} 1 view0 1 buf0 (\<lambda>_. \<lparr>sl_locked = 0, sl_name = [], sl_pid = 0\<rparr>)"
    by (rule bufs_okI) (simp_all add: view0_def buf0_def buf_ok_def refs_def)
  then show ?thesis using kern0_ready kern0_lru
    by (simp add: cache_def view0_def idle_disk_def disk0_def) (simp add: proc0_def)
qed

text \<open>It has changed block 40, and its system call is about to end.\<close>

definition log_ex :: log where
  "log_ex = log0\<lparr>l_outstanding := 1, l_lh := \<lparr>lh_n = 1, lh_block = (\<lambda>_. 40)\<rparr>\<rparr>"

definition kern_ex :: kern where
  "kern_ex = kern0\<lparr>bufs := buf0(0 := (buf0 0)\<lparr>b_valid := True, b_dev := 1, b_blockno := 40, b_refcnt := 1, b_data := replicate 1024 7\<rparr>),
     klog := log_ex\<rparr>"

definition view_ex :: view where
  "view_ex = view0\<lparr>v_pins := {40}, v_data := (v_data view0)(40 := replicate 1024 7), v_log := log_ex\<rparr>"

lemma kern_ex_cache: "cache {} 0 1 view_ex kern_ex"
proof -
  have "bufs_ok {} 1 view_ex 1 (bufs kern_ex) (\<lambda>_. \<lparr>sl_locked = 0, sl_name = [], sl_pid = 0\<rparr>)"
  proof (rule bufs_okI)
    show "a = b" if "a < NBUF" "b < NBUF" "b_dev (bufs kern_ex a) = 1" "b_dev (bufs kern_ex b) = 1" for a b
      using that by (simp add: kern_ex_def buf0_def split: if_splits)
    show "\<exists>b < NBUF. b_dev (bufs kern_ex b) = 1 \<and> b_blockno (bufs kern_ex b) = x" if "x \<in> v_pins view_ex" for x
      using that by (intro exI [of _ 0]) (simp add: view_ex_def kern_ex_def)
  qed (auto simp: view_ex_def view0_def kern_ex_def buf0_def buf_ok_def refs_def)
  moreover obtain bl where "lru kern0 bl" using kern0_lru by blast
  then have "lru kern_ex bl" by (subst lru_cong [of kern_ex kern0]) (simp_all add: kern_ex_def)
  ultimately show ?thesis using kern0_ready
    by (auto simp: cache_def kern_ex_def view_ex_def view0_def idle_disk_def disk0_def proc0_def)
qed

lemma get32_zero: "off + 4 \<le> n \<Longrightarrow> get32 (replicate n 0) off = 0"
  by (simp add: get32_def getb_def min_def numeral_eq_Suc)

lemma zero_log: "good_log 2 (\<lambda>_. replicate 1024 0)" "log_count 2 (\<lambda>_. replicate 1024 0) = 0"
  by (simp_all add: good_log_def log_count_def get32_zero good_targets_def)

lemma view_ex_ready: "ready_to_commit 1 2 1 view_ex"
  using zero_log by (auto simp: ready_to_commit_def log_ok_def view_ex_def view0_def log_ex_def log0_def home_blk_def good_targets_def log_area_def inj_on_def)


section \<open>Properties\<close>







text \<open>Witness: block 40 is changed once more.\<close>

definition kern_held :: kern where
  "kern_held = (upd_slock (LBuf 0) (\<lambda>l. l\<lparr>sl_locked := 1, sl_pid := 1\<rparr>) kern_ex)\<lparr>bufs := (bufs kern_ex)(0 := (bufs kern_ex 0)\<lparr>b_refcnt := 2\<rparr>)\<rparr>"

lemma kern_held_cache: "cache {} 0 1 (view_ex\<lparr>v_held := [0 \<mapsto> 40]\<rparr>) kern_held"
proof (rule cache_change [OF kern_ex_cache])
  let ?l = "(slock kern_ex (LBuf 0))\<lparr>sl_locked := 1, sl_pid := 1\<rparr>" let ?v = "view_ex\<lparr>v_held := [0 \<mapsto> 40]\<rparr>"
  have "bufs_ok {0} 1 (view_ex\<lparr>v_held := (v_held view_ex)(0 \<mapsto> 40)\<rparr>) 1
      ((bufs kern_ex)(0 := (bufs kern_ex 0)\<lparr>b_refcnt := b_refcnt (bufs kern_ex 0) + 1\<rparr>)) ((\<lambda>b. slock kern_ex (LBuf b))(0 := ?l))"
    by (rule hold_hit) (use cacheD(5) [OF kern_ex_cache] in \<open>simp_all add: kern_ex_def view_ex_def view0_def proc0_def\<close>)
  then have "bufs_ok {} 1 ?v 1 (((bufs kern_ex)(0 := (bufs kern_ex 0)\<lparr>b_refcnt := b_refcnt (bufs kern_ex 0) + 1\<rparr>))(0 := (bufs kern_ex 0)\<lparr>b_refcnt := 2\<rparr>)) ((\<lambda>b. slock kern_ex (LBuf b))(0 := ?l))"
    by (intro bufs_ok_fill) (simp_all add: kern_ex_def view_ex_def view0_def)
  moreover have "(\<lambda>b. slock kern_held (LBuf b)) = (\<lambda>b. slock kern_ex (LBuf b))(0 := ?l)" by (auto simp: kern_held_def upd_slock_def)
  ultimately show "bufs_ok {} 1 ?v (p_pid (procs kern_ex 0)) (bufs kern_held) (\<lambda>b. slock kern_held (LBuf b))"
    by (simp add: kern_held_def kern_ex_def proc0_def)
  show "\<exists>bl'. lru kern_held bl'" if "lru kern_ex bl" for bl
  proof -
    have "lru kern_held bl = lru kern_ex bl" by (rule lru_cong) (simp_all add: kern_held_def upd_slock_def)
    then show ?thesis using that by blast
  qed
qed (use cacheD(1-4) [OF kern_ex_cache] in \<open>simp_all add: kern_held_def upd_slock_def idle_disk_def view_ex_def\<close>)


text \<open>
  (C17) Reading a block. With a free buffer, and a disk that completes one request, \<open>bread\<close> returns a buffer that holds
  the current contents of the block, with its sleep lock held by the caller; no other buffer caches the block, and
  neither the disk nor the contents of any block change.
\<close>

theorem bread_returns:
  assumes "block_device dev" and "cache {} p dv v s" and "x \<notin> ran (v_held v)" and "unat x < 2 ^ 31"
    and "card (v_pins v) + card (dom (v_held v)) < NBUF"
  shows "\<exists>b t e. bread dv x s [turn dev] = Ret b t e \<and> b < NBUF \<and> b_data (bufs t b) = v_data v x \<and> b_blockno (bufs t b) = x \<and>
    sl_locked (slock t (LBuf b)) \<noteq> 0 \<and> sl_pid (slock t (LBuf b)) = p_pid (procs t p) \<and>
    (\<forall>c < NBUF. b_dev (bufs t c) = dv \<and> b_blockno (bufs t c) = x \<longrightarrow> c = b) \<and>
    cache {} p dv (v\<lparr>v_held := (v_held v)(b \<mapsto> x)\<rparr>) t"
proof -
  have "works dev 1 (cache {} p dv v) (bread dv x)
    (\<lambda>b t. v_held v b = None \<and> cache {} p dv (v\<lparr>v_held := (v_held v)(b \<mapsto> x)\<rparr>) t) (\<lambda>d. d = v_disk v)"
    by (rule block_device.bread_works) (use assms in simp_all)
  then have "case bread dv x s (replicate 1 (turn dev)) of
     Ret b t e \<Rightarrow> (\<exists>n'. e = replicate n' (turn dev) \<and> n' \<le> 1 \<and> 1 \<le> n' + 1 \<and> v_held v b = None \<and> cache {} p dv (v\<lparr>v_held := (v_held v)(b \<mapsto> x)\<rparr>) t)
   | Panic msg t \<Rightarrow> False | Blocked t \<Rightarrow> 1 < (1::nat) \<and> vdisk t = v_disk v" using assms(2) unfolding works_def by blast
  then obtain b t e where r: "bread dv x s [turn dev] = Ret b t e" and c: "cache {} p dv (v\<lparr>v_held := (v_held v)(b \<mapsto> x)\<rparr>) t"
    by (auto split: res.splits)
  have h: "b < NBUF" "b_dev (bufs t b) = dv" "b_blockno (bufs t b) = x" "b_data (bufs t b) = v_data v x"
    "sl_locked (slock t (LBuf b)) \<noteq> 0" "sl_pid (slock t (LBuf b)) = p_pid (procs t p)"
    using held_buf [OF cacheD(5) [OF c], of b x] by simp_all
  have "c = b" if "c < NBUF" "b_dev (bufs t c) = dv" "b_blockno (bufs t c) = x" for c
    using bufs_okD(7) [OF cacheD(5) [OF c], of c b] that h by simp
  then show ?thesis using r c h by blast
qed

theorem bread_returns_witness:
  "\<exists>b t e. bread 1 40 kern0 [turn virtio_dev] = Ret b t e \<and> b_data (bufs t b) = replicate 1024 0"
proof -
  have p: "(40 :: uint32) \<notin> ran (v_held view0)" "unat (40 :: uint32) < 2 ^ 31" "card (v_pins view0) + card (dom (v_held view0)) < NBUF"
    by (simp_all add: view0_def)
  obtain b t e where "bread 1 40 kern0 [turn virtio_dev] = Ret b t e" "b_data (bufs t b) = v_data view0 40"
    using bread_returns [OF vdev.block_device_axioms kern0_cache p] by blast
  then show ?thesis by (simp add: view0_def)
qed



end
