(* ===== verification/Fs.thy ===== *)
theory Fs
  imports Log
begin

text \<open>
  The file system, \<^verbatim>\<open>kernel/fs.c\<close>: the block allocator, inodes, file contents, directories and
  path names. Functions that return a pointer to an inode return an index of the inode table,
  \<open>None\<close> for 0. \<open>readi\<close> and \<open>writei\<close> take the destination or source as the code's callers give
  it: a user address, an address of physical memory, or a local variable of the caller, whose
  bytes are then part of the result or of the argument.
\<close>

section \<open>Blocks\<close>

definition readsb :: "uint32 \<Rightarrow> ('a kern_scheme, unit) kmon" where
  "readsb dev = bind (bread dev 1) (\<lambda>bp.
    bind (getbuf bp b_data) (\<lambda>d.
    bind (modify (\<lambda>s. s\<lparr>sb := superblock_of d\<rparr>)) (\<lambda>_.
    brelse bp)))"

definition fsinit :: "uint32 \<Rightarrow> ('a kern_scheme, unit) kmon" where
  "fsinit dev = bind (readsb dev) (\<lambda>_.
    bind (gets sb) (\<lambda>s.
    if sb_magic s \<noteq> FSMAGIC then panic ''invalid file system'' else
    initlog dev s))"

definition bzero :: "uint32 \<Rightarrow> uint32 \<Rightarrow> ('a kern_scheme, unit) kmon" where
  "bzero dev bno = bind (bread dev bno) (\<lambda>bp.
    bind (upd_buf bp (\<lambda>k. k\<lparr>b_data := replicate BSIZE 0\<rparr>)) (\<lambda>_.
    bind (log_write bp) (\<lambda>_.
    brelse bp)))"

definition bit_mask :: "nat \<Rightarrow> uint8" where
  "bit_mask bi = push_bit (bi mod 8) 1"

text \<open>
  \<open>balloc\<close>: the outer loop goes over the blocks of the bitmap, the inner one over the bits of a
  block.
\<close>

definition balloc_bits :: "uint32 \<Rightarrow> nat \<Rightarrow> nat \<Rightarrow> ('a kern_scheme, uint32 option) kmon" where
  "balloc_bits dev b bp = bind (gets (\<lambda>s. unat (sb_size (sb s)))) (\<lambda>size.
    for_find [0..<min BPB (size - b)] (\<lambda>bi.
       bind (getbuf bp b_data) (\<lambda>d.
         if d ! (bi div 8) AND bit_mask bi = 0
         then bind (upd_buf bp (\<lambda>k. k\<lparr>b_data := (b_data k)[bi div 8 := b_data k ! (bi div 8) OR bit_mask bi]\<rparr>)) (\<lambda>_.
           bind (log_write bp) (\<lambda>_.
           bind (brelse bp) (\<lambda>_.
           bind (bzero dev (of_nat (b + bi))) (\<lambda>_.
           ret (Some (of_nat (b + bi)))))))
         else ret None)))"

definition balloc :: "uint32 \<Rightarrow> ('a kern_scheme, uint32) kmon" where
  "balloc dev = bind (gets (\<lambda>s. unat (sb_size (sb s)))) (\<lambda>size.
    bind (for_find (map (\<lambda>k. k * BPB) [0..<(size + BPB - 1) div BPB]) (\<lambda>b.
       bind (gets sb) (\<lambda>s.
         bind (bread dev (BBLOCK (of_nat b) s)) (\<lambda>bp.
         bind (balloc_bits dev b bp) (\<lambda>x.
         case x of Some a \<Rightarrow> ret (Some a) | None \<Rightarrow> bind (brelse bp) (\<lambda>_.
           ret None)))))) (\<lambda>r.
    case r of Some a \<Rightarrow> ret a
     | None \<Rightarrow> bind (printf (''balloc: out of blocks'' @ [CHR 0x0A]) []) (\<lambda>_.
       ret 0)))"

definition bfree :: "uint32 \<Rightarrow> uint32 \<Rightarrow> ('a kern_scheme, unit) kmon" where
  "bfree dev b = bind (gets sb) (\<lambda>s.
    bind (bread dev (BBLOCK b s)) (\<lambda>bp.
    let bi = unat b mod BPB in
    bind (getbuf bp b_data) (\<lambda>d.
    if d ! (bi div 8) AND bit_mask bi = 0 then panic ''freeing free block'' else
    bind (upd_buf bp (\<lambda>k. k\<lparr>b_data := (b_data k)[bi div 8 := b_data k ! (bi div 8) AND NOT (bit_mask bi)]\<rparr>)) (\<lambda>_.
    bind (log_write bp) (\<lambda>_.
    brelse bp)))))"

section \<open>Inodes\<close>

definition iinit :: "('a kern_scheme, unit) kmon" where
  "iinit = bind (initlock LItable ''itable'') (\<lambda>_.
    for_each [0..<NINODE] (\<lambda>i. initsleeplock (LInode i) ''inode''))"

text \<open>The scan of \<open>iget\<close>: a match (\<open>Inl\<close>), or the first empty slot if there is one (\<open>Inr\<close>).\<close>

primrec iget_scan :: "nat list \<Rightarrow> uint32 \<Rightarrow> uint32 \<Rightarrow> nat option \<Rightarrow> ('a kern_scheme, nat + nat option) kmon" where
  "iget_scan [] dev inum emp = ret (Inr emp)"
| "iget_scan (ip # ips) dev inum emp = bind (geti ip id) (\<lambda>r.
  if i_ref r > 0 \<and> i_dev r = dev \<and> i_inum r = inum then ret (Inl ip)
     else iget_scan ips dev inum (if emp = None \<and> i_ref r = 0 then Some ip else emp))"

definition iget :: "uint32 \<Rightarrow> uint32 \<Rightarrow> ('a kern_scheme, nat) kmon" where
  "iget dev inum = bind (acquire LItable) (\<lambda>_.
    bind (iget_scan [0..<NINODE] dev inum None) (\<lambda>r.
    case r of Inl ip \<Rightarrow> bind (upd_inode ip (\<lambda>i. i\<lparr>i_ref := i_ref i + 1\<rparr>)) (\<lambda>_.
       bind (release LItable) (\<lambda>_.
       ret ip))
     | Inr None \<Rightarrow> panic ''iget: no inodes''
     | Inr (Some ip) \<Rightarrow> bind (upd_inode ip (\<lambda>i. i\<lparr>i_dev := dev\<rparr>)) (\<lambda>_.
       bind (upd_inode ip (\<lambda>i. i\<lparr>i_inum := inum\<rparr>)) (\<lambda>_.
       bind (upd_inode ip (\<lambda>i. i\<lparr>i_ref := 1\<rparr>)) (\<lambda>_.
       bind (upd_inode ip (\<lambda>i. i\<lparr>i_valid := False\<rparr>)) (\<lambda>_.
       bind (release LItable) (\<lambda>_.
       ret ip)))))))"

definition dinode0 :: dinode where
  "dinode0 = \<lparr>di_type = 0, di_major = 0, di_minor = 0, di_nlink = 0, di_size = 0, di_addrs = replicate 13 0\<rparr>"

definition ialloc :: "uint32 \<Rightarrow> uint16 \<Rightarrow> ('a kern_scheme, nat option) kmon" where
  "ialloc dev type = bind (gets (\<lambda>s. unat (sb_ninodes (sb s)))) (\<lambda>n.
    bind (for_find [1..<n] (\<lambda>inum.
       bind (gets sb) (\<lambda>s.
         bind (bread dev (IBLOCK (of_nat inum) s)) (\<lambda>bp.
         bind (getbuf bp b_data) (\<lambda>d.
         if di_type (dinode_at d (inum mod IPB)) = 0
         then bind (upd_buf bp (\<lambda>k. k\<lparr>b_data := put_dinode (b_data k) (inum mod IPB) (dinode0\<lparr>di_type := type\<rparr>)\<rparr>)) (\<lambda>_.
           bind (log_write bp) (\<lambda>_.
           bind (brelse bp) (\<lambda>_.
           bind (iget dev (of_nat inum)) (\<lambda>ip.
           ret (Some ip)))))
         else bind (brelse bp) (\<lambda>_.
           ret None)))))) (\<lambda>r.
    case r of Some ip \<Rightarrow> ret (Some ip)
     | None \<Rightarrow> bind (printf (''ialloc: no inodes'' @ [CHR 0x0A]) []) (\<lambda>_.
       ret None)))"

definition dinode_of_inode :: "inode \<Rightarrow> dinode" where
  "dinode_of_inode i = \<lparr>di_type = i_type i, di_major = i_major i, di_minor = i_minor i,
     di_nlink = i_nlink i, di_size = i_size i, di_addrs = i_addrs i\<rparr>"

definition iupdate :: "nat \<Rightarrow> ('a kern_scheme, unit) kmon" where
  "iupdate ip = bind (geti ip id) (\<lambda>i.
    bind (gets sb) (\<lambda>s.
    bind (bread (i_dev i) (IBLOCK (i_inum i) s)) (\<lambda>bp.
    bind (geti ip id) (\<lambda>i.
    bind (upd_buf bp (\<lambda>k. k\<lparr>b_data := put_dinode (b_data k) (unat (i_inum i) mod IPB) (dinode_of_inode i)\<rparr>)) (\<lambda>_.
    bind (log_write bp) (\<lambda>_.
    brelse bp))))))"

definition idup :: "nat \<Rightarrow> ('a kern_scheme, nat) kmon" where
  "idup ip = bind (acquire LItable) (\<lambda>_.
    bind (upd_inode ip (\<lambda>i. i\<lparr>i_ref := i_ref i + 1\<rparr>)) (\<lambda>_.
    bind (release LItable) (\<lambda>_.
    ret ip)))"

definition ilock :: "nat option \<Rightarrow> ('a kern_scheme, unit) kmon" where
  "ilock p = (case p of None \<Rightarrow> panic ''ilock'' | Some ip \<Rightarrow>
     bind (geti ip i_ref) (\<lambda>r.
       if r < 1 then panic ''ilock'' else
       bind (acquiresleep (LInode ip)) (\<lambda>_.
       bind (geti ip i_valid) (\<lambda>v.
       if v then ret () else
       bind (geti ip id) (\<lambda>i.
       bind (gets sb) (\<lambda>s.
       bind (bread (i_dev i) (IBLOCK (i_inum i) s)) (\<lambda>bp.
       bind (geti ip id) (\<lambda>i.
       bind (getbuf bp b_data) (\<lambda>d.
       let di = dinode_at d (unat (i_inum i) mod IPB) in
       bind (upd_inode ip (\<lambda>i. i\<lparr>i_type := di_type di, i_major := di_major di, i_minor := di_minor di,
         i_nlink := di_nlink di, i_size := di_size di, i_addrs := di_addrs di\<rparr>)) (\<lambda>_.
       bind (brelse bp) (\<lambda>_.
       bind (upd_inode ip (\<lambda>i. i\<lparr>i_valid := True\<rparr>)) (\<lambda>_.
       bind (geti ip i_type) (\<lambda>t.
       if t = 0 then panic ''ilock: no type'' else ret ())))))))))))))"

definition iunlock :: "nat option \<Rightarrow> ('a kern_scheme, unit) kmon" where
  "iunlock p = (case p of None \<Rightarrow> panic ''iunlock'' | Some ip \<Rightarrow>
     bind (holdingsleep (LInode ip)) (\<lambda>h.
       if \<not> h then panic ''iunlock'' else
       bind (geti ip i_ref) (\<lambda>r.
       if r < 1 then panic ''iunlock'' else
       releasesleep (LInode ip))))"

definition itrunc_direct :: "nat \<Rightarrow> ('a kern_scheme, unit) kmon" where
  "itrunc_direct ip = for_each [0..<NDIRECT] (\<lambda>j.
     bind (geti ip id) (\<lambda>i.
       whenM (i_addrs i ! j \<noteq> 0) (bind (bfree (i_dev i) (i_addrs i ! j)) (\<lambda>_.
         upd_inode ip (\<lambda>i. i\<lparr>i_addrs := (i_addrs i)[j := 0]\<rparr>)))))"

definition itrunc_indirect :: "nat \<Rightarrow> ('a kern_scheme, unit) kmon" where
  "itrunc_indirect ip = bind (geti ip id) (\<lambda>i.
    whenM (i_addrs i ! NDIRECT \<noteq> 0) (bind (bread (i_dev i) (i_addrs i ! NDIRECT)) (\<lambda>bp.
       bind (for_each [0..<NINDIRECT] (\<lambda>j.
         bind (getbuf bp b_data) (\<lambda>d.
           bind (geti ip i_dev) (\<lambda>dev.
           whenM (get32 d (4 * j) \<noteq> 0) (bfree dev (get32 d (4 * j))))))) (\<lambda>_.
       bind (brelse bp) (\<lambda>_.
       bind (geti ip id) (\<lambda>i.
       bind (bfree (i_dev i) (i_addrs i ! NDIRECT)) (\<lambda>_.
       upd_inode ip (\<lambda>i. i\<lparr>i_addrs := (i_addrs i)[NDIRECT := 0]\<rparr>))))))))"

definition itrunc :: "nat \<Rightarrow> ('a kern_scheme, unit) kmon" where
  "itrunc ip = bind (itrunc_direct ip) (\<lambda>_.
    bind (itrunc_indirect ip) (\<lambda>_.
    bind (upd_inode ip (\<lambda>i. i\<lparr>i_size := 0\<rparr>)) (\<lambda>_.
    iupdate ip)))"

definition iput :: "nat \<Rightarrow> ('a kern_scheme, unit) kmon" where
  "iput ip = bind (acquire LItable) (\<lambda>_.
    bind (geti ip id) (\<lambda>i.
    bind (whenM (i_ref i = 1 \<and> i_valid i \<and> i_nlink i = 0) (bind (acquiresleep (LInode ip)) (\<lambda>_.
       bind (release LItable) (\<lambda>_.
       bind (itrunc ip) (\<lambda>_.
       bind (upd_inode ip (\<lambda>i. i\<lparr>i_type := 0\<rparr>)) (\<lambda>_.
       bind (iupdate ip) (\<lambda>_.
       bind (upd_inode ip (\<lambda>i. i\<lparr>i_valid := False\<rparr>)) (\<lambda>_.
       bind (releasesleep (LInode ip)) (\<lambda>_.
       acquire LItable))))))))) (\<lambda>_.
    bind (upd_inode ip (\<lambda>i. i\<lparr>i_ref := i_ref i - 1\<rparr>)) (\<lambda>_.
    release LItable))))"

definition iunlockput :: "nat \<Rightarrow> ('a kern_scheme, unit) kmon" where
  "iunlockput ip = bind (iunlock (Some ip)) (\<lambda>_.
    iput ip)"

section \<open>File contents\<close>

definition bmap :: "nat \<Rightarrow> uint32 \<Rightarrow> ('a kern_scheme, uint32) kmon" where
  "bmap ip bn = (if bn < of_nat NDIRECT
     then bind (geti ip id) (\<lambda>i.
       if i_addrs i ! unat bn \<noteq> 0 then ret (i_addrs i ! unat bn) else
       bind (balloc (i_dev i)) (\<lambda>addr.
       if addr = 0 then ret 0 else
       bind (upd_inode ip (\<lambda>i. i\<lparr>i_addrs := (i_addrs i)[unat bn := addr]\<rparr>)) (\<lambda>_.
       ret addr)))
     else let bn = bn - of_nat NDIRECT in
     if \<not> bn < of_nat NINDIRECT then panic ''bmap: out of range'' else
     bind (geti ip id) (\<lambda>i.
       bind ((if i_addrs i ! NDIRECT \<noteq> 0 then ret (i_addrs i ! NDIRECT)
         else bind (balloc (i_dev i)) (\<lambda>addr.
           if addr = 0 then ret 0 else
           bind (upd_inode ip (\<lambda>i. i\<lparr>i_addrs := (i_addrs i)[NDIRECT := addr]\<rparr>)) (\<lambda>_.
           ret addr)))) (\<lambda>ind.
       if ind = 0 then ret 0 else
       bind (geti ip i_dev) (\<lambda>dev.
       bind (bread dev ind) (\<lambda>bp.
       bind (getbuf bp b_data) (\<lambda>d.
       bind ((if get32 d (4 * unat bn) \<noteq> 0 then ret (get32 d (4 * unat bn))
         else bind (geti ip i_dev) (\<lambda>dev.
           bind (balloc dev) (\<lambda>addr.
           bind (whenM (addr \<noteq> 0) (bind (upd_buf bp (\<lambda>k. k\<lparr>b_data := put32 (b_data k) (4 * unat bn) addr\<rparr>)) (\<lambda>_.
             log_write bp))) (\<lambda>_.
           ret addr))))) (\<lambda>addr.
       bind (brelse bp) (\<lambda>_.
       ret addr))))))))"

definition stati :: "nat \<Rightarrow> ('a kern_scheme, stat) kmon" where
  "stati ip = geti ip (\<lambda>i. \<lparr>st_dev = i_dev i, st_ino = i_inum i, st_type = i_type i,
     st_nlink = i_nlink i, st_size = ucast (i_size i)\<rparr>)"

datatype rdst = DUser uint64 | DKern uint64 | DLocal

definition copy_to :: "rdst \<Rightarrow> uint8 list \<Rightarrow> ('a kern_scheme, int) kmon" where
  "copy_to dst bs = (case dst of DUser a \<Rightarrow> either_copyout True a bs
     | DKern a \<Rightarrow> either_copyout False a bs
     | DLocal \<Rightarrow> bind myproc (\<lambda>_.
       ret 0))"

fun adv_dst :: "rdst \<Rightarrow> uint32 \<Rightarrow> rdst" where
  "adv_dst (DUser a) m = DUser (a + ucast m)"
| "adv_dst (DKern a) m = DKern (a + ucast m)"
| "adv_dst DLocal m = DLocal"

text \<open>
  A round of \<open>readi\<close>. The result is the byte count and, for a local variable, the bytes stored.
\<close>

definition readi_round :: "nat \<Rightarrow> uint32 \<Rightarrow> uint32 \<times> uint32 \<times> rdst \<times> uint8 list \<Rightarrow>
    ('a kern_scheme, (uint32 \<times> uint32 \<times> rdst \<times> uint8 list) + (int \<times> uint8 list)) kmon" where
  "readi_round ip n = (\<lambda>(tot, off, dst, acc).
     if \<not> tot < n then ret (Inr (sint tot, acc)) else
     bind (bmap ip (off div of_nat BSIZE)) (\<lambda>addr.
       if addr = 0 then ret (Inr (sint tot, acc)) else
       bind (geti ip i_dev) (\<lambda>dev.
       bind (bread dev addr) (\<lambda>bp.
       let m = min (n - tot) (of_nat BSIZE - off mod of_nat BSIZE) in
       bind (getbuf bp b_data) (\<lambda>d.
       let bs = getb d (unat (off mod of_nat BSIZE)) (unat m) in
       bind (copy_to dst bs) (\<lambda>r.
       if r = - 1 then bind (brelse bp) (\<lambda>_.
         ret (Inr (- 1, acc))) else
       bind (brelse bp) (\<lambda>_.
       ret (Inl (tot + m, off + m, adv_dst dst m, acc @ bs)))))))))"

definition readi :: "nat \<Rightarrow> rdst \<Rightarrow> uint32 \<Rightarrow> uint32 \<Rightarrow> ('a kern_scheme, int \<times> uint8 list) kmon" where
  "readi ip dst off n = bind (geti ip i_size) (\<lambda>size.
    if off > size \<or> off + n < off then ret (0, []) else
    let n = (if off + n > size then size - off else n) in
    loop (Suc (unat n)) (readi_round ip n) (0, off, dst, []))"

datatype wsrc = SUser uint64 | SKern uint64 | SLocal "uint8 list"

definition copy_from :: "wsrc \<Rightarrow> nat \<Rightarrow> ('a kern_scheme, int \<times> uint8 list) kmon" where
  "copy_from src m = (case src of SUser a \<Rightarrow> either_copyin True a m
     | SKern a \<Rightarrow> either_copyin False a m
     | SLocal bs \<Rightarrow> bind myproc (\<lambda>_.
       ret (0, take m bs)))"

fun adv_src :: "wsrc \<Rightarrow> uint32 \<Rightarrow> wsrc" where
  "adv_src (SUser a) m = SUser (a + ucast m)"
| "adv_src (SKern a) m = SKern (a + ucast m)"
| "adv_src (SLocal bs) m = SLocal (drop (unat m) bs)"

text \<open>
  A round of \<open>writei\<close>; it leaves with the byte count and the offset. When the source cannot be
  read to the end, the bytes that were copied stay in the buffer.
\<close>

definition writei_round :: "nat \<Rightarrow> uint32 \<Rightarrow> uint32 \<times> uint32 \<times> wsrc \<Rightarrow>
    ('a kern_scheme, (uint32 \<times> uint32 \<times> wsrc) + (uint32 \<times> uint32)) kmon" where
  "writei_round ip n = (\<lambda>(tot, off, src).
     if \<not> tot < n then ret (Inr (tot, off)) else
     bind (bmap ip (off div of_nat BSIZE)) (\<lambda>addr.
       if addr = 0 then ret (Inr (tot, off)) else
       bind (geti ip i_dev) (\<lambda>dev.
       bind (bread dev addr) (\<lambda>bp.
       let m = min (n - tot) (of_nat BSIZE - off mod of_nat BSIZE) in
       bind (copy_from src (unat m)) (\<lambda>r.
       bind (upd_buf bp (\<lambda>k. k\<lparr>b_data := putb (b_data k) (unat (off mod of_nat BSIZE)) (snd r)\<rparr>)) (\<lambda>_.
       if fst r = - 1 then bind (brelse bp) (\<lambda>_.
         ret (Inr (tot, off))) else
       bind (log_write bp) (\<lambda>_.
       bind (brelse bp) (\<lambda>_.
       ret (Inl (tot + m, off + m, adv_src src m))))))))))"

definition writei :: "nat \<Rightarrow> wsrc \<Rightarrow> uint32 \<Rightarrow> uint32 \<Rightarrow> ('a kern_scheme, int) kmon" where
  "writei ip src off n = bind (geti ip i_size) (\<lambda>size.
    if off > size \<or> off + n < off then ret (- 1) else
    if off + n > of_nat (MAXFILE * BSIZE) then ret (- 1) else
    bind (loop (Suc (unat n)) (writei_round ip n) (0, off, src)) (\<lambda>r.
    bind (geti ip i_size) (\<lambda>size.
    bind (whenM (snd r > size) (upd_inode ip (\<lambda>i. i\<lparr>i_size := snd r\<rparr>))) (\<lambda>_.
    bind (iupdate ip) (\<lambda>_.
    ret (sint (fst r)))))))"

section \<open>Directories\<close>

definition namecmp :: "uint8 list \<Rightarrow> uint8 list \<Rightarrow> int" where
  "namecmp s t = strncmp (cstr s) (cstr t) DIRSIZ"

text \<open>
  The loops over directory entries stop at the size of the directory; \<open>size div 16 + 2\<close> rounds
  are enough for every size below \<open>2 ^ 32 - 16\<close>, and the largest file has 274432 bytes.
\<close>

definition dir_fuel :: "uint32 \<Rightarrow> nat" where
  "dir_fuel sz = unat sz div 16 + 2"

definition dirlookup :: "nat \<Rightarrow> uint8 list \<Rightarrow> ('a kern_scheme, (nat \<times> uint32) option) kmon" where
  "dirlookup dp name = bind (geti dp i_type) (\<lambda>t.
    if t \<noteq> T_DIR then panic ''dirlookup not DIR'' else
    bind (geti dp i_size) (\<lambda>size.
    loop (dir_fuel size) (\<lambda>off.
       bind (geti dp i_size) (\<lambda>size.
         if \<not> off < size then ret (Inr None) else
         bind (readi dp DLocal off 16) (\<lambda>r.
         if fst r \<noteq> 16 then panic ''dirlookup read'' else
         let de = dirent_of (snd r) in
         if de_inum de = 0 then ret (Inl (off + 16)) else
         if namecmp name (de_name de) = 0 then
           bind (geti dp i_dev) (\<lambda>dev.
             bind (iget dev (ucast (de_inum de))) (\<lambda>ip.
             ret (Inr (Some (ip, off)))))
         else ret (Inl (off + 16))))) 0))"

definition dirlink :: "nat \<Rightarrow> uint8 list \<Rightarrow> uint32 \<Rightarrow> ('a kern_scheme, int) kmon" where
  "dirlink dp name inum = bind (dirlookup dp name) (\<lambda>x.
    case x of Some (ip, _) \<Rightarrow> bind (iput ip) (\<lambda>_.
       ret (- 1))
     | None \<Rightarrow> bind (geti dp i_size) (\<lambda>size.
       bind (loop (dir_fuel size) (\<lambda>off.
           bind (geti dp i_size) (\<lambda>size.
             if \<not> off < size then ret (Inr off) else
             bind (readi dp DLocal off 16) (\<lambda>r.
             if fst r \<noteq> 16 then panic ''dirlink read'' else
             ret (if de_inum (dirent_of (snd r)) = 0 then Inr off else Inl (off + 16))))) 0) (\<lambda>off.
       let de = \<lparr>de_inum = ucast inum, de_name = strncpy (replicate DIRSIZ 0) (cstr name) (int DIRSIZ)\<rparr> in
       bind (writei dp (SLocal (dirent_bytes de)) off 16) (\<lambda>r.
       ret (if r \<noteq> 16 then - 1 else 0)))))"

section \<open>Path names\<close>

text \<open>
  A path is the bytes of the string before the terminating zero. \<open>skipelem\<close> returns the rest of
  the path, \<open>None\<close> for 0, and the new contents of the caller's \<open>DIRSIZ\<close> bytes for the name.
\<close>

definition skipelem :: "uint8 list \<Rightarrow> uint8 list \<Rightarrow> uint8 list option \<times> uint8 list" where
  "skipelem path name = (let path = dropWhile (\<lambda>c. c = 47) path in
     if path = [] then (None, name) else
     let s = takeWhile (\<lambda>c. c \<noteq> 47) path; rest = dropWhile (\<lambda>c. c \<noteq> 47) path; len = length s in
     let name = (if len \<ge> DIRSIZ then putb name 0 (take DIRSIZ s) else putb name 0 (s @ [0])) in
     (Some (dropWhile (\<lambda>c. c = 47) rest), name))"

definition namex :: "uint8 list \<Rightarrow> bool \<Rightarrow> uint8 list \<Rightarrow> ('a kern_scheme, nat option \<times> uint8 list) kmon" where
  "namex path nameiparent name = bind ((if take 1 path = [47] then iget ROOTDEV ROOTINO
       else bind curproc (\<lambda>p.
         bind (getp p p_cwd) (\<lambda>c.
         bind (deref c) (\<lambda>ip.
         idup ip))))) (\<lambda>ip0.
    loop (Suc (length path)) (\<lambda>(path, ip, name).
       case skipelem path name of
         (None, name) \<Rightarrow> if nameiparent then bind (iput ip) (\<lambda>_.
           ret (Inr (None, name))) else ret (Inr (Some ip, name))
       | (Some path, name) \<Rightarrow>
         bind (ilock (Some ip)) (\<lambda>_.
           bind (geti ip i_type) (\<lambda>t.
           if t \<noteq> T_DIR then bind (iunlockput ip) (\<lambda>_.
             ret (Inr (None, name))) else
           if nameiparent \<and> path = [] then bind (iunlock (Some ip)) (\<lambda>_.
             ret (Inr (Some ip, name))) else
           bind (dirlookup ip name) (\<lambda>x.
           case x of None \<Rightarrow> bind (iunlockput ip) (\<lambda>_.
             ret (Inr (None, name)))
           | Some (next, _) \<Rightarrow> bind (iunlockput ip) (\<lambda>_.
             ret (Inl (path, next, name))))))) (path, ip0, name))"

text \<open>The callers' arrays for the name are not initialised; here they start as zeros.\<close>

definition namei :: "uint8 list \<Rightarrow> ('a kern_scheme, nat option) kmon" where
  "namei path = bind (namex path False (replicate DIRSIZ 0)) (\<lambda>r.
    ret (fst r))"

definition nameiparent :: "uint8 list \<Rightarrow> ('a kern_scheme, nat option \<times> uint8 list) kmon" where
  "nameiparent path = namex path True (replicate DIRSIZ 0)"

end
