(* ===== verification/Pipe.thy ===== *)
theory Pipe
  imports Kstate
begin

text \<open>
  Pipes, \<^verbatim>\<open>kernel/pipe.c\<close> except \<open>pipealloc\<close>, which is in the theory \<open>File\<close>. The read and write
  counters are 32 bits wide and wrap; the byte number \<open>n\<close> of the stream is at index
  \<open>n mod PIPESIZE\<close> of the buffer.
\<close>

section \<open>Operations\<close>

definition pipeclose :: "uint64 \<Rightarrow> bool \<Rightarrow> ('a kern_scheme, unit) kmon" where
  "pipeclose pi writable = bind (acquire (LPipe pi)) (\<lambda>_.
    bind ((if writable then bind (upd_pipe pi (\<lambda>p. p\<lparr>pi_writeopen := False\<rparr>)) (\<lambda>_.
       wakeup (ChPipeR pi))
      else bind (upd_pipe pi (\<lambda>p. p\<lparr>pi_readopen := False\<rparr>)) (\<lambda>_.
        wakeup (ChPipeW pi)))) (\<lambda>_.
    bind (getpi pi (\<lambda>p. \<not> pi_readopen p \<and> \<not> pi_writeopen p)) (\<lambda>dead.
    if dead then bind (release (LPipe pi)) (\<lambda>_.
       kfree pi) else release (LPipe pi))))"

text \<open>
  A round of the loop of \<open>pipewrite\<close>; it leaves with the number of bytes written, or with \<open>None\<close>
  when there is no reader or the writer was killed.
\<close>

definition pipewrite_round :: "uint64 \<Rightarrow> uint64 \<Rightarrow> int \<Rightarrow> nat \<Rightarrow> int \<Rightarrow>
    ('a kern_scheme, int + int option) kmon" where
  "pipewrite_round pi addr n pr i = (if \<not> i < n then ret (Inr (Some i)) else
     bind (getpi pi pi_readopen) (\<lambda>ropen.
       if \<not> ropen then ret (Inr None) else
       bind (killed pr) (\<lambda>k.
       if k \<noteq> 0 then ret (Inr None) else
       bind (getpi pi (\<lambda>p. pi_nwrite p = pi_nread p + PIPESIZE)) (\<lambda>full.
       if full then bind (wakeup (ChPipeR pi)) (\<lambda>_.
         bind (sleep (ChPipeW pi) (LPipe pi)) (\<lambda>_.
         ret (Inl i))) else
       bind (getp pr p_pagetable) (\<lambda>pt.
       bind (copyin pt (addr + word_of_int i) 1) (\<lambda>x.
       if fst x = - 1 then ret (Inr (Some i)) else
       bind (upd_pipe pi (\<lambda>p. p\<lparr>pi_data := (pi_data p)[unat (pi_nwrite p mod PIPESIZE) := hd (snd x)],
         pi_nwrite := pi_nwrite p + 1\<rparr>)) (\<lambda>_.
       ret (Inl (i + 1)))))))))"

definition pipewrite :: "uint64 \<Rightarrow> uint64 \<Rightarrow> int \<Rightarrow> ('a kern_scheme, int) kmon" where
  "pipewrite pi addr n = bind curproc (\<lambda>pr.
    bind (acquire (LPipe pi)) (\<lambda>_.
    bind (wait_loop (nat n) (pipewrite_round pi addr n pr) 0) (\<lambda>r.
    case r of None \<Rightarrow> bind (release (LPipe pi)) (\<lambda>_.
       ret (- 1))
     | Some i \<Rightarrow> bind (wakeup (ChPipeR pi)) (\<lambda>_.
       bind (release (LPipe pi)) (\<lambda>_.
       ret i)))))"

definition piperead :: "uint64 \<Rightarrow> uint64 \<Rightarrow> int \<Rightarrow> ('a kern_scheme, int) kmon" where
  "piperead pi addr n = bind curproc (\<lambda>pr.
    bind (acquire (LPipe pi)) (\<lambda>_.
    bind (wait_loop 0 (\<lambda>_. bind (getpi pi (\<lambda>p. pi_nread p = pi_nwrite p \<and> pi_writeopen p)) (\<lambda>w.
       if \<not> w then ret (Inr True) else
       bind (killed pr) (\<lambda>k.
       if k \<noteq> 0 then ret (Inr False) else
       bind (sleep (ChPipeR pi) (LPipe pi)) (\<lambda>_.
       ret (Inl ()))))) ()) (\<lambda>ok.
    if \<not> ok then bind (release (LPipe pi)) (\<lambda>_.
       ret (- 1)) else
    bind (for_find [0..<nat n] (\<lambda>i.
       bind (getpi pi (\<lambda>p. pi_nread p = pi_nwrite p)) (\<lambda>empty.
         if empty then ret (Some (int i)) else
         bind (getpi pi (\<lambda>p. pi_data p ! unat (pi_nread p mod PIPESIZE))) (\<lambda>ch.
         bind (upd_pipe pi (\<lambda>p. p\<lparr>pi_nread := pi_nread p + 1\<rparr>)) (\<lambda>_.
         bind (getp pr p_pagetable) (\<lambda>pt.
         bind (copyout pt (addr + of_nat i) [ch]) (\<lambda>x.
         ret (if x = - 1 then Some (int i) else None)))))))) (\<lambda>r.
    bind (wakeup (ChPipeW pi)) (\<lambda>_.
    bind (release (LPipe pi)) (\<lambda>_.
    ret (case r of Some i \<Rightarrow> i | None \<Rightarrow> max 0 n)))))))"

end
