(* ===== verification/File.thy ===== *)
theory File
  imports Fs Pipe
begin

text \<open>
  Open files, \<^verbatim>\<open>kernel/file.c\<close>, and \<open>pipealloc\<close> of \<^verbatim>\<open>kernel/pipe.c\<close>. A pointer to a file is an index
  of the file table. \<open>fd\<close> arguments and results stay in the theory \<open>Sysfile\<close>.
\<close>

section \<open>The file table\<close>

definition fileinit :: "('a kern_scheme, unit) kmon" where
  "fileinit = initlock LFtable ''ftable''"

definition filealloc :: "('a kern_scheme, nat option) kmon" where
  "filealloc = bind (acquire LFtable) (\<lambda>_.
    bind (for_find [0..<NFILE] (\<lambda>f.
       bind (getf f f_ref) (\<lambda>n.
         if n = 0 then bind (upd_file f (\<lambda>r. r\<lparr>f_ref := 1\<rparr>)) (\<lambda>_.
           bind (release LFtable) (\<lambda>_.
           ret (Some f)))
         else ret None))) (\<lambda>r.
    case r of Some f \<Rightarrow> ret (Some f) | None \<Rightarrow> bind (release LFtable) (\<lambda>_.
       ret None)))"

definition filedup :: "nat \<Rightarrow> ('a kern_scheme, nat) kmon" where
  "filedup f = bind (acquire LFtable) (\<lambda>_.
    bind (getf f f_ref) (\<lambda>n.
    if n < 1 then panic ''filedup'' else
    bind (upd_file f (\<lambda>r. r\<lparr>f_ref := f_ref r + 1\<rparr>)) (\<lambda>_.
    bind (release LFtable) (\<lambda>_.
    ret f))))"

definition fileclose :: "nat \<Rightarrow> ('a kern_scheme, unit) kmon" where
  "fileclose f = bind (acquire LFtable) (\<lambda>_.
    bind (getf f f_ref) (\<lambda>n.
    if n < 1 then panic ''fileclose'' else
    bind (upd_file f (\<lambda>r. r\<lparr>f_ref := f_ref r - 1\<rparr>)) (\<lambda>_.
    bind (getf f f_ref) (\<lambda>n.
    if n > 0 then release LFtable else
    bind (getf f id) (\<lambda>ff.
    bind (upd_file f (\<lambda>r. r\<lparr>f_ref := 0\<rparr>)) (\<lambda>_.
    bind (upd_file f (\<lambda>r. r\<lparr>f_type := FD_NONE\<rparr>)) (\<lambda>_.
    bind (release LFtable) (\<lambda>_.
    if f_type ff = FD_PIPE then pipeclose (f_pipe ff) (f_writable ff)
     else if f_type ff = FD_INODE \<or> f_type ff = FD_DEVICE
     then bind begin_op (\<lambda>_.
       bind (deref (f_ip ff)) (\<lambda>ip.
       bind (iput ip) (\<lambda>_.
       end_op)))
     else ret ()))))))))"

section \<open>Reading and writing\<close>

text \<open>
  \<^verbatim>\<open>struct stat\<close> has four bytes of padding before \<^verbatim>\<open>size\<close>, which the code does not initialise;
  they are \<open>stack_pad\<close>.
\<close>

definition stat_bytes :: "uint32 \<Rightarrow> stat \<Rightarrow> uint8 list" where
  "stat_bytes pad st = le_bytes 4 (st_dev st) @ le_bytes 4 (st_ino st) @ le_bytes 2 (st_type st) @
     le_bytes 2 (st_nlink st) @ le_bytes 4 pad @ le_bytes 8 (st_size st)"

definition filestat :: "nat \<Rightarrow> uint64 \<Rightarrow> ('a kern_scheme, int) kmon" where
  "filestat f addr = bind curproc (\<lambda>p.
    bind (getf f id) (\<lambda>r.
    if f_type r = FD_INODE \<or> f_type r = FD_DEVICE then
       bind (ilock (f_ip r)) (\<lambda>_.
         bind (deref (f_ip r)) (\<lambda>ip.
         bind (stati ip) (\<lambda>st.
         bind (iunlock (f_ip r)) (\<lambda>_.
         bind (getp p p_pagetable) (\<lambda>pt.
         bind (gets stack_pad) (\<lambda>pad.
         bind (copyout pt addr (stat_bytes pad st)) (\<lambda>x.
         ret (if x < 0 then - 1 else 0))))))))
     else ret (- 1)))"

definition fileread :: "nat \<Rightarrow> uint64 \<Rightarrow> int \<Rightarrow> ('a kern_scheme, int) kmon" where
  "fileread f addr n = bind (getf f id) (\<lambda>r.
    if \<not> f_readable r then ret (- 1) else
     case f_type r of
       FD_PIPE \<Rightarrow> piperead (f_pipe r) addr n
     | FD_DEVICE \<Rightarrow> if sint (f_major r) < 0 \<or> sint (f_major r) \<ge> int NDEV then ret (- 1) else
         bind (gets (\<lambda>s. devsw s (unat (f_major r)))) (\<lambda>d.
           case d of None \<Rightarrow> ret (- 1) | Some DevConsole \<Rightarrow> consoleread True addr n)
     | FD_INODE \<Rightarrow> bind (ilock (f_ip r)) (\<lambda>_.
       bind (deref (f_ip r)) (\<lambda>ip.
       bind (getf f f_off) (\<lambda>off.
       bind (readi ip (DUser addr) off (word_of_int n)) (\<lambda>x.
       bind (whenM (fst x > 0) (upd_file f (\<lambda>r. r\<lparr>f_off := f_off r + word_of_int (fst x)\<rparr>))) (\<lambda>_.
       bind (iunlock (f_ip r)) (\<lambda>_.
       ret (fst x)))))))
     | FD_NONE \<Rightarrow> panic ''fileread'')"

text \<open>
  The loop of \<open>filewrite\<close> writes at most \<^verbatim>\<open>max\<close> bytes, three blocks, in a transaction. A round
  that goes on has written at least one byte, so \<open>n\<close> bounds the rounds.
\<close>

abbreviation (input) write_max :: int where
  "write_max \<equiv> ((int MAXOPBLOCKS - 1 - 1 - 2) div 2) * int BSIZE"

definition filewrite_round :: "nat \<Rightarrow> uint64 \<Rightarrow> int \<Rightarrow> int \<Rightarrow> ('a kern_scheme, int + int) kmon" where
  "filewrite_round f addr n i = (if \<not> i < n then ret (Inr i) else
     let n1 = (if n - i > write_max then write_max else n - i) in
     bind begin_op (\<lambda>_.
       bind (getf f f_ip) (\<lambda>p.
       bind (ilock p) (\<lambda>_.
       bind (deref p) (\<lambda>ip.
       bind (getf f f_off) (\<lambda>off.
       bind (writei ip (SUser (addr + word_of_int i)) off (word_of_int n1)) (\<lambda>r.
       bind (whenM (r > 0) (upd_file f (\<lambda>k. k\<lparr>f_off := f_off k + word_of_int r\<rparr>))) (\<lambda>_.
       bind (iunlock p) (\<lambda>_.
       bind end_op (\<lambda>_.
       ret (if r \<noteq> n1 then Inr i else Inl (i + r))))))))))))"

definition filewrite :: "nat \<Rightarrow> uint64 \<Rightarrow> int \<Rightarrow> ('a kern_scheme, int) kmon" where
  "filewrite f addr n = bind (getf f id) (\<lambda>r.
    if \<not> f_writable r then ret (- 1) else
     case f_type r of
       FD_PIPE \<Rightarrow> pipewrite (f_pipe r) addr n
     | FD_DEVICE \<Rightarrow> if sint (f_major r) < 0 \<or> sint (f_major r) \<ge> int NDEV then ret (- 1) else
         bind (gets (\<lambda>s. devsw s (unat (f_major r)))) (\<lambda>d.
           case d of None \<Rightarrow> ret (- 1) | Some DevConsole \<Rightarrow> consolewrite True addr n)
     | FD_INODE \<Rightarrow> bind (loop (Suc (nat n)) (filewrite_round f addr n) 0) (\<lambda>i.
       ret (if i = n then n else - 1))
     | FD_NONE \<Rightarrow> panic ''filewrite'')"

section \<open>Pipes as files\<close>

text \<open>
  \<open>kalloc\<close> has filled the new page with the byte 5, so that is what the data array holds. On the
  failing paths \<^verbatim>\<open>pi\<close> is still 0, so nothing is freed there but the files.
\<close>

definition pipealloc_bad :: "nat option \<Rightarrow> nat option \<Rightarrow> ('a kern_scheme, (nat \<times> nat) option) kmon" where
  "pipealloc_bad f0 f1 = bind ((case f0 of Some f \<Rightarrow> fileclose f | None \<Rightarrow> ret ())) (\<lambda>_.
    bind ((case f1 of Some f \<Rightarrow> fileclose f | None \<Rightarrow> ret ())) (\<lambda>_.
    ret None))"

definition pipealloc :: "('a kern_scheme, (nat \<times> nat) option) kmon" where
  "pipealloc = bind filealloc (\<lambda>f0.
    case f0 of None \<Rightarrow> pipealloc_bad None None | Some a \<Rightarrow>
     bind filealloc (\<lambda>f1.
       case f1 of None \<Rightarrow> pipealloc_bad (Some a) None | Some b \<Rightarrow>
     bind kalloc (\<lambda>pi.
       if pi = 0 then pipealloc_bad (Some a) (Some b) else
       bind (upd_pipe pi (\<lambda>_. \<lparr>pi_data = replicate 512 5, pi_nread = 0, pi_nwrite = 0,
         pi_readopen = True, pi_writeopen = True\<rparr>)) (\<lambda>_.
       bind (initlock (LPipe pi) ''pipe'') (\<lambda>_.
       bind (upd_file a (\<lambda>r. r\<lparr>f_type := FD_PIPE, f_readable := True, f_writable := False, f_pipe := pi\<rparr>)) (\<lambda>_.
       bind (upd_file b (\<lambda>r. r\<lparr>f_type := FD_PIPE, f_readable := False, f_writable := True, f_pipe := pi\<rparr>)) (\<lambda>_.
       ret (Some (a, b)))))))))"

end
