(* ===== verification/Proc.thy ===== *)
theory Proc
  imports File
begin

text \<open>
  Creating, duplicating and ending processes: the rest of \<^verbatim>\<open>kernel/proc.c\<close> except \<open>forkret\<close>, which is
  in the theory \<open>Trap\<close>. A trapframe is the 288 bytes at the physical address \<open>p_trapframe\<close>; its
  fields are read and written at the offsets that \<^verbatim>\<open>struct trapframe\<close> gives them.
\<close>

section \<open>The trapframe\<close>

datatype trapframe = TF_kernel_satp | TF_kernel_sp | TF_kernel_trap | TF_epc | TF_kernel_hartid | TF_ra | TF_sp | TF_gp | TF_tp
  | TF_t0 | TF_t1 | TF_t2 | TF_s0 | TF_s1 | TF_a0 | TF_a1 | TF_a2 | TF_a3
  | TF_a4 | TF_a5 | TF_a6 | TF_a7 | TF_s2 | TF_s3 | TF_s4 | TF_s5 | TF_s6
  | TF_s7 | TF_s8 | TF_s9 | TF_s10 | TF_s11 | TF_t3 | TF_t4 | TF_t5 | TF_t6

primrec tf_off :: "trapframe \<Rightarrow> uint64" where
  "tf_off TF_kernel_satp = 0"
| "tf_off TF_kernel_sp = 8"
| "tf_off TF_kernel_trap = 16"
| "tf_off TF_epc = 24"
| "tf_off TF_kernel_hartid = 32"
| "tf_off TF_ra = 40"
| "tf_off TF_sp = 48"
| "tf_off TF_gp = 56"
| "tf_off TF_tp = 64"
| "tf_off TF_t0 = 72"
| "tf_off TF_t1 = 80"
| "tf_off TF_t2 = 88"
| "tf_off TF_s0 = 96"
| "tf_off TF_s1 = 104"
| "tf_off TF_a0 = 112"
| "tf_off TF_a1 = 120"
| "tf_off TF_a2 = 128"
| "tf_off TF_a3 = 136"
| "tf_off TF_a4 = 144"
| "tf_off TF_a5 = 152"
| "tf_off TF_a6 = 160"
| "tf_off TF_a7 = 168"
| "tf_off TF_s2 = 176"
| "tf_off TF_s3 = 184"
| "tf_off TF_s4 = 192"
| "tf_off TF_s5 = 200"
| "tf_off TF_s6 = 208"
| "tf_off TF_s7 = 216"
| "tf_off TF_s8 = 224"
| "tf_off TF_s9 = 232"
| "tf_off TF_s10 = 240"
| "tf_off TF_s11 = 248"
| "tf_off TF_t3 = 256"
| "tf_off TF_t4 = 264"
| "tf_off TF_t5 = 272"
| "tf_off TF_t6 = 280"

definition get_tf :: "nat \<Rightarrow> trapframe \<Rightarrow> ('a ptable_scheme, uint64) kmon" where
  "get_tf p f = gets (\<lambda>s. load64 (mem s) (p_trapframe (procs s p) + tf_off f))"

definition set_tf :: "nat \<Rightarrow> trapframe \<Rightarrow> uint64 \<Rightarrow> ('a ptable_scheme, unit) kmon" where
  "set_tf p f v = modify (\<lambda>s. s\<lparr>mem := store64 (mem s) (p_trapframe (procs s p) + tf_off f) v\<rparr>)"

section \<open>Process memory\<close>

definition proc_pagetable :: "nat \<Rightarrow> ('a ptable_scheme, uint64) kmon" where
  "proc_pagetable p = bind uvmcreate (\<lambda>pagetable.
    if pagetable = 0 then ret 0 else
    bind (gets ksym_trampoline) (\<lambda>tr.
    bind (mappages pagetable TRAMPOLINE PGSIZE tr (PTE_R OR PTE_X)) (\<lambda>r.
    if r < 0 then bind (uvmfree pagetable 0) (\<lambda>_.
       ret 0) else
    bind (getp p p_trapframe) (\<lambda>tf.
    bind (mappages pagetable TRAPFRAME PGSIZE tf (PTE_R OR PTE_W)) (\<lambda>r.
    if r < 0 then bind (uvmunmap pagetable TRAMPOLINE 1 False) (\<lambda>_.
       bind (uvmfree pagetable 0) (\<lambda>_.
       ret 0)) else
    ret pagetable)))))"

definition proc_freepagetable :: "uint64 \<Rightarrow> uint64 \<Rightarrow> ('a ptable_scheme, unit) kmon" where
  "proc_freepagetable pagetable sz = bind (uvmunmap pagetable TRAMPOLINE 1 False) (\<lambda>_.
    bind (uvmunmap pagetable TRAPFRAME 1 False) (\<lambda>_.
    uvmfree pagetable sz))"

definition freeproc :: "nat \<Rightarrow> ('a ptable_scheme, unit) kmon" where
  "freeproc p = bind (getp p p_trapframe) (\<lambda>tf.
    bind (whenM (tf \<noteq> 0) (kfree tf)) (\<lambda>_.
    bind (setp p (\<lambda>r. r\<lparr>p_trapframe := 0\<rparr>)) (\<lambda>_.
    bind (getp p p_pagetable) (\<lambda>pt.
    bind (getp p p_sz) (\<lambda>sz.
    bind (whenM (pt \<noteq> 0) (proc_freepagetable pt sz)) (\<lambda>_.
    bind (setp p (\<lambda>r. r\<lparr>p_pagetable := 0\<rparr>)) (\<lambda>_.
    bind (setp p (\<lambda>r. r\<lparr>p_sz := 0\<rparr>)) (\<lambda>_.
    bind (setp p (\<lambda>r. r\<lparr>p_pid := 0\<rparr>)) (\<lambda>_.
    bind (setp p (\<lambda>r. r\<lparr>p_parent := None\<rparr>)) (\<lambda>_.
    bind (setp p (\<lambda>r. r\<lparr>p_name := (p_name r)[0 := 0]\<rparr>)) (\<lambda>_.
    bind (setp p (\<lambda>r. r\<lparr>p_chan := None\<rparr>)) (\<lambda>_.
    bind (setp p (\<lambda>r. r\<lparr>p_killed := 0\<rparr>)) (\<lambda>_.
    bind (setp p (\<lambda>r. r\<lparr>p_xstate := 0\<rparr>)) (\<lambda>_.
    setp p (\<lambda>r. r\<lparr>p_state := UNUSED\<rparr>)))))))))))))))"

definition allocproc :: "('a kern_scheme, nat option) kmon" where
  "allocproc = bind (for_find [0..<NPROC] (\<lambda>p.
       bind (acquire (LProc p)) (\<lambda>_.
         bind (getp p p_state) (\<lambda>st.
         if st = UNUSED then ret (Some p) else bind (release (LProc p)) (\<lambda>_.
           ret None))))) (\<lambda>r.
    case r of None \<Rightarrow> ret None | Some p \<Rightarrow>
     bind allocpid (\<lambda>pid.
       bind (setp p (\<lambda>r. r\<lparr>p_pid := pid\<rparr>)) (\<lambda>_.
       bind (setp p (\<lambda>r. r\<lparr>p_state := USED\<rparr>)) (\<lambda>_.
       bind kalloc (\<lambda>tf.
       bind (setp p (\<lambda>r. r\<lparr>p_trapframe := tf\<rparr>)) (\<lambda>_.
       if tf = 0 then bind (freeproc p) (\<lambda>_.
         bind (release (LProc p)) (\<lambda>_.
         ret None)) else
       bind (proc_pagetable p) (\<lambda>pt.
       bind (setp p (\<lambda>r. r\<lparr>p_pagetable := pt\<rparr>)) (\<lambda>_.
       if pt = 0 then bind (freeproc p) (\<lambda>_.
         bind (release (LProc p)) (\<lambda>_.
         ret None)) else
       bind (gets (\<lambda>s. ksyms s SymForkret)) (\<lambda>ra.
       bind (setp p (\<lambda>r. r\<lparr>p_context := kcontext0\<lparr>ctx_ra := ra, ctx_sp := p_kstack r + PGSIZE\<rparr>\<rparr>)) (\<lambda>_.
       ret (Some p)))))))))))"

definition initcode :: "uint8 list" where
  "initcode = [0x17, 0x05, 0x00, 0x00, 0x13, 0x05, 0x45, 0x02, 0x97, 0x05, 0x00, 0x00, 0x93, 0x85, 0x35, 0x02,
     0x93, 0x08, 0x70, 0x00, 0x73, 0x00, 0x00, 0x00, 0x93, 0x08, 0x20, 0x00, 0x73, 0x00, 0x00, 0x00,
     0xef, 0xf0, 0x9f, 0xff, 0x2f, 0x69, 0x6e, 0x69, 0x74, 0x00, 0x00, 0x24, 0x00, 0x00, 0x00, 0x00,
     0x00, 0x00, 0x00, 0x00]"

definition userinit :: "('a kern_scheme, unit) kmon" where
  "userinit = bind allocproc (\<lambda>r.
    bind (modify (\<lambda>s. s\<lparr>initproc := r\<rparr>)) (\<lambda>_.
    bind (deref r) (\<lambda>p.
    bind (getp p p_pagetable) (\<lambda>pt.
    bind (uvmfirst pt initcode) (\<lambda>_.
    bind (setp p (\<lambda>r. r\<lparr>p_sz := PGSIZE\<rparr>)) (\<lambda>_.
    bind (set_tf p TF_epc 0) (\<lambda>_.
    bind (set_tf p TF_sp PGSIZE) (\<lambda>_.
    bind (setp p (\<lambda>r. r\<lparr>p_name := safestrcpy (p_name r) (cstr (bytes_of ''initcode'')) 16\<rparr>)) (\<lambda>_.
    bind (namei (bytes_of ''/'')) (\<lambda>cwd.
    bind (setp p (\<lambda>r. r\<lparr>p_cwd := cwd\<rparr>)) (\<lambda>_.
    bind (setp p (\<lambda>r. r\<lparr>p_state := RUNNABLE\<rparr>)) (\<lambda>_.
    release (LProc p)))))))))))))"

definition growproc :: "int \<Rightarrow> ('a ptable_scheme, int) kmon" where
  "growproc n = bind curproc (\<lambda>p.
    bind (getp p p_sz) (\<lambda>sz.
    bind (getp p p_pagetable) (\<lambda>pt.
    if n > 0 then
       bind (uvmalloc pt sz (sz + word_of_int n) PTE_W) (\<lambda>nsz.
         if nsz = 0 then ret (- 1) else
         bind (setp p (\<lambda>r. r\<lparr>p_sz := nsz\<rparr>)) (\<lambda>_.
         ret 0))
     else if n < 0 then
       bind (uvmdealloc pt sz (sz + word_of_int n)) (\<lambda>nsz.
         bind (setp p (\<lambda>r. r\<lparr>p_sz := nsz\<rparr>)) (\<lambda>_.
         ret 0))
     else bind (setp p (\<lambda>r. r\<lparr>p_sz := sz\<rparr>)) (\<lambda>_.
       ret 0))))"

section \<open>fork, exit and wait\<close>

definition fork_files :: "nat \<Rightarrow> nat \<Rightarrow> ('a kern_scheme, unit) kmon" where
  "fork_files p np = for_each [0..<NOFILE] (\<lambda>i.
     bind (getp p (\<lambda>r. p_ofile r i)) (\<lambda>f.
       case f of None \<Rightarrow> ret ()
       | Some x \<Rightarrow> bind (filedup x) (\<lambda>y.
         setp np (\<lambda>r. r\<lparr>p_ofile := (p_ofile r)(i := Some y)\<rparr>))))"

definition fork :: "('a kern_scheme, int) kmon" where
  "fork = bind curproc (\<lambda>p.
    bind allocproc (\<lambda>x.
    case x of None \<Rightarrow> ret (- 1) | Some np \<Rightarrow>
     bind (getp p p_pagetable) (\<lambda>pt.
       bind (getp np p_pagetable) (\<lambda>npt.
       bind (getp p p_sz) (\<lambda>sz.
       bind (uvmcopy pt npt sz) (\<lambda>r.
       if r < 0 then bind (freeproc np) (\<lambda>_.
         bind (release (LProc np)) (\<lambda>_.
         ret (- 1))) else
       bind (setp np (\<lambda>r. r\<lparr>p_sz := sz\<rparr>)) (\<lambda>_.
       bind (modify (\<lambda>s. s\<lparr>mem := store_bytes (mem s) (p_trapframe (procs s np))
         (load_bytes (mem s) (p_trapframe (procs s p)) 288)\<rparr>)) (\<lambda>_.
       bind (set_tf np TF_a0 0) (\<lambda>_.
       bind (fork_files p np) (\<lambda>_.
       bind (getp p p_cwd) (\<lambda>cwd.
       bind (deref cwd) (\<lambda>ip.
       bind (idup ip) (\<lambda>ip.
       bind (setp np (\<lambda>r. r\<lparr>p_cwd := Some ip\<rparr>)) (\<lambda>_.
       bind (getp p p_name) (\<lambda>nm.
       bind (setp np (\<lambda>r. r\<lparr>p_name := safestrcpy (p_name r) (cstr nm) 16\<rparr>)) (\<lambda>_.
       bind (getp np p_pid) (\<lambda>pid.
       bind (release (LProc np)) (\<lambda>_.
       bind (acquire LWait) (\<lambda>_.
       bind (setp np (\<lambda>r. r\<lparr>p_parent := Some p\<rparr>)) (\<lambda>_.
       bind (release LWait) (\<lambda>_.
       bind (acquire (LProc np)) (\<lambda>_.
       bind (setp np (\<lambda>r. r\<lparr>p_state := RUNNABLE\<rparr>)) (\<lambda>_.
       bind (release (LProc np)) (\<lambda>_.
       ret pid))))))))))))))))))))))))"

definition proc_chan :: "nat option \<Rightarrow> chan" where
  "proc_chan p = (case p of None \<Rightarrow> ChNull | Some q \<Rightarrow> ChProc q)"

definition reparent :: "nat \<Rightarrow> ('a ptable_scheme, unit) kmon" where
  "reparent p = for_each [0..<NPROC] (\<lambda>pp.
     bind (getp pp p_parent) (\<lambda>q.
       whenM (q = Some p) (bind (gets initproc) (\<lambda>i.
         bind (setp pp (\<lambda>r. r\<lparr>p_parent := i\<rparr>)) (\<lambda>_.
         wakeup (proc_chan i))))))"

definition close_files :: "nat \<Rightarrow> ('a kern_scheme, unit) kmon" where
  "close_files p = for_each [0..<NOFILE] (\<lambda>fd.
     bind (getp p (\<lambda>r. p_ofile r fd)) (\<lambda>f.
       case f of None \<Rightarrow> ret ()
       | Some x \<Rightarrow> bind (fileclose x) (\<lambda>_.
         setp p (\<lambda>r. r\<lparr>p_ofile := (p_ofile r)(fd := None)\<rparr>))))"

text \<open>\<open>exit\<close> does not return; its result type is the caller's.\<close>

definition exit :: "int \<Rightarrow> ('a kern_scheme, 'b) kmon" where
  "exit status = bind curproc (\<lambda>p.
    bind (gets initproc) (\<lambda>i.
    if Some p = i then panic ''init exiting'' else
    bind (close_files p) (\<lambda>_.
    bind begin_op (\<lambda>_.
    bind (getp p p_cwd) (\<lambda>cwd.
    bind (deref cwd) (\<lambda>ip.
    bind (iput ip) (\<lambda>_.
    bind end_op (\<lambda>_.
    bind (setp p (\<lambda>r. r\<lparr>p_cwd := None\<rparr>)) (\<lambda>_.
    bind (acquire LWait) (\<lambda>_.
    bind (reparent p) (\<lambda>_.
    bind (getp p p_parent) (\<lambda>par.
    bind (wakeup (proc_chan par)) (\<lambda>_.
    bind (acquire (LProc p)) (\<lambda>_.
    bind (setp p (\<lambda>r. r\<lparr>p_xstate := status\<rparr>)) (\<lambda>_.
    bind (setp p (\<lambda>r. r\<lparr>p_state := ZOMBIE\<rparr>)) (\<lambda>_.
    bind (release LWait) (\<lambda>_.
    bind sched (\<lambda>_.
    panic ''zombie exit''))))))))))))))))))"

text \<open>
  The scan of \<open>wait\<close> over the table: the result of the whole call (\<open>Inl\<close>), with the locks
  released, or whether there are children (\<open>Inr\<close>).
\<close>

primrec wait_scan :: "nat list \<Rightarrow> nat \<Rightarrow> uint64 \<Rightarrow> bool \<Rightarrow> ('a ptable_scheme, int + bool) kmon" where
  "wait_scan [] p addr havekids = ret (Inr havekids)"
| "wait_scan (pp # pps) p addr havekids = bind (getp pp p_parent) (\<lambda>q.
  if q \<noteq> Some p then wait_scan pps p addr havekids else
     bind (acquire (LProc pp)) (\<lambda>_.
       bind (getp pp p_state) (\<lambda>st.
       if st \<noteq> ZOMBIE then bind (release (LProc pp)) (\<lambda>_.
         wait_scan pps p addr True) else
       bind (getp pp p_pid) (\<lambda>pid.
       bind (getp p p_pagetable) (\<lambda>pt.
       bind (getp pp p_xstate) (\<lambda>x.
       bind ((if addr \<noteq> 0 then copyout pt addr (le_bytes 4 (word_of_int x :: uint32)) else ret 0)) (\<lambda>r.
       if r < 0 then bind (release (LProc pp)) (\<lambda>_.
         bind (release LWait) (\<lambda>_.
         ret (Inl (- 1)))) else
       bind (freeproc pp) (\<lambda>_.
       bind (release (LProc pp)) (\<lambda>_.
       bind (release LWait) (\<lambda>_.
       ret (Inl pid)))))))))))"

definition wait :: "uint64 \<Rightarrow> ('a ptable_scheme, int) kmon" where
  "wait addr = bind curproc (\<lambda>p.
    bind (acquire LWait) (\<lambda>_.
    wait_loop 0 (\<lambda>_. bind (wait_scan [0..<NPROC] p addr False) (\<lambda>r.
       case r of Inl x \<Rightarrow> ret (Inr x)
       | Inr havekids \<Rightarrow>
         bind ((if havekids then killed p else ret 1)) (\<lambda>k.
           if k \<noteq> 0 then bind (release LWait) (\<lambda>_.
             ret (Inr (- 1))) else
           bind (sleep (ChProc p) LWait) (\<lambda>_.
           ret (Inl ()))))) ()))"

end
