(* ===== verification/Exec.thy ===== *)
theory Exec
  imports Proc
begin

text \<open>
  Loading a program, \<^verbatim>\<open>kernel/exec.c\<close> with the structures of \<^verbatim>\<open>kernel/elf.h\<close>. The argument vector is
  the list of the addresses of the strings, each in a page of its own. \<open>exec_bad\<close> is the code
  at the label \<^verbatim>\<open>bad\<close> for the values that the variables have at the jump.
\<close>

section \<open>ELF headers\<close>

abbreviation (input) ELF_MAGIC :: uint32 where "ELF_MAGIC \<equiv> 0x464C457F"
abbreviation (input) ELF_PROG_LOAD :: uint32 where "ELF_PROG_LOAD \<equiv> 1"

record elfhdr =
  elf_magic :: uint32
  elf_elf :: "uint8 list"
  elf_type :: uint16
  elf_machine :: uint16
  elf_version :: uint32
  elf_entry :: uint64
  elf_phoff :: uint64
  elf_shoff :: uint64
  elf_flags :: uint32
  elf_ehsize :: uint16
  elf_phentsize :: uint16
  elf_phnum :: uint16
  elf_shentsize :: uint16
  elf_shnum :: uint16
  elf_shstrndx :: uint16

record proghdr =
  ph_type :: uint32
  ph_flags :: uint32
  ph_off :: uint64
  ph_vaddr :: uint64
  ph_paddr :: uint64
  ph_filesz :: uint64
  ph_memsz :: uint64
  ph_align :: uint64

definition get64 :: "uint8 list \<Rightarrow> nat \<Rightarrow> uint64" where
  "get64 d off = of_le (getb d off 8)"

definition elfhdr_of :: "uint8 list \<Rightarrow> elfhdr" where
  "elfhdr_of d = \<lparr>elf_magic = get32 d 0, elf_elf = getb d 4 12, elf_type = get16 d 16,
     elf_machine = get16 d 18, elf_version = get32 d 20, elf_entry = get64 d 24, elf_phoff = get64 d 32,
     elf_shoff = get64 d 40, elf_flags = get32 d 48, elf_ehsize = get16 d 52, elf_phentsize = get16 d 54,
     elf_phnum = get16 d 56, elf_shentsize = get16 d 58, elf_shnum = get16 d 60, elf_shstrndx = get16 d 62\<rparr>"

definition proghdr_of :: "uint8 list \<Rightarrow> proghdr" where
  "proghdr_of d = \<lparr>ph_type = get32 d 0, ph_flags = get32 d 4, ph_off = get64 d 8, ph_vaddr = get64 d 16,
     ph_paddr = get64 d 24, ph_filesz = get64 d 32, ph_memsz = get64 d 40, ph_align = get64 d 48\<rparr>"

section \<open>Loading\<close>

definition flags2perm :: "uint32 \<Rightarrow> uint64" where
  "flags2perm flags = (if flags AND 1 \<noteq> 0 then PTE_X else 0) OR (if flags AND 2 \<noteq> 0 then PTE_W else 0)"

definition loadseg :: "uint64 \<Rightarrow> uint64 \<Rightarrow> nat \<Rightarrow> uint32 \<Rightarrow> uint32 \<Rightarrow> ('a kern_scheme, int) kmon" where
  "loadseg pagetable va ip offset sz = loop (unat sz div 4096 + 2) (\<lambda>i.
     if \<not> i < sz then ret (Inr 0) else
     bind (walkaddr pagetable (va + ucast i)) (\<lambda>pa.
       if pa = 0 then panic ''loadseg: address should exist'' else
       let n = (if sz - i < 4096 then sz - i else 4096) in
       bind (readi ip (DKern pa) (offset + i) n) (\<lambda>r.
       ret (if word_of_int (fst r) \<noteq> n then Inr (- 1) else Inl (i + 4096))))) 0"

text \<open>
  The loop over the program headers, from number \<open>i\<close> on: the size reached so far, as \<open>Inl\<close> when
  the code jumps to \<^verbatim>\<open>bad\<close>.
\<close>

primrec exec_load :: "nat \<Rightarrow> uint64 \<Rightarrow> nat \<Rightarrow> uint32 \<Rightarrow> uint64 \<Rightarrow> ('a kern_scheme, uint64 + uint64) kmon" where
  "exec_load 0 pagetable ip off sz = ret (Inr sz)"
| "exec_load (Suc n) pagetable ip off sz = bind (readi ip DLocal off 56) (\<lambda>r.
  if fst r \<noteq> 56 then ret (Inl sz) else
  let ph = proghdr_of (snd r) in
  if ph_type ph \<noteq> ELF_PROG_LOAD then exec_load n pagetable ip (off + 56) sz else
  if ph_memsz ph < ph_filesz ph then ret (Inl sz) else
  if ph_vaddr ph + ph_memsz ph < ph_vaddr ph then ret (Inl sz) else
  if ph_vaddr ph mod PGSIZE \<noteq> 0 then ret (Inl sz) else
  bind (uvmalloc pagetable sz (ph_vaddr ph + ph_memsz ph) (flags2perm (ph_flags ph))) (\<lambda>sz1.
  if sz1 = 0 then ret (Inl sz) else
  bind (loadseg pagetable (ph_vaddr ph) ip (ucast (ph_off ph)) (ucast (ph_filesz ph))) (\<lambda>x.
  if x < 0 then ret (Inl sz1) else
  exec_load n pagetable ip (off + 56) sz1)))"

text \<open>
  Pushing the argument strings: the final stack pointer and the contents of \<^verbatim>\<open>ustack\<close>, or \<open>None\<close>
  for a jump to \<^verbatim>\<open>bad\<close>. A string without a terminating zero has no length and the code would
  not return.
\<close>

fun exec_args :: "uint64 \<Rightarrow> uint64 \<Rightarrow> uint64 list \<Rightarrow> uint64 \<Rightarrow> uint64 list \<Rightarrow>
    ('a kern_scheme, (uint64 \<times> uint64 list) option) kmon" where
  "exec_args pagetable stackbase [] sp ustack = ret (Some (sp, ustack))"
| "exec_args pagetable stackbase (a # argv) sp ustack =
     (if length ustack \<ge> MAXARG then ret None else
      bind (gets (\<lambda>s. strlen (at (mem s) a))) (\<lambda>l.
        case l of None \<Rightarrow> blocked | Some len \<Rightarrow>
        let sp = sp - (of_nat len + 1) in let sp = sp - sp mod 16 in
        if sp < stackbase then ret None else
        bind (gets (\<lambda>s. load_bytes (mem s) a (len + 1))) (\<lambda>bs.
          bind (copyout pagetable sp bs) (\<lambda>r.
          if r < 0 then ret None else exec_args pagetable stackbase argv sp (ustack @ [sp])))))"

definition exec_bad :: "uint64 \<Rightarrow> uint64 \<Rightarrow> nat option \<Rightarrow> ('a kern_scheme, int) kmon" where
  "exec_bad pagetable sz ip = bind (whenM (pagetable \<noteq> 0) (proc_freepagetable pagetable sz)) (\<lambda>_.
    bind ((case ip of Some ip \<Rightarrow> bind (iunlockput ip) (\<lambda>_.
       end_op) | None \<Rightarrow> ret ())) (\<lambda>_.
    ret (- 1)))"

text \<open>The last path element: what follows the last slash.\<close>

definition last_elem :: "uint8 list \<Rightarrow> uint8 list" where
  "last_elem path = rev (takeWhile (\<lambda>c. c \<noteq> 47) (rev path))"

text \<open>From the allocation of the stack on; the inode has been put.\<close>

definition exec_stack :: "elfhdr \<Rightarrow> uint8 list \<Rightarrow> uint64 list \<Rightarrow> uint64 \<Rightarrow> uint64 \<Rightarrow> ('a kern_scheme, int) kmon" where
  "exec_stack elf path argv pagetable sz = bind curproc (\<lambda>p.
    bind (getp p p_sz) (\<lambda>oldsz.
    let sz = PGROUNDUP sz in
    bind (uvmalloc pagetable sz (sz + 2 * PGSIZE) PTE_W) (\<lambda>sz1.
    if sz1 = 0 then exec_bad pagetable sz None else
    let sz = sz1 in
    bind (uvmclear pagetable (sz - 2 * PGSIZE)) (\<lambda>_.
    let stackbase = sz - PGSIZE in
    bind (exec_args pagetable stackbase argv sz []) (\<lambda>x.
    case x of None \<Rightarrow> exec_bad pagetable sz None | Some (sp, ustack) \<Rightarrow>
     let argc = length ustack in let sp = sp - of_nat (argc + 1) * 8 in let sp = sp - sp mod 16 in
     if sp < stackbase then exec_bad pagetable sz None else
     bind (copyout pagetable sp (concat (map (le_bytes 8) (ustack @ [0])))) (\<lambda>r.
       if r < 0 then exec_bad pagetable sz None else
       bind (set_tf p TF_a1 sp) (\<lambda>_.
       bind (setp p (\<lambda>r. r\<lparr>p_name := safestrcpy (p_name r) (cstr (last_elem path)) 16\<rparr>)) (\<lambda>_.
       bind (getp p p_pagetable) (\<lambda>oldpagetable.
       bind (setp p (\<lambda>r. r\<lparr>p_pagetable := pagetable\<rparr>)) (\<lambda>_.
       bind (setp p (\<lambda>r. r\<lparr>p_sz := sz\<rparr>)) (\<lambda>_.
       bind (set_tf p TF_epc (elf_entry elf)) (\<lambda>_.
       bind (set_tf p TF_sp sp) (\<lambda>_.
       bind (proc_freepagetable oldpagetable oldsz) (\<lambda>_.
       ret (int argc)))))))))))))))"

definition exec :: "uint8 list \<Rightarrow> uint64 list \<Rightarrow> ('a kern_scheme, int) kmon" where
  "exec path argv = bind curproc (\<lambda>p.
    bind begin_op (\<lambda>_.
    bind (namei path) (\<lambda>x.
    case x of None \<Rightarrow> bind end_op (\<lambda>_.
       ret (- 1)) | Some ip \<Rightarrow>
     bind (ilock (Some ip)) (\<lambda>_.
       bind (readi ip DLocal 0 64) (\<lambda>r.
       if fst r \<noteq> 64 then exec_bad 0 0 (Some ip) else
       let elf = elfhdr_of (snd r) in
       if elf_magic elf \<noteq> ELF_MAGIC then exec_bad 0 0 (Some ip) else
       bind (proc_pagetable p) (\<lambda>pagetable.
       if pagetable = 0 then exec_bad 0 0 (Some ip) else
       bind (exec_load (unat (elf_phnum elf)) pagetable ip (ucast (elf_phoff elf)) 0) (\<lambda>l.
       case l of Inl sz \<Rightarrow> exec_bad pagetable sz (Some ip)
       | Inr sz \<Rightarrow> bind (iunlockput ip) (\<lambda>_.
         bind end_op (\<lambda>_.
         exec_stack elf path argv pagetable sz)))))))))"

end
