(* ===== verification/Syscall.thy ===== *)
theory Syscall
  imports Exec
begin

text \<open>
  Fetching system call arguments (\<^verbatim>\<open>kernel/syscall.c\<close>) and the system calls on processes
  (\<^verbatim>\<open>kernel/sysproc.c\<close>). A handler returns the 64 bits that go into \<^verbatim>\<open>a0\<close>; an \<^verbatim>\<open>int\<close> result is
  sign-extended. The dispatch itself is in the theory \<open>Trap\<close>.
\<close>

section \<open>Arguments\<close>

definition fetchaddr :: "uint64 \<Rightarrow> ('a kern_scheme, int \<times> uint64) kmon" where
  "fetchaddr addr = bind curproc (\<lambda>p.
    bind (getp p p_sz) (\<lambda>sz.
    if addr \<ge> sz \<or> addr + 8 > sz then ret (- 1, 0) else
    bind (getp p p_pagetable) (\<lambda>pt.
    bind (copyin pt addr 8) (\<lambda>r.
    if fst r \<noteq> 0 then ret (- 1, 0) else ret (0, of_le (snd r))))))"

text \<open>The bytes stored at \<^verbatim>\<open>buf\<close> are returned with the result.\<close>

definition fetchstr :: "uint64 \<Rightarrow> nat \<Rightarrow> ('a kern_scheme, int \<times> uint8 list) kmon" where
  "fetchstr addr mx = bind curproc (\<lambda>p.
    bind (getp p p_pagetable) (\<lambda>pt.
    bind (copyinstr pt addr mx) (\<lambda>r.
    if fst r < 0 then ret (- 1, snd r) else
     case strlen (cstr (snd r)) of None \<Rightarrow> blocked | Some n \<Rightarrow> ret (int n, snd r))))"

definition argraw :: "nat \<Rightarrow> ('a kern_scheme, uint64) kmon" where
  "argraw n = bind curproc (\<lambda>p.
    if n = 0 then get_tf p TF_a0
     else if n = 1 then get_tf p TF_a1
     else if n = 2 then get_tf p TF_a2
     else if n = 3 then get_tf p TF_a3
     else if n = 4 then get_tf p TF_a4
     else if n = 5 then get_tf p TF_a5
     else panic ''argraw'')"

definition argint :: "nat \<Rightarrow> ('a kern_scheme, int) kmon" where
  "argint n = bind (argraw n) (\<lambda>v.
    ret (sint (ucast v :: uint32)))"

definition argaddr :: "nat \<Rightarrow> ('a kern_scheme, uint64) kmon" where
  "argaddr n = argraw n"

definition argstr :: "nat \<Rightarrow> nat \<Rightarrow> ('a kern_scheme, int \<times> uint8 list) kmon" where
  "argstr n mx = bind (argaddr n) (\<lambda>addr.
    fetchstr addr mx)"

text \<open>A path argument: \<open>None\<close> for an error, otherwise the string without its zero.\<close>

definition argpath :: "nat \<Rightarrow> ('a kern_scheme, uint8 list option) kmon" where
  "argpath n = bind (argstr n MAXPATH) (\<lambda>r.
    ret (if fst r < 0 then None else Some (takeWhile (\<lambda>c. c \<noteq> 0) (snd r))))"

section \<open>System calls on processes\<close>

definition sys_exit :: "('a kern_scheme, uint64) kmon" where
  "sys_exit = bind (argint 0) (\<lambda>n.
    exit n)"

definition sys_getpid :: "('a kern_scheme, uint64) kmon" where
  "sys_getpid = bind curproc (\<lambda>p.
    bind (getp p p_pid) (\<lambda>pid.
    ret (word_of_int pid)))"

definition sys_fork :: "('a kern_scheme, uint64) kmon" where
  "sys_fork = bind fork (\<lambda>r.
    ret (word_of_int r))"

definition sys_wait :: "('a kern_scheme, uint64) kmon" where
  "sys_wait = bind (argaddr 0) (\<lambda>p.
    bind (wait p) (\<lambda>r.
    ret (word_of_int r)))"

definition sys_sbrk :: "('a kern_scheme, uint64) kmon" where
  "sys_sbrk = bind (argint 0) (\<lambda>n.
    bind curproc (\<lambda>p.
    bind (getp p p_sz) (\<lambda>addr.
    bind (growproc n) (\<lambda>r.
    ret (if r < 0 then - 1 else addr)))))"

text \<open>In \<^verbatim>\<open>ticks - ticks0 < n\<close> the \<^verbatim>\<open>int\<close> is converted to unsigned.\<close>

definition sys_sleep :: "('a kern_scheme, uint64) kmon" where
  "sys_sleep = bind (argint 0) (\<lambda>n.
    bind (acquire LTicks) (\<lambda>_.
    bind (gets ticks) (\<lambda>ticks0.
    wait_loop 0 (\<lambda>_. bind (gets ticks) (\<lambda>t.
       if \<not> t - ticks0 < word_of_int n then bind (release LTicks) (\<lambda>_.
         ret (Inr 0)) else
       bind curproc (\<lambda>p.
       bind (killed p) (\<lambda>k.
       if k \<noteq> 0 then bind (release LTicks) (\<lambda>_.
         ret (Inr (- 1))) else
       bind (sleep ChTicks LTicks) (\<lambda>_.
       ret (Inl ())))))) ())))"

definition sys_kill :: "('a kern_scheme, uint64) kmon" where
  "sys_kill = bind (argint 0) (\<lambda>pid.
    bind (kill pid) (\<lambda>r.
    ret (word_of_int r)))"

definition sys_uptime :: "('a kern_scheme, uint64) kmon" where
  "sys_uptime = bind (acquire LTicks) (\<lambda>_.
    bind (gets ticks) (\<lambda>xticks.
    bind (release LTicks) (\<lambda>_.
    ret (ucast xticks))))"

end
