(* ===== verification/Sysfile.thy ===== *)
theory Sysfile
  imports Syscall
begin

text \<open>
  The system calls on files, \<^verbatim>\<open>kernel/sysfile.c\<close>. A jump to a label is a call of the definition
  for the code at the label.
\<close>

section \<open>Descriptors\<close>

abbreviation (input) O_RDONLY :: uint32 where "O_RDONLY \<equiv> 0x000"
abbreviation (input) O_WRONLY :: uint32 where "O_WRONLY \<equiv> 0x001"
abbreviation (input) O_RDWR :: uint32 where "O_RDWR \<equiv> 0x002"
abbreviation (input) O_CREATE :: uint32 where "O_CREATE \<equiv> 0x200"
abbreviation (input) O_TRUNC :: uint32 where "O_TRUNC \<equiv> 0x400"

definition argfd :: "nat \<Rightarrow> ('a kern_scheme, (nat \<times> nat) option) kmon" where
  "argfd n = bind (argint n) (\<lambda>fd.
    if fd < 0 \<or> fd \<ge> int NOFILE then ret None else
    bind curproc (\<lambda>p.
    bind (getp p (\<lambda>r. p_ofile r (nat fd))) (\<lambda>f.
    ret (map_option (\<lambda>f. (nat fd, f)) f))))"

definition set_ofile :: "nat \<Rightarrow> nat \<Rightarrow> nat option \<Rightarrow> ('a kern_scheme, unit) kmon" where
  "set_ofile p fd f = setp p (\<lambda>r. r\<lparr>p_ofile := (p_ofile r)(fd := f)\<rparr>)"

definition fdalloc :: "nat \<Rightarrow> ('a kern_scheme, int) kmon" where
  "fdalloc f = bind curproc (\<lambda>p.
    bind (for_find [0..<NOFILE] (\<lambda>fd.
       bind (getp p (\<lambda>r. p_ofile r fd)) (\<lambda>x.
         if x = None then bind (set_ofile p fd (Some f)) (\<lambda>_.
           ret (Some (int fd))) else ret None))) (\<lambda>r.
    case r of Some fd \<Rightarrow> ret fd | None \<Rightarrow> ret (- 1)))"

definition sys_dup :: "('a kern_scheme, uint64) kmon" where
  "sys_dup = bind (argfd 0) (\<lambda>x.
    case x of None \<Rightarrow> ret (- 1) | Some (_, f) \<Rightarrow>
     bind (fdalloc f) (\<lambda>fd.
       if fd < 0 then ret (- 1) else
       bind (filedup f) (\<lambda>_.
       ret (word_of_int fd))))"

definition sys_read :: "('a kern_scheme, uint64) kmon" where
  "sys_read = bind (argaddr 1) (\<lambda>p.
    bind (argint 2) (\<lambda>n.
    bind (argfd 0) (\<lambda>x.
    case x of None \<Rightarrow> ret (- 1) | Some (_, f) \<Rightarrow> bind (fileread f p n) (\<lambda>r.
       ret (word_of_int r)))))"

definition sys_write :: "('a kern_scheme, uint64) kmon" where
  "sys_write = bind (argaddr 1) (\<lambda>p.
    bind (argint 2) (\<lambda>n.
    bind (argfd 0) (\<lambda>x.
    case x of None \<Rightarrow> ret (- 1) | Some (_, f) \<Rightarrow> bind (filewrite f p n) (\<lambda>r.
       ret (word_of_int r)))))"

definition sys_close :: "('a kern_scheme, uint64) kmon" where
  "sys_close = bind (argfd 0) (\<lambda>x.
    case x of None \<Rightarrow> ret (- 1) | Some (fd, f) \<Rightarrow>
     bind curproc (\<lambda>p.
       bind (set_ofile p fd None) (\<lambda>_.
       bind (fileclose f) (\<lambda>_.
       ret 0))))"

definition sys_fstat :: "('a kern_scheme, uint64) kmon" where
  "sys_fstat = bind (argaddr 1) (\<lambda>st.
    bind (argfd 0) (\<lambda>x.
    case x of None \<Rightarrow> ret (- 1) | Some (_, f) \<Rightarrow> bind (filestat f st) (\<lambda>r.
       ret (word_of_int r))))"

section \<open>Names\<close>

definition add_nlink :: "nat \<Rightarrow> uint16 \<Rightarrow> ('a kern_scheme, unit) kmon" where
  "add_nlink ip d = bind (upd_inode ip (\<lambda>i. i\<lparr>i_nlink := i_nlink i + d\<rparr>)) (\<lambda>_.
    iupdate ip)"

definition link_bad :: "nat \<Rightarrow> ('a kern_scheme, uint64) kmon" where
  "link_bad ip = bind (ilock (Some ip)) (\<lambda>_.
    bind (add_nlink ip (- 1)) (\<lambda>_.
    bind (iunlockput ip) (\<lambda>_.
    bind end_op (\<lambda>_.
    ret (- 1)))))"

definition sys_link :: "('a kern_scheme, uint64) kmon" where
  "sys_link = bind (argpath 0) (\<lambda>old.
    case old of None \<Rightarrow> ret (- 1) | Some old \<Rightarrow>
     bind (argpath 1) (\<lambda>new.
       case new of None \<Rightarrow> ret (- 1) | Some new \<Rightarrow>
     bind begin_op (\<lambda>_.
       bind (namei old) (\<lambda>x.
       case x of None \<Rightarrow> bind end_op (\<lambda>_.
         ret (- 1)) | Some ip \<Rightarrow>
       bind (ilock (Some ip)) (\<lambda>_.
         bind (geti ip i_type) (\<lambda>t.
         if t = T_DIR then bind (iunlockput ip) (\<lambda>_.
           bind end_op (\<lambda>_.
           ret (- 1))) else
         bind (add_nlink ip 1) (\<lambda>_.
         bind (iunlock (Some ip)) (\<lambda>_.
         bind (nameiparent new) (\<lambda>y.
         case fst y of None \<Rightarrow> link_bad ip | Some dp \<Rightarrow>
         bind (ilock (Some dp)) (\<lambda>_.
           bind (geti dp i_dev) (\<lambda>ddev.
           bind (geti ip i_dev) (\<lambda>idev.
           bind (geti ip i_inum) (\<lambda>inum.
           bind ((if ddev \<noteq> idev then ret (- 1) else dirlink dp (snd y) inum)) (\<lambda>r.
           if r < 0 then bind (iunlockput dp) (\<lambda>_.
             link_bad ip) else
           bind (iunlockput dp) (\<lambda>_.
           bind (iput ip) (\<lambda>_.
           bind end_op (\<lambda>_.
           ret 0)))))))))))))))))"

definition isdirempty :: "nat \<Rightarrow> ('a kern_scheme, bool) kmon" where
  "isdirempty dp = bind (geti dp i_size) (\<lambda>size.
    loop (dir_fuel size) (\<lambda>off.
       bind (geti dp i_size) (\<lambda>size.
         if \<not> off < size then ret (Inr True) else
         bind (readi dp DLocal off 16) (\<lambda>r.
         if fst r \<noteq> 16 then panic ''isdirempty: readi'' else
         ret (if de_inum (dirent_of (snd r)) \<noteq> 0 then Inr False else Inl (off + 16))))) 32)"

definition unlink_bad :: "nat \<Rightarrow> ('a kern_scheme, uint64) kmon" where
  "unlink_bad dp = bind (iunlockput dp) (\<lambda>_.
    bind end_op (\<lambda>_.
    ret (- 1)))"

definition sys_unlink :: "('a kern_scheme, uint64) kmon" where
  "sys_unlink = bind (argpath 0) (\<lambda>path.
    case path of None \<Rightarrow> ret (- 1) | Some path \<Rightarrow>
     bind begin_op (\<lambda>_.
       bind (nameiparent path) (\<lambda>y.
       case fst y of None \<Rightarrow> bind end_op (\<lambda>_.
         ret (- 1)) | Some dp \<Rightarrow>
       bind (ilock (Some dp)) (\<lambda>_.
         if namecmp (snd y) (bytes_of ''.'') = 0 \<or> namecmp (snd y) (bytes_of ''..'') = 0 then unlink_bad dp else
         bind (dirlookup dp (snd y)) (\<lambda>x.
         case x of None \<Rightarrow> unlink_bad dp | Some (ip, off) \<Rightarrow>
         bind (ilock (Some ip)) (\<lambda>_.
           bind (geti ip i_nlink) (\<lambda>nl.
           if sint nl < 1 then panic ''unlink: nlink < 1'' else
           bind (geti ip i_type) (\<lambda>t.
           bind ((if t = T_DIR then isdirempty ip else ret True)) (\<lambda>em.
           if \<not> em then bind (iunlockput ip) (\<lambda>_.
             unlink_bad dp) else
           bind (writei dp (SLocal (replicate 16 0)) off 16) (\<lambda>r.
           if r \<noteq> 16 then panic ''unlink: writei'' else
           bind (geti ip i_type) (\<lambda>t.
           bind (whenM (t = T_DIR) (add_nlink dp (- 1))) (\<lambda>_.
           bind (iunlockput dp) (\<lambda>_.
           bind (add_nlink ip (- 1)) (\<lambda>_.
           bind (iunlockput ip) (\<lambda>_.
           bind end_op (\<lambda>_.
           ret 0))))))))))))))))"

definition create_fail :: "nat \<Rightarrow> nat \<Rightarrow> ('a kern_scheme, nat option) kmon" where
  "create_fail ip dp = bind (upd_inode ip (\<lambda>i. i\<lparr>i_nlink := 0\<rparr>)) (\<lambda>_.
    bind (iupdate ip) (\<lambda>_.
    bind (iunlockput ip) (\<lambda>_.
    bind (iunlockput dp) (\<lambda>_.
    ret None))))"

definition create :: "uint8 list \<Rightarrow> uint16 \<Rightarrow> uint16 \<Rightarrow> uint16 \<Rightarrow> ('a kern_scheme, nat option) kmon" where
  "create path type major minor = bind (nameiparent path) (\<lambda>y.
    case fst y of None \<Rightarrow> ret None | Some dp \<Rightarrow>
     bind (ilock (Some dp)) (\<lambda>_.
       bind (dirlookup dp (snd y)) (\<lambda>x.
       case x of Some (ip, _) \<Rightarrow>
         bind (iunlockput dp) (\<lambda>_.
           bind (ilock (Some ip)) (\<lambda>_.
           bind (geti ip i_type) (\<lambda>t.
           if type = T_FILE \<and> (t = T_FILE \<or> t = T_DEVICE) then ret (Some ip) else
           bind (iunlockput ip) (\<lambda>_.
           ret None))))
       | None \<Rightarrow>
         bind (geti dp i_dev) (\<lambda>dev.
           bind (ialloc dev type) (\<lambda>z.
           case z of None \<Rightarrow> bind (iunlockput dp) (\<lambda>_.
             ret None) | Some ip \<Rightarrow>
           bind (ilock (Some ip)) (\<lambda>_.
             bind (upd_inode ip (\<lambda>i. i\<lparr>i_major := major\<rparr>)) (\<lambda>_.
             bind (upd_inode ip (\<lambda>i. i\<lparr>i_minor := minor\<rparr>)) (\<lambda>_.
             bind (upd_inode ip (\<lambda>i. i\<lparr>i_nlink := 1\<rparr>)) (\<lambda>_.
             bind (iupdate ip) (\<lambda>_.
             bind (geti ip i_inum) (\<lambda>inum.
             bind (geti dp i_inum) (\<lambda>dinum.
             bind ((if type \<noteq> T_DIR then ret True else
               bind (dirlink ip (bytes_of ''.'') inum) (\<lambda>r.
                 if r < 0 then ret False else
                 bind (dirlink ip (bytes_of ''..'') dinum) (\<lambda>r.
                 ret (\<not> r < 0))))) (\<lambda>ok.
             if \<not> ok then create_fail ip dp else
             bind (dirlink dp (snd y) inum) (\<lambda>r.
             if r < 0 then create_fail ip dp else
             bind (whenM (type = T_DIR) (add_nlink dp 1)) (\<lambda>_.
             bind (iunlockput dp) (\<lambda>_.
             ret (Some ip)))))))))))))))))"

section \<open>open, mkdir, mknod and chdir\<close>

definition open_fail :: "nat \<Rightarrow> ('a kern_scheme, uint64) kmon" where
  "open_fail ip = bind (iunlockput ip) (\<lambda>_.
    bind end_op (\<lambda>_.
    ret (- 1)))"

text \<open>\<open>sys_open\<close> once the inode is found and locked.\<close>

definition open_inode :: "nat \<Rightarrow> uint32 \<Rightarrow> ('a kern_scheme, uint64) kmon" where
  "open_inode ip omode = bind (geti ip id) (\<lambda>i.
    if i_type i = T_DEVICE \<and> (sint (i_major i) < 0 \<or> sint (i_major i) \<ge> int NDEV) then open_fail ip else
    bind filealloc (\<lambda>x.
    case x of None \<Rightarrow> open_fail ip | Some f \<Rightarrow>
     bind (fdalloc f) (\<lambda>fd.
       if fd < 0 then bind (fileclose f) (\<lambda>_.
         open_fail ip) else
       bind (geti ip id) (\<lambda>i.
       bind ((if i_type i = T_DEVICE
        then upd_file f (\<lambda>r. r\<lparr>f_type := FD_DEVICE, f_major := i_major i\<rparr>)
        else upd_file f (\<lambda>r. r\<lparr>f_type := FD_INODE, f_off := 0\<rparr>))) (\<lambda>_.
       bind (upd_file f (\<lambda>r. r\<lparr>f_ip := Some ip\<rparr>)) (\<lambda>_.
       bind (upd_file f (\<lambda>r. r\<lparr>f_readable := (omode AND O_WRONLY = 0)\<rparr>)) (\<lambda>_.
       bind (upd_file f (\<lambda>r. r\<lparr>f_writable := (omode AND O_WRONLY \<noteq> 0 \<or> omode AND O_RDWR \<noteq> 0)\<rparr>)) (\<lambda>_.
       bind (geti ip i_type) (\<lambda>t.
       bind (whenM (omode AND O_TRUNC \<noteq> 0 \<and> t = T_FILE) (itrunc ip)) (\<lambda>_.
       bind (iunlock (Some ip)) (\<lambda>_.
       bind end_op (\<lambda>_.
       ret (word_of_int fd)))))))))))))"

definition sys_open :: "('a kern_scheme, uint64) kmon" where
  "sys_open = bind (argint 1) (\<lambda>m.
    let omode = word_of_int m in
    bind (argpath 0) (\<lambda>path.
    case path of None \<Rightarrow> ret (- 1) | Some path \<Rightarrow>
     bind begin_op (\<lambda>_.
       if omode AND O_CREATE \<noteq> 0 then
         bind (create path T_FILE 0 0) (\<lambda>x.
           case x of None \<Rightarrow> bind end_op (\<lambda>_.
             ret (- 1)) | Some ip \<Rightarrow> open_inode ip omode)
       else
         bind (namei path) (\<lambda>x.
           case x of None \<Rightarrow> bind end_op (\<lambda>_.
             ret (- 1)) | Some ip \<Rightarrow>
           bind (ilock (Some ip)) (\<lambda>_.
             bind (geti ip i_type) (\<lambda>t.
             if t = T_DIR \<and> omode \<noteq> O_RDONLY then open_fail ip else
             open_inode ip omode))))))"

definition sys_mkdir :: "('a kern_scheme, uint64) kmon" where
  "sys_mkdir = bind begin_op (\<lambda>_.
    bind (argpath 0) (\<lambda>path.
    bind ((case path of None \<Rightarrow> ret None | Some path \<Rightarrow> create path T_DIR 0 0)) (\<lambda>x.
    case x of None \<Rightarrow> bind end_op (\<lambda>_.
       ret (- 1))
     | Some ip \<Rightarrow> bind (iunlockput ip) (\<lambda>_.
       bind end_op (\<lambda>_.
       ret 0)))))"

definition sys_mknod :: "('a kern_scheme, uint64) kmon" where
  "sys_mknod = bind begin_op (\<lambda>_.
    bind (argint 1) (\<lambda>major.
    bind (argint 2) (\<lambda>minor.
    bind (argpath 0) (\<lambda>path.
    bind ((case path of None \<Rightarrow> ret None
       | Some path \<Rightarrow> create path T_DEVICE (word_of_int major) (word_of_int minor))) (\<lambda>x.
    case x of None \<Rightarrow> bind end_op (\<lambda>_.
       ret (- 1))
     | Some ip \<Rightarrow> bind (iunlockput ip) (\<lambda>_.
       bind end_op (\<lambda>_.
       ret 0)))))))"

definition sys_chdir :: "('a kern_scheme, uint64) kmon" where
  "sys_chdir = bind curproc (\<lambda>p.
    bind begin_op (\<lambda>_.
    bind (argpath 0) (\<lambda>path.
    bind ((case path of None \<Rightarrow> ret None | Some path \<Rightarrow> namei path)) (\<lambda>x.
    case x of None \<Rightarrow> bind end_op (\<lambda>_.
       ret (- 1)) | Some ip \<Rightarrow>
     bind (ilock (Some ip)) (\<lambda>_.
       bind (geti ip i_type) (\<lambda>t.
       if t \<noteq> T_DIR then bind (iunlockput ip) (\<lambda>_.
         bind end_op (\<lambda>_.
         ret (- 1))) else
       bind (iunlock (Some ip)) (\<lambda>_.
       bind (getp p p_cwd) (\<lambda>c.
       bind (deref c) (\<lambda>old.
       bind (iput old) (\<lambda>_.
       bind end_op (\<lambda>_.
       bind (setp p (\<lambda>r. r\<lparr>p_cwd := Some ip\<rparr>)) (\<lambda>_.
       ret 0))))))))))))"

section \<open>exec and pipe\<close>

text \<open>
  Fetching the argument vector from index \<open>length argv\<close> on: the pages that hold the strings, as
  \<open>Inl\<close> when the code jumps to \<^verbatim>\<open>bad\<close>.
\<close>

definition exec_argv_round :: "uint64 \<Rightarrow> uint64 list \<Rightarrow>
    ('a kern_scheme, uint64 list + (uint64 list + uint64 list)) kmon" where
  "exec_argv_round uargv argv = (if length argv \<ge> MAXARG then ret (Inr (Inl argv)) else
     bind (fetchaddr (uargv + 8 * of_nat (length argv))) (\<lambda>x.
       if fst x < 0 then ret (Inr (Inl argv)) else
       if snd x = 0 then ret (Inr (Inr argv)) else
       bind kalloc (\<lambda>pg.
       if pg = 0 then ret (Inr (Inl argv)) else
       bind (fetchstr (snd x) 4096) (\<lambda>r.
       bind (modify (\<lambda>s. s\<lparr>mem := store_bytes (mem s) pg (snd r)\<rparr>)) (\<lambda>_.
       ret (if fst r < 0 then Inr (Inl (argv @ [pg])) else Inl (argv @ [pg])))))))"

definition sys_exec :: "('a kern_scheme, uint64) kmon" where
  "sys_exec = bind (argaddr 1) (\<lambda>uargv.
    bind (argpath 0) (\<lambda>path.
    case path of None \<Rightarrow> ret (- 1) | Some path \<Rightarrow>
     bind (loop (Suc MAXARG) (exec_argv_round uargv) []) (\<lambda>r.
       case r of Inl argv \<Rightarrow> bind (for_each argv kfree) (\<lambda>_.
         ret (- 1))
       | Inr argv \<Rightarrow> bind (exec path argv) (\<lambda>x.
         bind (for_each argv kfree) (\<lambda>_.
         ret (word_of_int x))))))"

definition sys_pipe :: "('a kern_scheme, uint64) kmon" where
  "sys_pipe = bind curproc (\<lambda>p.
    bind (argaddr 0) (\<lambda>fdarray.
    bind pipealloc (\<lambda>x.
    case x of None \<Rightarrow> ret (- 1) | Some (rf, wrf) \<Rightarrow>
     bind (fdalloc rf) (\<lambda>fd0.
       bind ((if fd0 < 0 then ret (- 1) else fdalloc wrf)) (\<lambda>fd1.
       if fd0 < 0 \<or> fd1 < 0 then
         bind (whenM (fd0 \<ge> 0) (set_ofile p (nat fd0) None)) (\<lambda>_.
           bind (fileclose rf) (\<lambda>_.
           bind (fileclose wrf) (\<lambda>_.
           ret (- 1)))) else
       bind (getp p p_pagetable) (\<lambda>pt.
       bind (copyout pt fdarray (le_bytes 4 (word_of_int fd0 :: uint32))) (\<lambda>r0.
       bind ((if r0 < 0 then ret (- 1)
         else copyout pt (fdarray + 4) (le_bytes 4 (word_of_int fd1 :: uint32)))) (\<lambda>r1.
       if r1 < 0 then
         bind (set_ofile p (nat fd0) None) (\<lambda>_.
           bind (set_ofile p (nat fd1) None) (\<lambda>_.
           bind (fileclose rf) (\<lambda>_.
           bind (fileclose wrf) (\<lambda>_.
           ret (- 1))))) else
       ret 0))))))))"

end
