(* ===== verification/Trap.thy ===== *)
theory Trap
  imports Sysfile
begin

text \<open>
  System call dispatch (\<^verbatim>\<open>kernel/syscall.c\<close>), traps and interrupts (\<^verbatim>\<open>kernel/trap.c\<close>), the interrupt
  controller (\<^verbatim>\<open>kernel/plic.c\<close>) and \<open>forkret\<close> of \<^verbatim>\<open>kernel/proc.c\<close>. Leaving the kernel is a jump into
  \<^verbatim>\<open>trampoline.S\<close>: \<open>usertrapret\<close> returns the address it jumps to and the argument it passes.
\<close>

section \<open>The interrupt controller\<close>

definition rd_mmio :: "uint64 \<Rightarrow> ('a kern_scheme, uint64) kmon" where
  "rd_mmio a = bind (gets (\<lambda>s. mmio_dev s (mmio_hist s) a)) (\<lambda>v.
    bind (modify (\<lambda>s. s\<lparr>mmio_hist := mmio_hist s @ [MRead a v]\<rparr>)) (\<lambda>_.
    ret v))"

definition wr_mmio :: "uint64 \<Rightarrow> uint64 \<Rightarrow> ('a kern_scheme, unit) kmon" where
  "wr_mmio a v = modify (\<lambda>s. s\<lparr>mmio_hist := mmio_hist s @ [MWrite a v]\<rparr>)"

definition plicinit :: "('a kern_scheme, unit) kmon" where
  "plicinit = bind (wr_mmio (PLIC + ucast UART0_IRQ * 4) 1) (\<lambda>_.
    wr_mmio (PLIC + ucast VIRTIO0_IRQ * 4) 1)"

definition plicinithart :: "('a kern_scheme, unit) kmon" where
  "plicinithart = bind cpuid (\<lambda>hart.
    bind (wr_mmio (PLIC_SENABLE (of_nat hart)) (push_bit (unat UART0_IRQ) 1 OR push_bit (unat VIRTIO0_IRQ) 1)) (\<lambda>_.
    wr_mmio (PLIC_SPRIORITY (of_nat hart)) 0))"

definition plic_claim :: "('a kern_scheme, uint32) kmon" where
  "plic_claim = bind cpuid (\<lambda>hart.
    bind (rd_mmio (PLIC_SCLAIM (of_nat hart))) (\<lambda>irq.
    ret (ucast irq)))"

definition plic_complete :: "uint32 \<Rightarrow> ('a kern_scheme, unit) kmon" where
  "plic_complete irq = bind cpuid (\<lambda>hart.
    wr_mmio (PLIC_SCLAIM (of_nat hart)) (ucast irq))"

section \<open>Interrupts\<close>

definition clockintr :: "('a kern_scheme, unit) kmon" where
  "clockintr = bind (acquire LTicks) (\<lambda>_.
    bind (modify (\<lambda>s. s\<lparr>ticks := ticks s + 1\<rparr>)) (\<lambda>_.
    bind (wakeup ChTicks) (\<lambda>_.
    release LTicks)))"

definition devintr :: "('a kern_scheme, nat) kmon" where
  "devintr = bind r_scause (\<lambda>scause.
    if scause AND 0x8000000000000000 \<noteq> 0 \<and> scause AND 0xff = 9 then
       bind plic_claim (\<lambda>irq.
         bind ((if irq = UART0_IRQ then uartintr
          else if irq = VIRTIO0_IRQ then virtio_disk_intr
          else if irq \<noteq> 0 then printf (''unexpected interrupt irq=%d'' @ [CHR 0x0A]) [AInt (sint irq)]
          else ret ())) (\<lambda>_.
         bind (whenM (irq \<noteq> 0) (plic_complete irq)) (\<lambda>_.
         ret 1)))
     else if scause = 0x8000000000000001 then
       bind cpuid (\<lambda>c.
         bind (whenM (c = 0) clockintr) (\<lambda>_.
         bind r_sip (\<lambda>sip.
         bind (w_sip (sip AND NOT 2)) (\<lambda>_.
         ret 2))))
     else ret 0)"

section \<open>System calls\<close>

abbreviation (input) SYS_fork :: nat where "SYS_fork \<equiv> 1"
abbreviation (input) SYS_exit :: nat where "SYS_exit \<equiv> 2"
abbreviation (input) SYS_wait :: nat where "SYS_wait \<equiv> 3"
abbreviation (input) SYS_pipe :: nat where "SYS_pipe \<equiv> 4"
abbreviation (input) SYS_read :: nat where "SYS_read \<equiv> 5"
abbreviation (input) SYS_kill :: nat where "SYS_kill \<equiv> 6"
abbreviation (input) SYS_exec :: nat where "SYS_exec \<equiv> 7"
abbreviation (input) SYS_fstat :: nat where "SYS_fstat \<equiv> 8"
abbreviation (input) SYS_chdir :: nat where "SYS_chdir \<equiv> 9"
abbreviation (input) SYS_dup :: nat where "SYS_dup \<equiv> 10"
abbreviation (input) SYS_getpid :: nat where "SYS_getpid \<equiv> 11"
abbreviation (input) SYS_sbrk :: nat where "SYS_sbrk \<equiv> 12"
abbreviation (input) SYS_sleep :: nat where "SYS_sleep \<equiv> 13"
abbreviation (input) SYS_uptime :: nat where "SYS_uptime \<equiv> 14"
abbreviation (input) SYS_open :: nat where "SYS_open \<equiv> 15"
abbreviation (input) SYS_write :: nat where "SYS_write \<equiv> 16"
abbreviation (input) SYS_mknod :: nat where "SYS_mknod \<equiv> 17"
abbreviation (input) SYS_unlink :: nat where "SYS_unlink \<equiv> 18"
abbreviation (input) SYS_link :: nat where "SYS_link \<equiv> 19"
abbreviation (input) SYS_mkdir :: nat where "SYS_mkdir \<equiv> 20"
abbreviation (input) SYS_close :: nat where "SYS_close \<equiv> 21"

definition syscalls :: "nat \<Rightarrow> ('a kern_scheme, uint64) kmon option" where
  "syscalls n = map_of [(SYS_fork, sys_fork), (SYS_exit, sys_exit), (SYS_wait, sys_wait),
     (SYS_pipe, sys_pipe), (SYS_read, sys_read), (SYS_kill, sys_kill), (SYS_exec, sys_exec),
     (SYS_fstat, sys_fstat), (SYS_chdir, sys_chdir), (SYS_dup, sys_dup), (SYS_getpid, sys_getpid),
     (SYS_sbrk, sys_sbrk), (SYS_sleep, sys_sleep), (SYS_uptime, sys_uptime), (SYS_open, sys_open),
     (SYS_write, sys_write), (SYS_mknod, sys_mknod), (SYS_unlink, sys_unlink), (SYS_link, sys_link),
     (SYS_mkdir, sys_mkdir), (SYS_close, sys_close)] n"

definition syscall :: "('a kern_scheme, unit) kmon" where
  "syscall = bind curproc (\<lambda>p.
    bind (get_tf p TF_a7) (\<lambda>a7.
    let num = sint (ucast a7 :: uint32) in
    case (if num > 0 \<and> num < 22 then syscalls (nat num) else None) of
       Some call \<Rightarrow> bind call (\<lambda>r.
         set_tf p TF_a0 r)
     | None \<Rightarrow> bind (getp p id) (\<lambda>r.
       bind (printf (''%d %s: unknown sys call %d'' @ [CHR 0x0A])
           [AInt (p_pid r), AStr (Some (takeWhile (\<lambda>c. c \<noteq> 0) (p_name r))), AInt num]) (\<lambda>_.
       set_tf p TF_a0 (- 1)))))"

section \<open>Traps\<close>

definition trapinit :: "('a kern_scheme, unit) kmon" where
  "trapinit = initlock LTicks ''time''"

definition trapinithart :: "('a kern_scheme, unit) kmon" where
  "trapinithart = bind (gets (\<lambda>s. ksyms s SymKernelvec)) (\<lambda>v.
    w_stvec v)"

definition usertrapret :: "('a kern_scheme, uint64 \<times> uint64) kmon" where
  "usertrapret = bind curproc (\<lambda>p.
    bind intr_off (\<lambda>_.
    bind (gets ksym_trampoline) (\<lambda>tr.
    bind (gets (\<lambda>s. ksyms s SymUservec)) (\<lambda>uservec.
    bind (w_stvec (TRAMPOLINE + (uservec - tr))) (\<lambda>_.
    bind r_satp (\<lambda>satp.
    bind (set_tf p TF_kernel_satp satp) (\<lambda>_.
    bind (getp p p_kstack) (\<lambda>ks.
    bind (set_tf p TF_kernel_sp (ks + PGSIZE)) (\<lambda>_.
    bind (gets (\<lambda>s. ksyms s SymUsertrap)) (\<lambda>ut.
    bind (set_tf p TF_kernel_trap ut) (\<lambda>_.
    bind r_tp (\<lambda>tp.
    bind (set_tf p TF_kernel_hartid tp) (\<lambda>_.
    bind r_sstatus (\<lambda>x.
    bind (w_sstatus ((x AND NOT SSTATUS_SPP) OR SSTATUS_SPIE)) (\<lambda>_.
    bind (get_tf p TF_epc) (\<lambda>epc.
    bind (w_sepc epc) (\<lambda>_.
    bind (getp p p_pagetable) (\<lambda>pt.
    bind (gets (\<lambda>s. ksyms s SymUserret)) (\<lambda>userret.
    ret (TRAMPOLINE + (userret - tr), MAKE_SATP pt))))))))))))))))))))"

definition usertrap :: "('a kern_scheme, uint64 \<times> uint64) kmon" where
  "usertrap = bind r_sstatus (\<lambda>x.
    if x AND SSTATUS_SPP \<noteq> 0 then panic ''usertrap: not from user mode'' else
    bind (gets (\<lambda>s. ksyms s SymKernelvec)) (\<lambda>v.
    bind (w_stvec v) (\<lambda>_.
    bind curproc (\<lambda>p.
    bind r_sepc (\<lambda>sepc.
    bind (set_tf p TF_epc sepc) (\<lambda>_.
    bind r_scause (\<lambda>scause.
    bind ((if scause = 8 then
         bind (killed p) (\<lambda>k.
           if k \<noteq> 0 then exit (- 1) else
           bind (get_tf p TF_epc) (\<lambda>epc.
           bind (set_tf p TF_epc (epc + 4)) (\<lambda>_.
           bind intr_on (\<lambda>_.
           bind syscall (\<lambda>_.
           ret 0)))))
       else
         bind devintr (\<lambda>d.
           if d \<noteq> 0 then ret d else
           bind r_scause (\<lambda>sc.
           bind (getp p p_pid) (\<lambda>pid.
           bind (printf (''usertrap(): unexpected scause %p pid=%d'' @ [CHR 0x0A]) [APtr sc, AInt pid]) (\<lambda>_.
           bind r_sepc (\<lambda>se.
           bind r_stval (\<lambda>st.
           bind (printf (''            sepc=%p stval=%p'' @ [CHR 0x0A]) [APtr se, APtr st]) (\<lambda>_.
           bind (setkilled p) (\<lambda>_.
           ret 0)))))))))) (\<lambda>which_dev.
    bind (killed p) (\<lambda>k.
    if k \<noteq> 0 then exit (- 1) else
    bind (whenM (which_dev = 2) yield) (\<lambda>_.
    usertrapret))))))))))"

definition kerneltrap :: "('a kern_scheme, unit) kmon" where
  "kerneltrap = bind r_sepc (\<lambda>sepc.
    bind r_sstatus (\<lambda>sstatus.
    bind r_scause (\<lambda>scause.
    if sstatus AND SSTATUS_SPP = 0 then panic ''kerneltrap: not from supervisor mode'' else
    bind intr_get (\<lambda>on.
    if on then panic ''kerneltrap: interrupts enabled'' else
    bind devintr (\<lambda>which_dev.
    if which_dev = 0 then
       bind (printf (''scause %p'' @ [CHR 0x0A]) [APtr scause]) (\<lambda>_.
         bind r_sepc (\<lambda>se.
         bind r_stval (\<lambda>st.
         bind (printf (''sepc=%p stval=%p'' @ [CHR 0x0A]) [APtr se, APtr st]) (\<lambda>_.
         panic ''kerneltrap'')))) else
    bind (whenM (which_dev = 2) (bind myproc (\<lambda>m.
       case m of None \<Rightarrow> ret () | Some _ \<Rightarrow>
       bind curproc (\<lambda>p.
         bind (getp p p_state) (\<lambda>st.
         whenM (st = RUNNING) yield))))) (\<lambda>_.
    bind (w_sepc sepc) (\<lambda>_.
    w_sstatus sstatus)))))))"

definition forkret :: "('a kern_scheme, uint64 \<times> uint64) kmon" where
  "forkret = bind curproc (\<lambda>p.
    bind (release (LProc p)) (\<lambda>_.
    bind (gets first) (\<lambda>f.
    bind (whenM f (bind (modify (\<lambda>s. s\<lparr>first := False\<rparr>)) (\<lambda>_.
       fsinit ROOTDEV))) (\<lambda>_.
    usertrapret))))"

end
