(* ===== verification/Boot.thy ===== *)
theory Boot
  imports Trap
begin

text \<open>
  Start-up: \<^verbatim>\<open>kernel/start.c\<close> and \<^verbatim>\<open>kernel/main.c\<close>. The \<^verbatim>\<open>mret\<close> at the end of \<open>start\<close> enters \<open>main\<close> in
  supervisor mode; it is not part of the definition. \<open>main\<close> ends in \<open>scheduler\<close>, which never
  returns in the code and makes \<open>n\<close> passes here.
\<close>

definition timerinit :: "('a kern_scheme, unit) kmon" where
  "timerinit = bind r_mhartid (\<lambda>h.
    let id = scast (ucast h :: uint32) in
    let interval = 1000000 in
    bind (rd_mmio CLINT_MTIME) (\<lambda>t.
    bind (wr_mmio (CLINT_MTIMECMP id) (t + interval)) (\<lambda>_.
    bind (modify (\<lambda>s. s\<lparr>timer_scratch := (timer_scratch s)(unat id :=
       (timer_scratch s (unat id))(3 := CLINT_MTIMECMP id, 4 := interval))\<rparr>)) (\<lambda>_.
    bind (gets (\<lambda>s. ksyms s (SymTimerScratch (unat id)))) (\<lambda>scratch.
    bind (w_mscratch scratch) (\<lambda>_.
    bind (gets (\<lambda>s. ksyms s SymTimervec)) (\<lambda>tv.
    bind (w_mtvec tv) (\<lambda>_.
    bind r_mstatus (\<lambda>ms.
    bind (w_mstatus (ms OR MSTATUS_MIE)) (\<lambda>_.
    bind r_mie (\<lambda>mie.
    w_mie (mie OR MIE_MTIE))))))))))))"

definition start :: "('a kern_scheme, unit) kmon" where
  "start = bind r_mstatus (\<lambda>x.
    bind (w_mstatus ((x AND NOT MSTATUS_MPP_MASK) OR MSTATUS_MPP_S)) (\<lambda>_.
    bind (gets (\<lambda>s. ksyms s SymMain)) (\<lambda>m.
    bind (w_mepc m) (\<lambda>_.
    bind (w_satp 0) (\<lambda>_.
    bind (w_medeleg 0xffff) (\<lambda>_.
    bind (w_mideleg 0xffff) (\<lambda>_.
    bind r_sie (\<lambda>sie.
    bind (w_sie (sie OR SIE_SEIE OR SIE_STIE OR SIE_SSIE)) (\<lambda>_.
    bind (w_pmpaddr0 0x3fffffffffffff) (\<lambda>_.
    bind (w_pmpcfg0 0xf) (\<lambda>_.
    bind timerinit (\<lambda>_.
    bind r_mhartid (\<lambda>h.
    w_tp (scast (ucast h :: uint32)))))))))))))))"

definition main :: "nat \<Rightarrow> ('a kern_scheme, unit) kmon" where
  "main n = bind cpuid (\<lambda>c.
    bind ((if c = 0 then
       bind consoleinit (\<lambda>_.
         bind printfinit (\<lambda>_.
         bind (printf [CHR 0x0A] []) (\<lambda>_.
         bind (printf (''xv6 kernel is booting'' @ [CHR 0x0A]) []) (\<lambda>_.
         bind (printf [CHR 0x0A] []) (\<lambda>_.
         bind kinit (\<lambda>_.
         bind kvminit (\<lambda>_.
         bind kvminithart (\<lambda>_.
         bind procinit (\<lambda>_.
         bind trapinit (\<lambda>_.
         bind trapinithart (\<lambda>_.
         bind plicinit (\<lambda>_.
         bind plicinithart (\<lambda>_.
         bind binit (\<lambda>_.
         bind iinit (\<lambda>_.
         bind fileinit (\<lambda>_.
         bind virtio_disk_init (\<lambda>_.
         bind userinit (\<lambda>_.
         modify (\<lambda>s. s\<lparr>started := True\<rparr>)))))))))))))))))))
      else
       bind (wait_loop 0 (\<lambda>_. bind (gets started) (\<lambda>b.
         if \<not> b then bind env_step (\<lambda>_.
               ret (Inl ())) else ret (Inr ()))) ()) (\<lambda>_.
         bind cpuid (\<lambda>c.
         bind (printf (''hart %d starting'' @ [CHR 0x0A]) [AInt (int c)]) (\<lambda>_.
         bind kvminithart (\<lambda>_.
         bind trapinithart (\<lambda>_.
         plicinithart))))))) (\<lambda>_.
    scheduler n))"

end
