(* ===== verification/Uproc.thy ===== *)
theory Uproc
  imports Kstate
begin

text \<open>
  User programs and their library, \<^verbatim>\<open>user/ulib.c\<close> and \<^verbatim>\<open>user/printf.c\<close>. A program sees the kernel
  through system calls only. What a call returns is given by \<open>ker\<close>, any function of the calls made
  so far and their results, so a statement about a program holds for every behaviour of the
  kernel, the other processes and the files. A result is the number returned and the bytes
  stored through the pointers of the call. A process that has called \<open>exit\<close>, or whose image was
  replaced by \<open>exec\<close>, never continues: the result is \<open>Blocked\<close>, with the reason in \<open>ended\<close>.
  A \<^verbatim>\<open>while\<close> loop that depends on input has \<open>ufuel\<close> rounds; running out of them is \<open>Blocked\<close> with
  no reason.
\<close>

section \<open>System calls\<close>

datatype ucall = SFork | SWait | SPipe | SWrite int "uint8 list" | SRead int nat | SClose int
  | SKill int | SExec "uint8 list" "uint8 list list" | SOpen "uint8 list" int
  | SMknod "uint8 list" int int | SUnlink "uint8 list" | SFstat int | SLink "uint8 list" "uint8 list"
  | SMkdir "uint8 list" | SChdir "uint8 list" | SDup int | SSbrk int | SSleep int

record sysret =
  rv :: int
  rbytes :: "uint8 list"

datatype ending = Exited int | Execed "uint8 list" "uint8 list list"

type_synonym trace = "(ucall \<times> sysret) list"

record world =
  ker :: "trace \<Rightarrow> ucall \<Rightarrow> sysret"
  tr :: trace
  ended :: "ending option"
  ufuel :: nat

definition sys :: "ucall \<Rightarrow> ('a world_scheme, sysret) kmon" where
  "sys c = (\<lambda>w e. let r = ker w (tr w) c in Ret r (w\<lparr>tr := tr w @ [(c, r)]\<rparr>) e)"

definition call :: "ucall \<Rightarrow> ('a world_scheme, int) kmon" where
  "call c = bind (sys c) (\<lambda>r. ret (rv r))"

definition exit_u :: "int \<Rightarrow> ('a world_scheme, 'b) kmon" where
  "exit_u n = bind (modify (\<lambda>w. w\<lparr>ended := Some (Exited n)\<rparr>)) (\<lambda>_. blocked)"

definition exec_u :: "uint8 list \<Rightarrow> uint8 list list \<Rightarrow> ('a world_scheme, int) kmon" where
  "exec_u path argv = bind (call (SExec path argv)) (\<lambda>r.
     if r = - 1 then ret r else
     bind (modify (\<lambda>w. w\<lparr>ended := Some (Execed path argv)\<rparr>)) (\<lambda>_. blocked))"

definition write_u :: "int \<Rightarrow> uint8 list \<Rightarrow> ('a world_scheme, int) kmon" where
  "write_u fd bs = call (SWrite fd bs)"

text \<open>\<^verbatim>\<open>read(fd, buf + m, n)\<close> on a buffer: the bytes the kernel stores, and the number it returns.\<close>

definition read_u :: "int \<Rightarrow> uint8 list \<Rightarrow> nat \<Rightarrow> nat \<Rightarrow> ('a world_scheme, int \<times> uint8 list) kmon" where
  "read_u fd buf m n = bind (sys (SRead fd n)) (\<lambda>r. ret (rv r, putb buf m (rbytes r)))"

text \<open>What a \<^verbatim>\<open>while\<close> loop of a program does, bounded by \<open>ufuel\<close>.\<close>

definition while_u :: "('i \<Rightarrow> ('a world_scheme, 'i + 'r) kmon) \<Rightarrow> 'i \<Rightarrow> ('a world_scheme, 'r) kmon" where
  "while_u body i = bind (gets ufuel) (\<lambda>n. loop n body i)"

section \<open>The library\<close>

definition main_u :: "('a world_scheme, 'b) kmon \<Rightarrow> ('a world_scheme, 'c) kmon" where
  "main_u main = bind main (\<lambda>_. exit_u 0)"

text \<open>
  The string functions on memory and pointer views, as for the kernel's. Those that run to a
  zero byte do not return without one.
\<close>

partial_function (option) strcpy :: "memory \<Rightarrow> uint64 \<Rightarrow> uint64 \<Rightarrow> memory option" where
  "strcpy m s t = (let m' = m(s := m t) in if m t = 0 then Some m' else strcpy m' (s + 1) (t + 1))"

partial_function (option) strcmp :: "ptr \<Rightarrow> ptr \<Rightarrow> int option" where
  "strcmp p q = (if p 0 \<noteq> 0 \<and> p 0 = q 0 then strcmp (\<lambda>i. p (Suc i)) (\<lambda>i. q (Suc i))
     else Some (uint (p 0) - uint (q 0)))"

definition strlen_u :: "ptr \<Rightarrow> nat option" where
  "strlen_u s = strlen_from s 0"

definition memset_u :: "memory \<Rightarrow> uint64 \<Rightarrow> uint8 \<Rightarrow> nat \<Rightarrow> memory" where
  "memset_u m dst c n = fold (\<lambda>i m. m(dst + of_nat i := c)) [0..<n] m"

text \<open>On a byte list, which ends where the terminating zero is; the result is an index.\<close>

fun strchr :: "uint8 list \<Rightarrow> uint8 \<Rightarrow> nat option" where
  "strchr [] c = None"
| "strchr (x # s) c = (if x = 0 then None else if x = c then Some 0 else map_option Suc (strchr s c))"

definition memmove_u :: "memory \<Rightarrow> uint64 \<Rightarrow> uint64 \<Rightarrow> int \<Rightarrow> memory" where
  "memmove_u m dst src n = (if src > dst then copy_up m dst src (nat n)
     else copy_down m (dst + word_of_int n) (src + word_of_int n) (nat n))"

definition memcmp_u :: "ptr \<Rightarrow> ptr \<Rightarrow> nat \<Rightarrow> int" where
  "memcmp_u s1 s2 n = (case find (\<lambda>i. s1 i \<noteq> s2 i) [0..<n] of None \<Rightarrow> 0 | Some i \<Rightarrow> uint (s1 i) - uint (s2 i))"

definition memcpy_u :: "memory \<Rightarrow> uint64 \<Rightarrow> uint64 \<Rightarrow> nat \<Rightarrow> memory" where
  "memcpy_u m dst src n = memmove_u m dst src (int n)"

text \<open>\<^verbatim>\<open>atoi\<close> computes in a 32-bit \<^verbatim>\<open>int\<close>, which wraps.\<close>

fun atoi_from :: "uint32 \<Rightarrow> uint8 list \<Rightarrow> uint32" where
  "atoi_from n [] = n"
| "atoi_from n (c # s) = (if 48 \<le> c \<and> c \<le> 57 then atoi_from (n * 10 + ucast c - 48) s else n)"

definition atoi :: "uint8 list \<Rightarrow> int" where
  "atoi s = sint (atoi_from 0 s)"

text \<open>
  \<open>gets\<close> of \<^verbatim>\<open>ulib.c\<close>: at most \<open>max - 1\<close> characters, one \<^verbatim>\<open>read\<close> each, up to and including the end
  of the line.
\<close>

definition gets_round :: "int \<Rightarrow> uint8 list \<times> nat \<Rightarrow> ('a world_scheme, (uint8 list \<times> nat) + (uint8 list \<times> nat)) kmon" where
  "gets_round nmax = (\<lambda>(buf, i).
     if \<not> int i + 1 < nmax then ret (Inr (buf, i)) else
     bind (read_u 0 [0] 0 1) (\<lambda>(cc, cs).
     if cc < 1 then ret (Inr (buf, i)) else
     let c = hd cs; buf = buf[i := c] in
     if c = 10 \<or> c = 13 then ret (Inr (buf, Suc i)) else ret (Inl (buf, Suc i))))"

definition gets_u :: "uint8 list \<Rightarrow> int \<Rightarrow> ('a world_scheme, uint8 list) kmon" where
  "gets_u buf nmax = bind (loop (Suc (nat nmax)) (gets_round nmax) (buf, 0)) (\<lambda>(buf, i). ret (buf[i := 0]))"

text \<open>The result is the number returned and the bytes of the \<^verbatim>\<open>struct stat\<close>.\<close>

definition stat_u :: "uint8 list \<Rightarrow> ('a world_scheme, int \<times> uint8 list) kmon" where
  "stat_u n = bind (call (SOpen n 0)) (\<lambda>fd.
     if fd < 0 then ret (- 1, []) else
     bind (sys (SFstat fd)) (\<lambda>r.
     bind (call (SClose fd)) (\<lambda>_.
     ret (rv r, rbytes r))))"

section \<open>Formatted output\<close>

datatype uarg = UInt int | ULong uint64 | UStr "uint8 list option"

definition digits_u :: "uint8 list" where
  "digits_u = bytes_of ''0123456789ABCDEF''"

definition putc_u :: "int \<Rightarrow> uint8 \<Rightarrow> ('a world_scheme, unit) kmon" where
  "putc_u fd c = bind (write_u fd [c]) (\<lambda>_. ret ())"

function digits_rev_u :: "nat \<Rightarrow> nat \<Rightarrow> uint8 list" where
  "digits_rev_u base x = (if base < 2 then [] else
     digits_u ! (x mod base) # (if x div base = 0 then [] else digits_rev_u base (x div base)))"
  by pat_completeness auto

termination digits_rev_u
  by (relation "measure snd") (auto simp: div_greater_zero_iff intro: div_less_dividend)

declare digits_rev_u.simps [simp del]

definition printint_u :: "int \<Rightarrow> int \<Rightarrow> nat \<Rightarrow> bool \<Rightarrow> ('a world_scheme, unit) kmon" where
  "printint_u fd xx base sgnd = (let neg = sgnd \<and> xx < 0;
       x = (if neg then - word_of_int xx else word_of_int xx) :: uint32;
       buf = digits_rev_u base (unat x) @ (if neg then [45] else [])
     in for_each (rev buf) (putc_u fd))"

definition printptr_u :: "int \<Rightarrow> uint64 \<Rightarrow> ('a world_scheme, unit) kmon" where
  "printptr_u fd x = bind (putc_u fd 48) (\<lambda>_.
     bind (putc_u fd 120) (\<lambda>_.
     for_each [0..<16] (\<lambda>i. putc_u fd (digits_u ! unat (drop_bit 60 (push_bit (4 * i) x))))))"

text \<open>
  The loop of \<open>vprintf\<close> with its \<open>state\<close>, true after a \<^verbatim>\<open>%\<close>. A \<^verbatim>\<open>uint64\<close> argument of \<^verbatim>\<open>%l\<close> is cut to
  the \<^verbatim>\<open>int\<close> parameter of \<open>printint\<close>.
\<close>

definition va_int :: "uarg list \<Rightarrow> ('a world_scheme, int) kmon" where
  "va_int ap = (case ap of UInt i # _ \<Rightarrow> ret i | _ \<Rightarrow> panic ''va_arg'')"

definition va_long :: "uarg list \<Rightarrow> ('a world_scheme, uint64) kmon" where
  "va_long ap = (case ap of ULong x # _ \<Rightarrow> ret x | _ \<Rightarrow> panic ''va_arg'')"

definition va_str :: "uarg list \<Rightarrow> ('a world_scheme, uint8 list option) kmon" where
  "va_str ap = (case ap of UStr s # _ \<Rightarrow> ret s | _ \<Rightarrow> panic ''va_arg'')"

fun vprintf_loop :: "int \<Rightarrow> bool \<Rightarrow> uint8 list \<Rightarrow> uarg list \<Rightarrow> ('a world_scheme, unit) kmon" where
  "vprintf_loop fd state [] ap = ret ()"
| "vprintf_loop fd False (c # fmt) ap =
     (if c = 37 then vprintf_loop fd True fmt ap
      else bind (putc_u fd c) (\<lambda>_. vprintf_loop fd False fmt ap))"
| "vprintf_loop fd True (c # fmt) ap =
     (if c = 100 then bind (va_int ap) (\<lambda>i. bind (printint_u fd i 10 True) (\<lambda>_. vprintf_loop fd False fmt (tl ap)))
      else if c = 108 then bind (va_long ap) (\<lambda>x. bind (printint_u fd (sint (ucast x :: uint32)) 10 False) (\<lambda>_. vprintf_loop fd False fmt (tl ap)))
      else if c = 120 then bind (va_int ap) (\<lambda>i. bind (printint_u fd i 16 False) (\<lambda>_. vprintf_loop fd False fmt (tl ap)))
      else if c = 112 then bind (va_long ap) (\<lambda>x. bind (printptr_u fd x) (\<lambda>_. vprintf_loop fd False fmt (tl ap)))
      else if c = 115 then bind (va_str ap) (\<lambda>so.
        bind (for_each (case so of None \<Rightarrow> bytes_of ''(null)'' | Some s \<Rightarrow> s) (putc_u fd)) (\<lambda>_. vprintf_loop fd False fmt (tl ap)))
      else if c = 99 then bind (va_int ap) (\<lambda>i. bind (putc_u fd (word_of_int i)) (\<lambda>_. vprintf_loop fd False fmt (tl ap)))
      else if c = 37 then bind (putc_u fd c) (\<lambda>_. vprintf_loop fd False fmt ap)
      else bind (putc_u fd 37) (\<lambda>_. bind (putc_u fd c) (\<lambda>_. vprintf_loop fd False fmt ap)))"

definition vprintf :: "int \<Rightarrow> string \<Rightarrow> uarg list \<Rightarrow> ('a world_scheme, unit) kmon" where
  "vprintf fd fmt ap = vprintf_loop fd False (bytes_of fmt) ap"

definition fprintf :: "int \<Rightarrow> string \<Rightarrow> uarg list \<Rightarrow> ('a world_scheme, unit) kmon" where
  "fprintf fd fmt ap = vprintf fd fmt ap"

definition printf_u :: "string \<Rightarrow> uarg list \<Rightarrow> ('a world_scheme, unit) kmon" where
  "printf_u fmt ap = vprintf 1 fmt ap"

section \<open>Reading and writing\<close>

text \<open>
  What a trace has delivered from a file descriptor, and what it has handed to \<^verbatim>\<open>write\<close>.
  \<open>input_ok k fd data\<close> is the contract of \<^verbatim>\<open>read\<close> on a descriptor with contents \<open>data\<close>: the bytes
  arrive in order, in pieces of any size that fit the request, and a request gets no byte only
  if it asks for none or the contents are used up.
\<close>

definition delivered :: "int \<Rightarrow> trace \<Rightarrow> uint8 list" where
  "delivered fd t = concat (map (\<lambda>(c, r). case c of SRead d _ \<Rightarrow> if d = fd then rbytes r else [] | _ \<Rightarrow> []) t)"

definition written :: "int \<Rightarrow> trace \<Rightarrow> uint8 list" where
  "written fd t = concat (map (\<lambda>(c, r). case c of SWrite d bs \<Rightarrow> if d = fd then bs else [] | _ \<Rightarrow> []) t)"

definition input_ok :: "(trace \<Rightarrow> ucall \<Rightarrow> sysret) \<Rightarrow> int \<Rightarrow> uint8 list \<Rightarrow> bool" where
  "input_ok k fd data \<longleftrightarrow> (\<forall>t n rest. data = delivered fd t @ rest \<longrightarrow>
     (let r = k t (SRead fd n) in rv r = int (length (rbytes r)) \<and> length (rbytes r) \<le> n \<and>
        (\<exists>more. rest = rbytes r @ more) \<and> (rbytes r = [] \<longrightarrow> n = 0 \<or> rest = [])))"

lemma delivered_simps [simp]: "delivered fd [] = []" "delivered fd (t @ u) = delivered fd t @ delivered fd u"
  by (simp_all add: delivered_def)

lemma written_simps [simp]: "written fd [] = []" "written fd (t @ u) = written fd t @ written fd u"
  by (simp_all add: written_def)

lemma input_okD:
  assumes "input_ok k fd data" and "data = delivered fd t @ rest"
  obtains more where "rest = rbytes (k t (SRead fd n)) @ more" and "rv (k t (SRead fd n)) = int (length (rbytes (k t (SRead fd n))))"
    and "length (rbytes (k t (SRead fd n))) \<le> n" and "rbytes (k t (SRead fd n)) = [] \<Longrightarrow> n = 0 \<or> rest = []"
  using assms unfolding input_ok_def Let_def by blast

text \<open>A step that only writes.\<close>

definition says :: "'a world_scheme \<Rightarrow> int \<Rightarrow> uint8 list \<Rightarrow> 'a world_scheme \<Rightarrow> bool" where
  "says w fd out w' \<longleftrightarrow> (\<exists>t. w' = w\<lparr>tr := tr w @ t\<rparr> \<and> written fd t = out \<and> (\<forall>d. delivered d t = []))"

lemma says_refl: "says w fd [] w"
  by (auto simp: says_def intro!: exI [of _ "[]"])

lemma says_trans: "says w fd a w' \<Longrightarrow> says w' fd b w'' \<Longrightarrow> says w fd (a @ b) w''"
proof -
  assume "says w fd a w'" "says w' fd b w''"
  then obtain t u where "w' = w\<lparr>tr := tr w @ t\<rparr>" "written fd t = a" "\<forall>d. delivered d t = []"
      "w'' = w'\<lparr>tr := tr w' @ u\<rparr>" "written fd u = b" "\<forall>d. delivered d u = []"
    unfolding says_def by blast
  then show ?thesis unfolding says_def by (intro exI [of _ "t @ u"]) simp
qed

lemma write_u_says: "\<exists>n w'. write_u fd bs w e = Ret n w' e \<and> says w fd bs w'"
  unfolding write_u_def call_def sys_def bind_apply says_def
  by (auto simp: Let_def ret_apply written_def delivered_def
      intro!: exI [of _ "[(SWrite fd bs, ker w (tr w) (SWrite fd bs))]"])

lemma says_fields: "says w fd out w' \<Longrightarrow> ker w' = ker w \<and> ufuel w' = ufuel w \<and> ended w' = ended w \<and>
    written fd (tr w') = written fd (tr w) @ out \<and> delivered d (tr w') = delivered d (tr w)"
  by (auto simp: says_def)

lemma read_u_more:
  assumes "input_ok (ker w) fd data" and "delivered fd (tr w) = d" and "data = d @ rest" and "rest \<noteq> []" and "0 < n"
  obtains bs w' more where "read_u fd buf m n w e = Ret (int (length bs), putb buf m bs) w' e" and "bs \<noteq> []"
    and "rest = bs @ more" and "length bs \<le> n" and "delivered fd (tr w') = d @ bs" and "ker w' = ker w"
    and "\<And>od. written od (tr w') = written od (tr w)" and "ended w' = ended w" and "ufuel w' = ufuel w"
proof -
  let ?r = "ker w (tr w) (SRead fd n)" let ?w = "w\<lparr>tr := tr w @ [(SRead fd n, ?r)]\<rparr>"
  have d: "data = delivered fd (tr w) @ rest" using assms(2,3) by simp
  obtain more where "rest = rbytes ?r @ more" "rv ?r = int (length (rbytes ?r))" "length (rbytes ?r) \<le> n"
      and e: "rbytes ?r = [] \<Longrightarrow> n = 0 \<or> rest = []"
    by (rule input_okD [OF assms(1) d, of n]) blast
  moreover from e have "rbytes ?r \<noteq> []" using assms(4,5) by auto
  ultimately show thesis using assms(2)
    by (intro that [of "rbytes ?r" ?w more])
      (simp_all add: read_u_def sys_def bind_apply ret_apply Let_def delivered_def written_def)
qed

lemma read_u_end:
  assumes "input_ok (ker w) fd data" and "delivered fd (tr w) = data"
  obtains w' where "read_u fd buf m n w e = Ret (0, buf) w' e" and "delivered fd (tr w') = data" and "ker w' = ker w"
    and "\<And>od. written od (tr w') = written od (tr w)" and "ended w' = ended w" and "ufuel w' = ufuel w"
proof -
  let ?r = "ker w (tr w) (SRead fd n)" let ?w = "w\<lparr>tr := tr w @ [(SRead fd n, ?r)]\<rparr>"
  have d: "data = delivered fd (tr w) @ []" using assms(2) by simp
  obtain more where "[] = rbytes ?r @ more" "rv ?r = int (length (rbytes ?r))"
    by (rule input_okD [OF assms(1) d, of n]) blast
  then have "rbytes ?r = []" "rv ?r = 0" by simp_all
  then show thesis using assms(2)
    by (intro that [of ?w]) (simp_all add: read_u_def sys_def bind_apply ret_apply Let_def delivered_def written_def putb_def)
qed

text \<open>A loop that reads until the input is used up.\<close>

lemma read_loop:
  assumes "P d i w" and "data = d @ rest" and "length rest < n"
    and step: "\<And>d i w rest. P d i w \<Longrightarrow> data = d @ rest \<Longrightarrow> rest \<noteq> [] \<Longrightarrow>
      \<exists>bs i' w' more. bs \<noteq> [] \<and> rest = bs @ more \<and> body i w e = Ret (Inl i') w' e \<and> P (d @ bs) i' w'"
    and stop: "\<And>i w. P data i w \<Longrightarrow> \<exists>x w'. body i w e = Ret (Inr x) w' e \<and> Q x w'"
  shows "\<exists>x w'. loop n body i w e = Ret x w' e \<and> Q x w'"
  using assms(1-3)
proof (induction n arbitrary: d i w rest)
  case (Suc n)
  show ?case
  proof (cases "rest = []")
    case True
    then show ?thesis using stop [of i w] Suc.prems by (auto simp: bind_apply ret_apply)
  next
    case False
    then obtain bs i' w' more where s: "bs \<noteq> []" "rest = bs @ more" "body i w e = Ret (Inl i') w' e" "P (d @ bs) i' w'"
      using step Suc.prems by blast
    have "length more < n" using s(1,2) Suc.prems(3) by (cases bs) auto
    then show ?thesis using Suc.IH [OF s(4), of more] Suc.prems(2) s(2,3) by (simp add: bind_apply)
  qed
qed simp

end
