(* ===== verification/Grep.thy ===== *)
theory Grep
  imports Uproc
begin

text \<open>
  \<^verbatim>\<open>user/grep.c\<close>: the regular-expression matcher of Kernighan and Pike, and the loop that reads
  lines and writes those that match. Strings are byte lists that end at the terminating zero, so
  \<^verbatim>\<open>*text == '\0'\<close> is the empty list.
\<close>

section \<open>The program\<close>

function matchhere :: "uint8 list \<Rightarrow> uint8 list \<Rightarrow> bool"
  and matchstar :: "uint8 \<Rightarrow> uint8 list \<Rightarrow> uint8 list \<Rightarrow> bool" where
  "matchhere [] text = True"
| "matchhere (r # re) text =
     (if re \<noteq> [] \<and> hd re = 42 then matchstar r (tl re) text
      else if r = 36 \<and> re = [] then text = []
      else case text of [] \<Rightarrow> False | t # text' \<Rightarrow> (r = 46 \<or> r = t) \<and> matchhere re text')"
| "matchstar c re text = (matchhere re text \<or>
     (case text of [] \<Rightarrow> False | t # text' \<Rightarrow> (t = c \<or> c = 46) \<and> matchstar c re text'))"
  by pat_completeness auto

termination
  by (relation "measures [case_sum (\<lambda>(re, t). length re) (\<lambda>(c, re, t). length re),
      case_sum (\<lambda>(re, t). length t) (\<lambda>(c, re, t). length t), case_sum (\<lambda>_. 0) (\<lambda>_. 1)]") auto

declare matchstar.simps [simp del]

fun match_from :: "uint8 list \<Rightarrow> uint8 list \<Rightarrow> bool" where
  "match_from re [] = matchhere re []"
| "match_from re (t # text) = (matchhere re (t # text) \<or> match_from re text)"

definition match :: "uint8 list \<Rightarrow> uint8 list \<Rightarrow> bool" where
  "match re text = (case re of r # re' \<Rightarrow> if r = 94 then matchhere re' text else match_from re text
     | [] \<Rightarrow> match_from re text)"

text \<open>
  The inner loop of \<open>grep\<close> on the characters \<open>p\<close> from the pointer of that name up to the
  terminating zero: it writes the lines that match and leaves the number of characters that are
  in no complete line. A line is matched as a string, so it ends at the newline.
\<close>

function grep_lines :: "uint8 list \<Rightarrow> uint8 list \<Rightarrow> ('a world_scheme, nat) kmon" where
  "grep_lines pattern p = (case strchr p 10 of None \<Rightarrow> ret (length p)
     | Some q \<Rightarrow> bind (whenM (match pattern (take q p)) (bind (write_u 1 (take (Suc q) p)) (\<lambda>_. ret ()))) (\<lambda>_.
         grep_lines pattern (drop (Suc q) p)))"
  by pat_completeness auto

termination
proof (relation "measure (length \<circ> snd)")
  fix p :: "uint8 list" and q
  assume "strchr p 10 = Some q"
  then have "p \<noteq> []" by auto
  then show "((pattern, drop (Suc q) p), pattern, p) \<in> measure (length \<circ> snd)" for pattern :: "uint8 list" by simp
qed simp

declare grep_lines.simps [simp del]

text \<open>
  One round of the outer loop: the state is \<open>buf\<close> and \<open>m\<close>, the number of characters carried over
  from the round before.
\<close>

definition grep_round :: "uint8 list \<Rightarrow> int \<Rightarrow> uint8 list \<times> nat \<Rightarrow>
    ('a world_scheme, (uint8 list \<times> nat) + unit) kmon" where
  "grep_round pattern fd = (\<lambda>(buf, m).
     bind (read_u fd buf m (1024 - m - 1)) (\<lambda>(n, buf).
     if \<not> n > 0 then ret (Inr ()) else
     let m = m + nat n; buf = buf[m := 0] in
     bind (grep_lines pattern (take m buf)) (\<lambda>k.
     ret (Inl (putb buf 0 (getb buf (m - k) k), k)))))"

definition grep :: "uint8 list \<Rightarrow> int \<Rightarrow> uint8 list \<Rightarrow> ('a world_scheme, unit) kmon" where
  "grep pattern fd buf = while_u (grep_round pattern fd) (buf, 0)"

definition grep_main :: "uint8 list list \<Rightarrow> ('a world_scheme, unit) kmon" where
  "grep_main argv = (let buf = replicate 1024 0 in
     if length argv \<le> 1 then bind (fprintf 2 (''usage: grep pattern [file ...]'' @ [CHR 0x0A]) []) (\<lambda>_. exit_u 1)
     else let pattern = argv ! 1 in
     if length argv \<le> 2 then bind (grep pattern 0 buf) (\<lambda>_. exit_u 0)
     else bind (for_each (drop 2 argv) (\<lambda>a.
       bind (call (SOpen a 0)) (\<lambda>fd.
       if fd < 0 then bind (printf_u (''grep: cannot open %s'' @ [CHR 0x0A]) [UStr (Some a)]) (\<lambda>_. exit_u 1)
       else bind (grep pattern fd buf) (\<lambda>_.
         bind (call (SClose fd)) (\<lambda>_. ret ()))))) (\<lambda>_. exit_u 0))"

section \<open>What a pattern means\<close>

text \<open>
  A pattern is a sequence of items: one character of a class, any number of them, or the end of
  the text. A text matches when it is the concatenation of one piece per item, followed by
  anything unless the last item is the end.
\<close>

datatype cls = Chr uint8 | Dot
datatype item = Once cls | Many cls | End

definition cls_of :: "uint8 \<Rightarrow> cls" where
  "cls_of c = (if c = 46 then Dot else Chr c)"

fun items_of :: "uint8 list \<Rightarrow> item list" where
  "items_of [] = []"
| "items_of [c] = (if c = 36 then [End] else [Once (cls_of c)])"
| "items_of (c # d # re) = (if d = 42 then Many (cls_of c) # items_of re else Once (cls_of c) # items_of (d # re))"

fun in_cls :: "cls \<Rightarrow> uint8 \<Rightarrow> bool" where
  "in_cls (Chr c) x = (x = c)"
| "in_cls Dot x = True"

fun denotes :: "item \<Rightarrow> uint8 list \<Rightarrow> bool" where
  "denotes (Once c) u = (\<exists>x. u = [x] \<and> in_cls c x)"
| "denotes (Many c) u = (\<forall>x \<in> set u. in_cls c x)"
| "denotes End u = (u = [])"

definition matches :: "item list \<Rightarrow> uint8 list \<Rightarrow> bool" where
  "matches is ts \<longleftrightarrow> (\<exists>us v. ts = concat us @ v \<and> list_all2 denotes is us \<and>
     (is \<noteq> [] \<and> last is = End \<longrightarrow> v = []))"

definition pattern_matches :: "uint8 list \<Rightarrow> uint8 list \<Rightarrow> bool" where
  "pattern_matches re ts \<longleftrightarrow> (if re \<noteq> [] \<and> hd re = 94 then matches (items_of (tl re)) ts
     else \<exists>pre post. ts = pre @ post \<and> matches (items_of re) post)"

lemma matches_Nil [simp]: "matches [] ts"
  by (simp add: matches_def)

lemma matches_End [simp]: "matches [End] ts \<longleftrightarrow> ts = []"
  by (auto simp: matches_def list_all2_Cons1 intro: exI [of _ "[[]]"])

lemma matches_Cons:
  assumes "i \<noteq> End"
  shows "matches (i # is) ts \<longleftrightarrow> (\<exists>u v. ts = u @ v \<and> denotes i u \<and> matches is v)"
proof
  assume "matches (i # is) ts"
  then obtain ws v where "ts = concat ws @ v" "list_all2 denotes (i # is) ws" "last (i # is) = End \<longrightarrow> v = []"
    unfolding matches_def by auto
  moreover from this obtain u us where "ws = u # us" by (auto simp: list_all2_Cons1)
  ultimately have "ts = u @ (concat us @ v)" "denotes i u" "list_all2 denotes is us" "is \<noteq> [] \<and> last is = End \<longrightarrow> v = []"
    by auto
  then have "ts = u @ (concat us @ v)" "denotes i u" "matches is (concat us @ v)"
    unfolding matches_def by blast+
  then show "\<exists>u v. ts = u @ v \<and> denotes i u \<and> matches is v" by blast
next
  assume "\<exists>u v. ts = u @ v \<and> denotes i u \<and> matches is v"
  then obtain u us v where "ts = u @ concat us @ v" "denotes i u" "list_all2 denotes is us"
      "is \<noteq> [] \<and> last is = End \<longrightarrow> v = []" unfolding matches_def by auto
  then show "matches (i # is) ts" using assms unfolding matches_def
    by (intro exI [of _ "u # us"] exI [of _ v]) auto
qed

lemma matches_Once: "matches (Once c # is) ts \<longleftrightarrow> (\<exists>x v. ts = x # v \<and> in_cls c x \<and> matches is v)"
proof
  assume "\<exists>x v. ts = x # v \<and> in_cls c x \<and> matches is v"
  then obtain x v where "ts = [x] @ v \<and> denotes (Once c) [x] \<and> matches is v" by auto
  then show "matches (Once c # is) ts" unfolding matches_Cons [OF item.distinct(3)] by blast
qed (auto simp: matches_Cons)

lemma matches_Many:
  "matches (Many c # is) ts \<longleftrightarrow> matches is ts \<or> (\<exists>x v. ts = x # v \<and> in_cls c x \<and> matches (Many c # is) v)"
proof
  assume "matches (Many c # is) ts"
  then obtain u v where uv: "ts = u @ v" "\<forall>x \<in> set u. in_cls c x" "matches is v" by (auto simp: matches_Cons)
  show "matches is ts \<or> (\<exists>x v. ts = x # v \<and> in_cls c x \<and> matches (Many c # is) v)"
  proof (cases u)
    case (Cons x u')
    then have "ts = x # (u' @ v)" "in_cls c x" "matches (Many c # is) (u' @ v)" using uv by (auto simp: matches_Cons)
    then show ?thesis by blast
  qed (use uv in simp)
next
  assume "matches is ts \<or> (\<exists>x v. ts = x # v \<and> in_cls c x \<and> matches (Many c # is) v)"
  then show "matches (Many c # is) ts"
  proof
    assume "matches is ts"
    then have "ts = [] @ ts \<and> denotes (Many c) [] \<and> matches is ts" by simp
    then show ?thesis unfolding matches_Cons [OF item.distinct(5)] by blast
  next
    assume "\<exists>x v. ts = x # v \<and> in_cls c x \<and> matches (Many c # is) v"
    then obtain x u v where "ts = x # u @ v" "in_cls c x" "\<forall>y \<in> set u. in_cls c y" "matches is v"
      by (auto simp: matches_Cons)
    then have "ts = (x # u) @ v \<and> denotes (Many c) (x # u) \<and> matches is v" by simp
    then show ?thesis unfolding matches_Cons [OF item.distinct(5)] by blast
  qed
qed

lemma in_cls_of [simp]: "in_cls (cls_of c) x \<longleftrightarrow> c = 46 \<or> x = c"
  by (simp add: cls_of_def)

lemma matchhere_iff: "matchhere re ts \<longleftrightarrow> matches (items_of re) ts"
  and matchstar_iff: "matchstar c re ts \<longleftrightarrow> matches (Many (cls_of c) # items_of re) ts"
proof (induction re ts and c re ts rule: matchhere_matchstar.induct)
  case (2 r re ts)
  show ?case
  proof (cases re)
    case Nil
    then show ?thesis using 2(2) by (cases ts) (auto simp: matches_Once)
  next
    case (Cons d re')
    then show ?thesis using 2 by (cases "d = 42"; cases ts) (simp_all add: matches_Once eq_commute)
  qed
next
  case (3 c re ts)
  show ?case unfolding matchstar.simps [of c re ts] matches_Many [of _ _ ts]
    using 3 by (cases ts) auto
qed simp

lemma match_from_iff: "match_from re ts \<longleftrightarrow> (\<exists>pre post. ts = pre @ post \<and> matches (items_of re) post)"
proof (induction ts)
  case (Cons t ts)
  then show ?case by (auto simp: matchhere_iff Cons_eq_append_conv)
qed (simp add: matchhere_iff)

lemma match_iff: "match re ts \<longleftrightarrow> pattern_matches re ts"
  by (auto simp: match_def pattern_matches_def matchhere_iff match_from_iff split: list.splits)

section \<open>Lines\<close>

text \<open>The complete lines of a text, without their newlines, and what follows the last of them.\<close>

fun split_lines :: "uint8 list \<Rightarrow> uint8 list list \<times> uint8 list" where
  "split_lines [] = ([], [])"
| "split_lines (c # cs) = (case split_lines cs of (ls, r) \<Rightarrow>
     if c = 10 then ([] # ls, r) else case ls of [] \<Rightarrow> ([], c # r) | l # ls' \<Rightarrow> ((c # l) # ls', r))"

definition selected :: "uint8 list \<Rightarrow> uint8 list list \<Rightarrow> uint8 list" where
  "selected re ls = concat (map (\<lambda>l. l @ [10]) (filter (pattern_matches re) ls))"

lemma selected_simps [simp]: "selected re [] = []" "selected re (ls @ ls') = selected re ls @ selected re ls'"
  "selected re (l # ls) = (if pattern_matches re l then l @ [10] else []) @ selected re ls"
  by (simp_all add: selected_def)

lemma split_lines_none: "10 \<notin> set cs \<Longrightarrow> split_lines cs = ([], cs)"
  by (induction cs) auto

lemma split_lines_line: "10 \<notin> set l \<Longrightarrow> split_lines (l @ 10 # cs) = (l # fst (split_lines cs), snd (split_lines cs))"
  by (induction l) (auto split: prod.splits)

lemma split_lines_append:
  "split_lines (xs @ ys) = (fst (split_lines xs) @ fst (split_lines (snd (split_lines xs) @ ys)),
     snd (split_lines (snd (split_lines xs) @ ys)))"
proof (induction xs)
  case (Cons x xs)
  then show ?case by (cases "split_lines xs"; cases "fst (split_lines xs)") (auto split: prod.splits list.splits)
qed simp

lemma split_lines_join: "concat (map (\<lambda>l. l @ [10]) (fst (split_lines xs))) @ snd (split_lines xs) = xs"
  and split_lines_rest: "10 \<notin> set (snd (split_lines xs))"
  by (induction xs) (auto split: prod.splits list.splits)

lemma strchr_newline:
  assumes "0 \<notin> set p"
  shows "strchr p 10 = None \<longleftrightarrow> 10 \<notin> set p"
    and "strchr p 10 = Some q \<Longrightarrow> q < length p \<and> p ! q = 10 \<and> 10 \<notin> set (take q p)"
  using assms by (induction p arbitrary: q) (auto split: if_splits)

lemma grep_lines_apply:
  assumes "0 \<notin> set p"
  shows "\<exists>w'. grep_lines re p w e = Ret (length (snd (split_lines p))) w' e \<and> says w 1 (selected re (fst (split_lines p))) w'"
  using assms
proof (induction re p arbitrary: w rule: grep_lines.induct)
  case (1 re p)
  show ?case
  proof (cases "strchr p 10")
    case None
    then show ?thesis using strchr_newline(1) [OF 1(2)] says_refl
      by (auto simp: grep_lines.simps [of re p] split_lines_none ret_apply)
  next
    case (Some q)
    let ?l = "take q p" let ?p = "drop (Suc q) p"
    have q: "q < length p" "p ! q = 10" "10 \<notin> set ?l" using strchr_newline(2) [OF 1(2) Some] by auto
    have sp: "split_lines p = (?l # fst (split_lines ?p), snd (split_lines ?p))"
      using split_lines_line [OF q(3), of ?p] id_take_nth_drop [OF q(1)] q(2) by simp
    have tk: "take (Suc q) p = ?l @ [10]" using q(1,2) by (simp add: take_Suc_conv_app_nth)
    have "\<exists>w1. whenM (match re ?l) (bind (write_u 1 (take (Suc q) p)) (\<lambda>_. ret ())) w e = Ret () w1 e \<and>
        says w 1 (if pattern_matches re ?l then ?l @ [10] else []) w1"
      using write_u_says [of 1 "?l @ [10]" w e] says_refl
      by (auto simp: whenM_def match_iff tk bind_apply ret_apply)
    then obtain w1 where w1: "whenM (match re ?l) (bind (write_u 1 (take (Suc q) p)) (\<lambda>_. ret ())) w e = Ret () w1 e"
        "says w 1 (if pattern_matches re ?l then ?l @ [10] else []) w1" by blast
    have "0 \<notin> set ?p" using 1(2) by (meson in_set_dropD)
    then obtain w2 where w2: "grep_lines re ?p w1 e = Ret (length (snd (split_lines ?p))) w2 e"
        "says w1 1 (selected re (fst (split_lines ?p))) w2" using 1(1) [OF Some, of w1] by blast
    have "grep_lines re p w e = Ret (length (snd (split_lines p))) w2 e"
      using w1(1) w2(1) Some by (simp add: grep_lines.simps [of re p] bind_apply sp)
    then show ?thesis using says_trans [OF w1(2) w2(2)] by (auto simp: sp)
  qed
qed

text \<open>Lines fit the buffer when no stretch without a newline is longer than 1022 characters.\<close>

definition lines_fit :: "uint8 list \<Rightarrow> bool" where
  "lines_fit data \<longleftrightarrow> (\<forall>pre seg post. data = pre @ seg @ post \<and> 10 \<notin> set seg \<longrightarrow> length seg \<le> 1022)"

lemma lines_fit_short: "length data \<le> 1022 \<Longrightarrow> lines_fit data"
  by (auto simp: lines_fit_def)

lemma rest_fits:
  assumes "lines_fit data" and "data = d @ rest"
  shows "length (snd (split_lines d)) \<le> 1022"
proof -
  have "data = concat (map (\<lambda>l. l @ [10]) (fst (split_lines d))) @ snd (split_lines d) @ rest"
    using split_lines_join [of d] assms(2) by (metis append.assoc)
  then show ?thesis using assms(1) split_lines_rest [of d] unfolding lines_fit_def by blast
qed

lemma putb_take: "length buf = 1024 \<Longrightarrow> m + length bs \<le> 1023 \<Longrightarrow>
    take (m + length bs) ((putb buf m bs)[m + length bs := 0]) = take m buf @ bs"
  by (simp add: putb_def)

lemma carry_over:
  assumes "k \<le> m" and "m \<le> length buf"
  shows "take k (putb buf 0 (getb buf (m - k) k)) = drop (m - k) (take m buf)"
    and "length (putb buf 0 (getb buf (m - k) k)) = length buf"
proof -
  have l: "length (getb buf (m - k) k) = k" using assms by simp
  then have "take k (putb buf 0 (getb buf (m - k) k)) = getb buf (m - k) k" by (simp add: putb_def)
  then show "take k (putb buf 0 (getb buf (m - k) k)) = drop (m - k) (take m buf)"
    using assms by (simp add: getb_def drop_take)
  show "length (putb buf 0 (getb buf (m - k) k)) = length buf" using assms l by (intro length_putb) simp
qed

lemma grep_loop:
  assumes "input_ok (ker w) fd data" and "0 \<notin> set data" and "lines_fit data"
    and "data = delivered fd (tr w) @ rest" and "length rest < n"
    and "length buf = 1024" and "take m buf = snd (split_lines (delivered fd (tr w)))"
    and "m = length (snd (split_lines (delivered fd (tr w))))"
  shows "\<exists>w' out. loop n (grep_round re fd) (buf, m) w e = Ret () w' e \<and>
     written 1 (tr w') = written 1 (tr w) @ out \<and>
     selected re (fst (split_lines (delivered fd (tr w)))) @ out = selected re (fst (split_lines data))"
  using assms
proof (induction n arbitrary: w rest buf m)
  case (Suc n)
  let ?d = "delivered fd (tr w)"
  let ?r = "ker w (tr w) (SRead fd (1023 - m))" let ?bs = "rbytes ?r"
  let ?w = "w\<lparr>tr := tr w @ [(SRead fd (1023 - m), ?r)]\<rparr>"
  have m: "m \<le> 1022" using rest_fits [OF Suc.prems(3,4)] Suc.prems(8) by simp
  obtain more where more: "rest = ?bs @ more" "rv ?r = int (length ?bs)" "length ?bs \<le> 1023 - m"
      "?bs = [] \<Longrightarrow> 1023 - m = 0 \<or> rest = []"
    using input_okD [OF Suc.prems(1,4)] by metis
  have rd: "read_u fd buf m (1024 - m - 1) w e = Ret (rv ?r, putb buf m ?bs) ?w e"
    by (simp add: read_u_def sys_def bind_apply ret_apply Let_def)
  have w: "ker ?w = ker w" "delivered fd (tr ?w) = ?d @ ?bs" "written 1 (tr ?w) = written 1 (tr w)"
    by (simp_all add: delivered_def written_def)
  show ?case
  proof (cases "?bs = []")
    case True
    then have "rest = []" using more(4) m by simp
    moreover have "loop (Suc n) (grep_round re fd) (buf, m) w e = Ret () ?w e"
      using rd more(2) True by (simp add: grep_round_def bind_apply ret_apply)
    ultimately show ?thesis using w Suc.prems(4) by (intro exI [of _ ?w] exI [of _ "[]"]) simp
  next
    case False
    let ?m = "m + length ?bs" let ?buf = "(putb buf m ?bs)[?m := 0]"
    have b: "length ?buf = 1024" "take ?m ?buf = take m buf @ ?bs"
      using m more(3) Suc.prems(6) putb_take [of buf m ?bs] by simp_all
    let ?t = "snd (split_lines ?d) @ ?bs" let ?k = "length (snd (split_lines ?t))"
    have "0 \<notin> set ?t" using Suc.prems(2,4) more(1) split_lines_join [of ?d] by (metis Un_iff set_append)
    then obtain w1 where w1: "grep_lines re ?t ?w e = Ret ?k w1 e" "says ?w 1 (selected re (fst (split_lines ?t))) w1"
      using grep_lines_apply by blast
    have f: "ker w1 = ker w" "delivered fd (tr w1) = ?d @ ?bs" "written 1 (tr w1) = written 1 (tr w) @ selected re (fst (split_lines ?t))"
      using says_fields [OF w1(2), of fd] w by simp_all
    have sp: "split_lines (?d @ ?bs) = (fst (split_lines ?d) @ fst (split_lines ?t), snd (split_lines ?t))"
      by (rule split_lines_append)
    let ?buf' = "putb ?buf 0 (getb ?buf (?m - ?k) ?k)"
    have t: "take ?m ?buf = ?t" using b(2) Suc.prems(7) by simp
    have "?k \<le> length ?t" using split_lines_join [of ?t] by (metis length_append le_add2)
    then have k: "?k \<le> ?m" using Suc.prems(8) by simp
    have mb: "?m \<le> length ?buf" using b(1) m more(3) by linarith
    have "take ?k ?buf' = drop (?m - ?k) (take ?m ?buf)" by (rule carry_over(1) [OF k mb])
    also have "\<dots> = snd (split_lines ?t)"
      unfolding t using split_lines_join [of ?t] Suc.prems(8) by (metis append_eq_conv_conj length_append add_diff_cancel_right')
    finally have tk: "take ?k ?buf' = snd (split_lines (?d @ ?bs))" by (simp add: sp)
    have step: "loop (Suc n) (grep_round re fd) (buf, m) w e = loop n (grep_round re fd) (?buf', ?k) w1 e"
      using rd more(2) False w1(1) t by (simp add: grep_round_def bind_apply ret_apply Let_def)
    have "0 < length ?bs" using False by simp
    then have pre: "data = delivered fd (tr w1) @ more" "length more < n"
      using Suc.prems(4,5) more(1) f(2) by (simp, simp del: length_greater_0_conv)
    have lb: "length ?buf' = 1024" using carry_over(2) [OF k mb] b(1) by simp
    note IH = Suc.IH [OF Suc.prems(1) [folded f(1)] Suc.prems(2,3) pre lb, of ?k, unfolded f(2), OF tk]
    from IH obtain w2 out where "loop n (grep_round re fd) (?buf', ?k) w1 e = Ret () w2 e"
        "written 1 (tr w2) = written 1 (tr w1) @ out"
        "selected re (fst (split_lines (?d @ ?bs))) @ out = selected re (fst (split_lines data))"
      by (auto simp: sp)
    then show ?thesis using step f(3) sp by (intro exI [of _ w2] exI [of _ "selected re (fst (split_lines ?t)) @ out"]) simp
  qed
qed simp

section \<open>Properties\<close>

text \<open>
  (C23) The matcher decides what patterns mean. For every pattern and text, \<open>match\<close> terminates and
  its result is the declarative meaning: with a leading \<^verbatim>\<open>^\<close> the items of the rest match at the
  start of the text, otherwise some suffix of the text matches; an item is a character, a dot, or
  one of them starred, and a final \<^verbatim>\<open>$\<close> stands for the end of the text.
\<close>

theorem match_meaning: "match re s = pattern_matches re s"
  by (rule match_iff)

text \<open>
  (C24) \<open>grep\<close> writes exactly the lines that match, in order, each with its newline, however \<open>read\<close>
  cuts the input into pieces. The input has no zero byte and no line too long for the buffer; an
  unfinished last line is not looked at. With one round per input byte, and one more, it returns.
\<close>

theorem grep_output:
  assumes "input_ok (ker w) fd data" and "delivered fd (tr w) = []" and "0 \<notin> set data" and "lines_fit data"
    and "length data < ufuel w" and "length buf = 1024"
  shows "\<exists>w'. grep re fd buf w e = Ret () w' e \<and>
    written 1 (tr w') = written 1 (tr w) @ selected re (fst (split_lines data))"
  using grep_loop [OF assms(1,3,4), of data "ufuel w" buf 0 re e] assms(2,5,6)
  by (auto simp: grep_def while_u_def bind_apply gets_apply)

text \<open>Witness: a kernel that delivers a two-line file one byte at a time.\<close>

definition one_byte_kernel :: "uint8 list \<Rightarrow> trace \<Rightarrow> ucall \<Rightarrow> sysret" where
  "one_byte_kernel data t c = (case c of
     SRead fd n \<Rightarrow> let bs = take (min n 1) (drop (length (delivered fd t)) data) in \<lparr>rv = int (length bs), rbytes = bs\<rparr>
   | _ \<Rightarrow> \<lparr>rv = 0, rbytes = []\<rparr>)"

lemma one_byte_input: "input_ok (one_byte_kernel data) fd data"
proof -
  have "take (min n 1) rest = [] \<longrightarrow> n = 0 \<or> rest = []" for n and rest :: "uint8 list"
    by (cases rest) auto
  moreover have "\<exists>more. rest = take (min n 1) rest @ more" for n and rest :: "uint8 list"
    by (rule exI [of _ "drop (min n 1) rest"]) simp
  ultimately show ?thesis
    by (auto simp: input_ok_def one_byte_kernel_def Let_def simp del: take_eq_Nil)
qed

theorem grep_output_witness:
  "\<exists>w'. grep [97, 36] 0 (replicate 1024 0) \<lparr>ker = one_byte_kernel [98, 97, 10, 97, 98, 10], tr = [], ended = None, ufuel = 7\<rparr> [] =
     Ret () w' [] \<and> written 1 (tr w') = [98, 97, 10]"
proof -
  let ?w = "\<lparr>ker = one_byte_kernel [98, 97, 10, 97, 98, 10], tr = [], ended = None, ufuel = 7\<rparr>"
  have "lines_fit [98, 97, 10, 97, 98, 10]" by (rule lines_fit_short) simp
  moreover have "pattern_matches [97, 36] [98, 97]" "\<not> pattern_matches [97, 36] [97, 98]"
    unfolding match_iff [symmetric] by (simp_all add: match_def)
  ultimately show ?thesis
    using grep_output [of ?w 0 "[98, 97, 10, 97, 98, 10]" "replicate 1024 0" "[97, 36]" "[]"] one_byte_input by simp
qed

end
