(* ===== verification/Ulib.thy ===== *)
theory Ulib
  imports Uproc
begin

text \<open>
  What the user library does: the string functions on memory, and formatted output with \<open>atoi\<close>
  as its inverse on numbers.
\<close>

section \<open>Strings in memory\<close>

text \<open>\<open>holds_str m a s\<close>: the C string \<open>s\<close> with its terminating zero is at address \<open>a\<close>.\<close>

definition holds_str :: "memory \<Rightarrow> uint64 \<Rightarrow> uint8 list \<Rightarrow> bool" where
  "holds_str m a s \<longleftrightarrow> 0 \<notin> set s \<and> load_bytes m a (Suc (length s)) = s @ [0]"

lemma load_bytes_Suc: "load_bytes m a (Suc n) = m a # load_bytes m (a + 1) n"
  unfolding load_bytes_def by (simp add: upt_rec [of 0 "Suc n"] map_Suc_upt [symmetric] add.assoc del: upt_Suc)

lemma holds_str_Nil [simp]: "holds_str m a [] \<longleftrightarrow> m a = 0"
  by (auto simp: holds_str_def load_bytes_Suc load_bytes_def)

lemma holds_str_Cons [simp]: "holds_str m a (c # s) \<longleftrightarrow> c \<noteq> 0 \<and> m a = c \<and> holds_str m (a + 1) s"
  by (auto simp: holds_str_def load_bytes_Suc [of m a "Suc (length s)"])

lemma holds_str_cong:
  "(\<And>i. i \<le> length s \<Longrightarrow> m (a + of_nat i) = m' (a + of_nat i)) \<Longrightarrow> holds_str m a s \<longleftrightarrow> holds_str m' a s"
proof (induction s arbitrary: a)
  case Nil
  then show ?case using Nil [of 0] by simp
next
  case (Cons c s)
  have "m a = m' a" using Cons.prems [of 0] by simp
  moreover have "holds_str m (a + 1) s \<longleftrightarrow> holds_str m' (a + 1) s"
  proof (rule Cons.IH)
    fix i assume "i \<le> length s"
    then show "m (a + 1 + of_nat i) = m' (a + 1 + of_nat i)" using Cons.prems [of "Suc i"] by (simp add: add.assoc)
  qed
  ultimately show ?case by simp
qed

lemma at_shift: "(\<lambda>i. at m a (Suc i)) = at m (a + 1)"
  by (simp add: at_def fun_eq_iff add.assoc)

lemma strcmp_at: "strcmp (at m a) (at m b) =
    (if m a \<noteq> 0 \<and> m a = m b then strcmp (at m (a + 1)) (at m (b + 1)) else Some (uint (m a) - uint (m b)))"
  unfolding strcmp.simps [of "at m a"] at_shift by (simp add: at_def)

lemma strcmp_apply: "holds_str m a s \<Longrightarrow> holds_str m b t \<Longrightarrow>
    \<exists>d. strcmp (at m a) (at m b) = Some d \<and> (d = 0 \<longleftrightarrow> s = t)"
proof (induction s arbitrary: a b t)
  case Nil
  then show ?case unfolding strcmp_at [of m a b] by (cases t) auto
next
  case (Cons c s)
  note IH = Cons.IH [of "a + 1" "b + 1" "tl t"]
  show ?case unfolding strcmp_at [of m a b] using Cons.prems IH by (cases t) (auto simp del: at_apply)
qed

lemma strlen_apply: "holds_str m a s \<Longrightarrow> strlen_u (at m a) = Some (length s)"
proof -
  assume h: "holds_str m a s"
  have "at m a i = (s @ [0]) ! i" if "i \<le> length s" for i
    using h that nth_load_bytes [of i "Suc (length s)" m a] by (simp add: holds_str_def)
  then have "at m a (length s) = 0" "\<forall>i < length s. at m a i \<noteq> 0"
    using h by (auto simp: holds_str_def nth_append in_set_conv_nth)
  then show ?thesis using strlen_eq [of "at m a" "length s"] by (simp add: strlen_u_def strlen_def)
qed

text \<open>\<open>strcpy\<close> to a place that does not overlap the source.\<close>

lemma strcpy_apply:
  assumes "holds_str m t xs" and "length xs < 2 ^ 63"
    and "\<And>i j. i \<le> length xs \<Longrightarrow> j \<le> length xs \<Longrightarrow> s + of_nat i \<noteq> t + of_nat j"
  shows "strcpy m s t = Some (store_bytes m s (xs @ [0]))"
  using assms
proof (induction xs arbitrary: m s t)
  case Nil
  then have "strcpy m s t = Some (m(s := 0))" by (simp add: strcpy.simps [of m] Let_def)
  moreover have "m(s := 0) = store_bytes m s [0]" by (auto simp: store_bytes_def fun_eq_iff unat_eq_0)
  ultimately show ?case by simp
next
  case (Cons x xs)
  let ?m = "m(s := x)"
  have x: "m t = x" "x \<noteq> 0" "holds_str m (t + 1) xs" using Cons.prems(1) by simp_all
  have h1: "holds_str ?m (t + 1) xs"
  proof (rule iffD1 [OF holds_str_cong x(3)])
    fix i assume "i \<le> length xs"
    then show "m (t + 1 + of_nat i) = ?m (t + 1 + of_nat i)"
      using Cons.prems(3) [of 0 "Suc i"] by (simp add: add.assoc)
  qed
  have h2: "s + 1 + of_nat i \<noteq> t + 1 + of_nat j" if "i \<le> length xs" "j \<le> length xs" for i j
    using Cons.prems(3) [of "Suc i" "Suc j"] that by (simp add: algebra_simps)
  have "strcpy ?m (s + 1) (t + 1) = Some (store_bytes ?m (s + 1) (xs @ [0]))"
    by (rule Cons.IH [OF h1 _ h2]) (use Cons.prems(2) in simp_all)
  moreover have "store_bytes ?m (s + 1) (xs @ [0]) = store_bytes m s (x # xs @ [0])"
  proof
    fix y
    show "store_bytes ?m (s + 1) (xs @ [0]) y = store_bytes m s (x # xs @ [0]) y"
    proof (cases "y = s")
      case True
      have "unat (- 1 :: uint64) = 2 ^ 64 - 1" by (simp add: unsigned_minus_1_eq_mask mask_eq_exp_minus_1)
      then show ?thesis using True Cons.prems(2) by (simp add: store_bytes_def)
    next
      case False
      then have "unat (y - s) \<noteq> 0" by (simp add: unat_eq_0)
      then have "unat (y - (s + 1)) = unat (y - s) - 1"
        using unat_minus_one [of "y - s"] unfolding shift_off by (simp add: unat_eq_0)
      then show ?thesis using False \<open>unat (y - s) \<noteq> 0\<close> by (cases "unat (y - s)") (auto simp: store_bytes_def)
    qed
  qed
  ultimately show ?case using x by (simp add: strcpy.simps [of m s] Let_def)
qed

section \<open>Formatted output\<close>

text \<open>The digits of a number, and what the directives of a format stand for.\<close>

definition numeral_u :: "nat \<Rightarrow> bool \<Rightarrow> int \<Rightarrow> uint8 list" where
  "numeral_u base sgnd xx = (let neg = sgnd \<and> xx < 0;
       x = (if neg then - word_of_int xx else word_of_int xx) :: uint32
     in (if neg then [45] else []) @ rev (digits_rev_u base (unat x)))"

definition hex16_u :: "uint64 \<Rightarrow> uint8 list" where
  "hex16_u x = map (\<lambda>i. digits_u ! unat (drop_bit 60 (push_bit (4 * i) x))) [0..<16]"

fun render_u :: "bool \<Rightarrow> uint8 list \<Rightarrow> uarg list \<Rightarrow> uint8 list option" where
  "render_u state [] ap = Some []"
| "render_u False (c # fmt) ap = (if c = 37 then render_u True fmt ap else map_option ((#) c) (render_u False fmt ap))"
| "render_u True (c # fmt) ap =
    (if c = 37 then map_option ((#) 37) (render_u False fmt ap)
     else if c \<notin> {100, 108, 120, 112, 115, 99} then map_option ((@) [37, c]) (render_u False fmt ap)
     else case ap of [] \<Rightarrow> None | a # ap' \<Rightarrow>
       (case (if c = 100 then (case a of UInt i \<Rightarrow> Some (numeral_u 10 True i) | _ \<Rightarrow> None)
         else if c = 108 then (case a of ULong x \<Rightarrow> Some (numeral_u 10 False (sint (ucast x :: uint32))) | _ \<Rightarrow> None)
         else if c = 120 then (case a of UInt i \<Rightarrow> Some (numeral_u 16 False i) | _ \<Rightarrow> None)
         else if c = 112 then (case a of ULong x \<Rightarrow> Some ([48, 120] @ hex16_u x) | _ \<Rightarrow> None)
         else if c = 115 then (case a of UStr s \<Rightarrow> Some (case s of None \<Rightarrow> bytes_of ''(null)'' | Some s \<Rightarrow> s) | _ \<Rightarrow> None)
         else (case a of UInt i \<Rightarrow> Some [word_of_int i] | _ \<Rightarrow> None))
        of None \<Rightarrow> None | Some out \<Rightarrow> map_option ((@) out) (render_u False fmt ap')))"

text \<open>\<open>prints_u m fd out\<close>: the program fragment \<open>m\<close> returns, having written exactly \<open>out\<close>.\<close>

definition prints_u :: "('a world_scheme, unit) kmon \<Rightarrow> int \<Rightarrow> uint8 list \<Rightarrow> bool" where
  "prints_u m fd out \<longleftrightarrow> (\<forall>w e. \<exists>w'. m w e = Ret () w' e \<and> says w fd out w')"

lemma prints_u_ret: "prints_u (ret ()) fd []"
  using says_refl by (auto simp: prints_u_def ret_apply)

lemma prints_u_bind:
  assumes "prints_u m fd a" and "prints_u n fd b"
  shows "prints_u (bind m (\<lambda>_. n)) fd (a @ b)"
  unfolding prints_u_def
proof (intro allI)
  fix w e
  obtain w1 where w1: "m w e = Ret () w1 e" "says w fd a w1" using assms(1) unfolding prints_u_def by blast
  obtain w2 where w2: "n w1 e = Ret () w2 e" "says w1 fd b w2" using assms(2) unfolding prints_u_def by blast
  show "\<exists>w'. bind m (\<lambda>_. n) w e = Ret () w' e \<and> says w fd (a @ b) w'"
    using w1(1) w2(1) says_trans [OF w1(2) w2(2)] by (auto simp: bind_apply)
qed

lemma prints_u_putc: "prints_u (putc_u fd c) fd [c]"
  unfolding prints_u_def
proof (intro allI)
  fix w e
  obtain n w' where "write_u fd [c] w e = Ret n w' e" "says w fd [c] w'" using write_u_says by blast
  then show "\<exists>w'. putc_u fd c w e = Ret () w' e \<and> says w fd [c] w'" by (auto simp: putc_u_def bind_apply ret_apply)
qed

lemma prints_u_each: "(\<And>c. prints_u (f c) fd (g c)) \<Longrightarrow> prints_u (for_each cs f) fd (concat (map g cs))"
  by (induction cs) (simp_all add: prints_u_ret prints_u_bind)

lemma prints_u_str: "prints_u (for_each s (putc_u fd)) fd s"
  using prints_u_each [of "putc_u fd" fd "\<lambda>c. [c]" s, OF prints_u_putc] by simp

lemma prints_u_int: "prints_u (printint_u fd i base sgnd) fd (numeral_u base sgnd i)"
  using prints_u_str [of "numeral_u base sgnd i" fd] 
  by (cases "sgnd \<and> i < 0") (auto simp: printint_u_def numeral_u_def Let_def)

lemma prints_u_ptr: "prints_u (printptr_u fd x) fd ([48, 120] @ hex16_u x)"
proof -
  have "prints_u (for_each [0..<16] (\<lambda>i. putc_u fd (digits_u ! unat (drop_bit 60 (push_bit (4 * i) x))))) fd (hex16_u x)"
    using prints_u_each [of "\<lambda>i. putc_u fd (digits_u ! unat (drop_bit 60 (push_bit (4 * i) x)))" fd
        "\<lambda>i. [digits_u ! unat (drop_bit 60 (push_bit (4 * i) x))]" "[0..<16]", OF prints_u_putc]
    by (simp add: hex16_u_def)
  from prints_u_bind [OF prints_u_putc prints_u_bind [OF prints_u_putc this]]
  show ?thesis by (simp add: printptr_u_def)
qed

lemmas prints_u_parts = prints_u_ret prints_u_bind [OF prints_u_putc, simplified] prints_u_bind [OF prints_u_int]
  prints_u_bind [OF prints_u_ptr, simplified] prints_u_bind [OF prints_u_str]

lemma vprintf_arg:
  assumes "render_u True (c # fmt) ap = Some out" and "c \<in> {100, 108, 120, 112, 115, 99}"
    and IH: "\<And>out. render_u False fmt (tl ap) = Some out \<Longrightarrow> prints_u (vprintf_loop fd False fmt (tl ap) :: ('a world_scheme, unit) kmon) fd out"
  shows "prints_u (vprintf_loop fd True (c # fmt) ap :: ('a world_scheme, unit) kmon) fd out"
proof -
  have "ap \<noteq> []" using assms(1,2) by auto
  then obtain a ap' where ap: "ap = a # ap'" by (cases ap) auto
  from assms(2) consider "c = 100" | "c = 108" | "c = 120" | "c = 112" | "c = 115" | "c = 99" by blast
  then show ?thesis
  proof cases
    case 1
    then show ?thesis using assms(1) IH ap by (cases a) (auto simp: va_int_def intro!: prints_u_parts)
  next
    case 2
    then show ?thesis using assms(1) IH ap by (cases a) (auto simp: va_long_def intro!: prints_u_parts)
  next
    case 3
    then show ?thesis using assms(1) IH ap by (cases a) (auto simp: va_int_def intro!: prints_u_parts)
  next
    case 4
    then show ?thesis using assms(1) IH ap by (cases a) (auto simp: va_long_def intro!: prints_u_parts)
  next
    case 5
    then show ?thesis using assms(1) IH ap by (cases a) (auto simp: va_str_def intro!: prints_u_parts)
  next
    case 6
    then show ?thesis using assms(1) IH ap by (cases a) (auto simp: va_int_def intro!: prints_u_parts)
  qed
qed

lemma vprintf_loop_prints: "render_u state fmt ap = Some out \<Longrightarrow> prints_u (vprintf_loop fd state fmt ap) fd out"
proof (induction fmt arbitrary: state ap out)
  case (Cons c fmt)
  show ?case
  proof (cases state)
    case False
    then show ?thesis using Cons by (cases "c = 37") (auto simp: prints_u_parts)
  next
    case True
    consider "c = 37" | "c \<noteq> 37" "c \<notin> {100, 108, 120, 112, 115, 99}" | "c \<in> {100, 108, 120, 112, 115, 99}" by blast
    then show ?thesis
    proof cases
      case 1
      then show ?thesis using True Cons by (auto simp: prints_u_parts)
    next
      case 2
      then show ?thesis using True Cons by (auto simp: prints_u_parts)
    next
      case 3
      have st: "state = True" using True by simp
      show ?thesis unfolding st by (rule vprintf_arg [OF Cons.prems [unfolded st] 3 Cons.IH])
    qed
  qed
qed (simp add: prints_u_ret)

lemma digits_u_nth: "d < 10 \<Longrightarrow> digits_u ! d = of_nat (48 + d)"
proof -
  assume "d < 10"
  moreover have "\<forall>d \<in> set [0..<10]. digits_u ! d = of_nat (48 + d)"
    by (simp add: upt_rec digits_u_def bytes_of_def of_char_def)
  ultimately show ?thesis by simp
qed

lemma digits_rev_u_10: "digits_rev_u 10 x = of_nat (48 + x mod 10) # (if x < 10 then [] else digits_rev_u 10 (x div 10))"
  using digits_rev_u.simps [of 10 x] by (simp add: digits_u_nth div_eq_0_iff)

lemma atoi_from_append:
  "\<forall>c \<in> set xs. 48 \<le> c \<and> c \<le> 57 \<Longrightarrow> atoi_from n (xs @ ys) = atoi_from (atoi_from n xs) ys"
  by (induction xs arbitrary: n) auto

lemma digit_range: "48 \<le> (of_nat (48 + x mod 10) :: uint8)" "(of_nat (48 + x mod 10) :: uint8) \<le> 57"
  "ucast (of_nat (48 + x mod 10) :: uint8) = (of_nat (48 + x mod 10) :: uint32)"
proof -
  have "x mod 10 < 10" by simp
  then have u: "unat (of_nat (48 + x mod 10) :: uint8) = 48 + x mod 10" by (intro unat_of_nat_eq) simp
  then show "48 \<le> (of_nat (48 + x mod 10) :: uint8)" "(of_nat (48 + x mod 10) :: uint8) \<le> 57"
    using \<open>x mod 10 < 10\<close> by (simp_all add: word_le_nat_alt del: of_nat_add)
  have "unat (ucast (of_nat (48 + x mod 10) :: uint8) :: uint32) = 48 + x mod 10"
    unfolding unsigned_ucast_eq u using \<open>x mod 10 < 10\<close> by (intro take_bit_nat_eq_self) simp
  moreover have "unat (of_nat (48 + x mod 10) :: uint32) = 48 + x mod 10"
    using \<open>x mod 10 < 10\<close> by (intro unat_of_nat_eq) simp
  ultimately show "ucast (of_nat (48 + x mod 10) :: uint8) = (of_nat (48 + x mod 10) :: uint32)"
    by (metis unsigned_word_eqI)
qed

lemma atoi_digits: "atoi_from 0 (rev (digits_rev_u 10 x)) = of_nat x \<and> (\<forall>c \<in> set (digits_rev_u 10 x). 48 \<le> c \<and> c \<le> 57)"
proof (induction x rule: less_induct)
  case (less x)
  let ?d = "of_nat (48 + x mod 10) :: uint8"
  have step: "atoi_from n [?d] = n * 10 + of_nat (x mod 10)" for n
    using digit_range [of x] by simp
  show ?case
  proof (cases "x < 10")
    case True
    then show ?thesis using step [of 0] digit_range [of x] by (simp add: digits_rev_u_10 [of x])
  next
    case False
    then have IH: "atoi_from 0 (rev (digits_rev_u 10 (x div 10))) = of_nat (x div 10)"
      "\<forall>c \<in> set (digits_rev_u 10 (x div 10)). 48 \<le> c \<and> c \<le> 57" using less [of "x div 10"] by simp_all
    have "atoi_from 0 (rev (digits_rev_u 10 x)) = of_nat (x div 10) * 10 + of_nat (x mod 10)"
      using False IH step by (simp add: digits_rev_u_10 [of x] atoi_from_append)
    also have "\<dots> = (of_nat (x div 10 * 10 + x mod 10) :: uint32)" by (simp only: of_nat_add of_nat_mult of_nat_numeral)
    finally show ?thesis using False IH digit_range [of x] by (simp add: digits_rev_u_10 [of x])
  qed
qed

lemma atoi_numeral: "0 \<le> n \<Longrightarrow> n < 2 ^ 31 \<Longrightarrow> atoi (numeral_u 10 True n) = n"
proof -
  assume n: "0 \<le> n" "n < 2 ^ 31"
  have "unat (word_of_int n :: uint32) = nat n" using n by (simp add: unsigned_of_int take_bit_int_eq_self)
  then have "atoi_from 0 (numeral_u 10 True n) = word_of_int n" using n atoi_digits [of "nat n"] by (simp add: numeral_u_def)
  moreover have "sint (word_of_int n :: uint32) = n" using n by (simp add: signed_of_int signed_take_bit_int_eq_self)
  ultimately show ?thesis by (simp add: atoi_def)
qed

section \<open>Properties\<close>

text \<open>
  (C25) The string functions of the user library. When a string is at \<open>t\<close> and the place at \<open>s\<close> does
  not overlap it, \<open>strcpy\<close> returns; then \<open>strlen\<close> of the copy is the length of the string,
  \<open>strcmp\<close> finds the copy and the original equal, and no byte outside the copy has changed.
\<close>

theorem strcpy_strcmp:
  assumes "holds_str m t xs" and "length xs < 2 ^ 63"
    and "\<forall>i j. i \<le> length xs \<longrightarrow> j \<le> length xs \<longrightarrow> s + of_nat i \<noteq> t + of_nat j"
  shows "\<exists>m'. strcpy m s t = Some m' \<and> strlen_u (at m' s) = Some (length xs) \<and>
    strcmp (at m' s) (at m' t) = Some 0 \<and> (\<forall>y. unat (y - s) > length xs \<longrightarrow> m' y = m y)"
proof -
  let ?m = "store_bytes m s (xs @ [0])"
  have run: "strcpy m s t = Some ?m" using assms by (intro strcpy_apply) auto
  have "holds_str ?m s xs" using assms(1,2) by (simp add: holds_str_def load_store_bytes)
  moreover have "holds_str ?m t xs"
  proof (rule iffD1 [OF holds_str_cong assms(1)])
    fix j assume j: "j \<le> length xs"
    have "unat (t + of_nat j - s) > length xs"
    proof (rule ccontr)
      assume "\<not> unat (t + of_nat j - s) > length xs"
      moreover have "s + of_nat (unat (t + of_nat j - s)) = t + of_nat j" by simp
      ultimately show False using assms(3) j by (meson not_le)
    qed
    then show "m (t + of_nat j) = ?m (t + of_nat j)" by (simp add: store_bytes_def)
  qed
  ultimately show ?thesis using run strlen_apply [of ?m s xs] strcmp_apply [of ?m s xs t xs]
    by (auto simp: store_bytes_def simp del: at_apply)
qed

theorem strcpy_strcmp_witness:
  "\<exists>m'. strcpy (store_bytes (\<lambda>_. 0) 100 [65, 66, 0]) 200 100 = Some m' \<and> strcmp (at m' 200) (at m' 100) = Some 0"
proof -
  have "holds_str (store_bytes (\<lambda>_. 0) 100 [65, 66, 0]) 100 [65, 66]"
    by (simp add: holds_str_def load_store_bytes)
  moreover have "\<forall>i j. i \<le> length [65 :: uint8, 66] \<longrightarrow> j \<le> length [65 :: uint8, 66] \<longrightarrow> (200 :: uint64) + of_nat i \<noteq> 100 + of_nat j"
  proof (intro allI impI)
    fix i j assume "i \<le> length [65 :: uint8, 66]" "j \<le> length [65 :: uint8, 66]"
    then have "unat (200 + of_nat i :: uint64) = 200 + i" "unat (100 + of_nat j :: uint64) = 100 + j" "j \<le> 2"
      using unat_add_nat [of "200 :: uint64" i] unat_add_nat [of "100 :: uint64" j] by simp_all
    then have "unat (200 + of_nat i :: uint64) \<noteq> unat (100 + of_nat j :: uint64)" by linarith
    then show "(200 :: uint64) + of_nat i \<noteq> 100 + of_nat j" by metis
  qed
  ultimately show ?thesis using strcpy_strcmp [of "store_bytes (\<lambda>_. 0) 100 [65, 66, 0]" 100 "[65, 66]" 200]
    by (auto simp del: at_apply)
qed

text \<open>
  (C26) The \<open>memmove\<close> of the user library, which only compares the two pointers, computes the same
  memory as the kernel's, which tests for overlap; both ranges lie within the address space.
\<close>

theorem memmove_u_equiv:
  assumes "unat src + n < 2 ^ 64" and "unat dst + n \<le> 2 ^ 64"
  shows "memmove_u m dst src (int n) = memmove m dst src n"
proof
  fix x
  have "memmove_u m dst src (int n) x = (if unat (x - dst) < n then m (src + (x - dst)) else m x)"
    using assms copy_up_apply [of src n dst m x] copy_down_apply [of src n dst m x]
    by (auto simp: memmove_u_def word_less_nat_alt)
  then show "memmove_u m dst src (int n) x = memmove m dst src n x" using assms by (simp add: memmove_apply)
qed

theorem memmove_u_equiv_witness:
  "memmove_u (store_bytes (\<lambda>_. 0) 100 [1, 2, 3]) 101 100 3 = memmove (store_bytes (\<lambda>_. 0) 100 [1, 2, 3]) 101 100 3"
  using memmove_u_equiv [of 100 3 101] by simp

text \<open>
  (C27) Formatted output and \<open>atoi\<close>. Whatever the kernel answers, \<open>fprintf\<close> with arguments that fit
  its format returns after writing exactly the rendering of the format; and \<open>atoi\<close> reads back
  every non-negative \<^verbatim>\<open>int\<close> that \<^verbatim>\<open>%d\<close> printed.
\<close>

theorem fprintf_atoi:
  assumes "render_u False (bytes_of fmt) ap = Some out" and "0 \<le> n" and "n < 2 ^ 31"
  shows "(\<exists>w'. fprintf fd fmt ap w e = Ret () w' e \<and> written fd (tr w') = written fd (tr w) @ out) \<and>
    render_u False (bytes_of ''%d'') [UInt n] = Some (numeral_u 10 True n) \<and> atoi (numeral_u 10 True n) = n"
proof -
  have "\<exists>w'. fprintf fd fmt ap w e = Ret () w' e \<and> says w fd out w'"
    using vprintf_loop_prints [OF assms(1), of fd] unfolding fprintf_def vprintf_def prints_u_def by blast
  then show ?thesis using says_fields atoi_numeral [OF assms(2,3)] by (fastforce simp: bytes_of_def of_char_def)
qed

theorem fprintf_atoi_witness:
  "\<exists>w'. fprintf 1 ''%d%%'' [UInt 42] \<lparr>ker = (\<lambda>_ _. \<lparr>rv = 1, rbytes = []\<rparr>), tr = [], ended = None, ufuel = 0\<rparr> [] = Ret () w' [] \<and>
     written 1 (tr w') = [52, 50, 37]"
proof -
  have "render_u False (bytes_of ''%d%%'') [UInt 42] = Some [52, 50, 37]"
    by (simp add: bytes_of_def of_char_def numeral_u_def digits_rev_u_10)
  from fprintf_atoi [OF this, of 42 1 "\<lparr>ker = (\<lambda>_ _. \<lparr>rv = 1, rbytes = []\<rparr>), tr = [], ended = None, ufuel = 0\<rparr>" "[]"]
  show ?thesis by simp
qed

end
