(* ===== verification/Utils.thy ===== *)
theory Utils
  imports Ulib
begin

text \<open>
  The small user programs, each its \<^verbatim>\<open>main\<close> on the list of its arguments: \<^verbatim>\<open>cat\<close>, \<^verbatim>\<open>echo\<close>, \<^verbatim>\<open>wc\<close>,
  \<^verbatim>\<open>kill\<close>, \<^verbatim>\<open>ln\<close>, \<^verbatim>\<open>mkdir\<close>, \<^verbatim>\<open>rm\<close>, \<^verbatim>\<open>ls\<close>, \<^verbatim>\<open>init\<close>, \<^verbatim>\<open>zombie\<close>, \<^verbatim>\<open>forktest\<close> and \<^verbatim>\<open>stressfs\<close>.
\<close>

section \<open>cat, echo, wc\<close>

definition nl :: string where
  "nl = [CHR 0x0A]"

definition cat_round :: "int \<Rightarrow> uint8 list \<Rightarrow> ('a world_scheme, uint8 list + int) kmon" where
  "cat_round fd buf = bind (read_u fd buf 0 512) (\<lambda>(n, buf).
     if \<not> n > 0 then ret (Inr n) else
     bind (write_u 1 (take (nat n) buf)) (\<lambda>m.
     if m \<noteq> n then bind (fprintf 2 (''cat: write error'' @ nl) []) (\<lambda>_. exit_u 1)
     else ret (Inl buf)))"

definition cat :: "int \<Rightarrow> uint8 list \<Rightarrow> ('a world_scheme, unit) kmon" where
  "cat fd buf = bind (while_u (cat_round fd) buf) (\<lambda>n.
     whenM (n < 0) (bind (fprintf 2 (''cat: read error'' @ nl) []) (\<lambda>_. exit_u 1)))"

definition cat_main :: "uint8 list list \<Rightarrow> ('a world_scheme, unit) kmon" where
  "cat_main argv = (let buf = replicate 512 0 in
     if length argv \<le> 1 then bind (cat 0 buf) (\<lambda>_. exit_u 0)
     else bind (for_each (drop 1 argv) (\<lambda>a.
       bind (call (SOpen a 0)) (\<lambda>fd.
       if fd < 0 then bind (fprintf 2 (''cat: cannot open %s'' @ nl) [UStr (Some a)]) (\<lambda>_. exit_u 1)
       else bind (cat fd buf) (\<lambda>_.
         bind (call (SClose fd)) (\<lambda>_. ret ()))))) (\<lambda>_. exit_u 0))"

definition echo_main :: "uint8 list list \<Rightarrow> ('a world_scheme, unit) kmon" where
  "echo_main argv = bind (for_each [1..<length argv] (\<lambda>i.
     bind (write_u 1 (argv ! i)) (\<lambda>_.
     bind (if i + 1 < length argv then write_u 1 [32] else write_u 1 [10]) (\<lambda>_. ret ())))) (\<lambda>_. exit_u 0)"

text \<open>The counters of \<^verbatim>\<open>wc\<close> for one character; they are 32-bit \<^verbatim>\<open>int\<close>s.\<close>

record wcount =
  wc_l :: uint32
  wc_w :: uint32
  wc_c :: uint32
  wc_inword :: bool

definition wc_char :: "uint8 \<Rightarrow> wcount \<Rightarrow> wcount" where
  "wc_char x k = (let k = k\<lparr>wc_c := wc_c k + 1\<rparr>;
       k = (if x = 10 then k\<lparr>wc_l := wc_l k + 1\<rparr> else k)
     in if strchr [32, 13, 9, 10, 11] x \<noteq> None then k\<lparr>wc_inword := False\<rparr>
       else if \<not> wc_inword k then k\<lparr>wc_w := wc_w k + 1, wc_inword := True\<rparr> else k)"

definition wc_round :: "int \<Rightarrow> uint8 list \<times> wcount \<Rightarrow> ('a world_scheme, (uint8 list \<times> wcount) + int \<times> wcount) kmon" where
  "wc_round fd = (\<lambda>(buf, k). bind (read_u fd buf 0 512) (\<lambda>(n, buf).
     if \<not> n > 0 then ret (Inr (n, k)) else ret (Inl (buf, fold wc_char (take (nat n) buf) k))))"

definition wc :: "int \<Rightarrow> uint8 list \<Rightarrow> uint8 list \<Rightarrow> ('a world_scheme, unit) kmon" where
  "wc fd name buf = bind (while_u (wc_round fd) (buf, \<lparr>wc_l = 0, wc_w = 0, wc_c = 0, wc_inword = False\<rparr>)) (\<lambda>(n, k).
     if n < 0 then bind (printf_u (''wc: read error'' @ nl) []) (\<lambda>_. exit_u 1)
     else printf_u (''%d %d %d %s'' @ nl) [UInt (sint (wc_l k)), UInt (sint (wc_w k)), UInt (sint (wc_c k)), UStr (Some name)])"

definition wc_main :: "uint8 list list \<Rightarrow> ('a world_scheme, unit) kmon" where
  "wc_main argv = (let buf = replicate 512 0 in
     if length argv \<le> 1 then bind (wc 0 [] buf) (\<lambda>_. exit_u 0)
     else bind (for_each (drop 1 argv) (\<lambda>a.
       bind (call (SOpen a 0)) (\<lambda>fd.
       if fd < 0 then bind (printf_u (''wc: cannot open %s'' @ nl) [UStr (Some a)]) (\<lambda>_. exit_u 1)
       else bind (wc fd a buf) (\<lambda>_.
         bind (call (SClose fd)) (\<lambda>_. ret ()))))) (\<lambda>_. exit_u 0))"

section \<open>kill, ln, mkdir, rm\<close>

definition kill_main :: "uint8 list list \<Rightarrow> ('a world_scheme, unit) kmon" where
  "kill_main argv = (if length argv < 2 then bind (fprintf 2 (''usage: kill pid...'' @ nl) []) (\<lambda>_. exit_u 1)
     else bind (for_each (drop 1 argv) (\<lambda>a. bind (call (SKill (atoi a))) (\<lambda>_. ret ()))) (\<lambda>_. exit_u 0))"

definition ln_main :: "uint8 list list \<Rightarrow> ('a world_scheme, unit) kmon" where
  "ln_main argv = (if length argv \<noteq> 3 then bind (fprintf 2 (''Usage: ln old new'' @ nl) []) (\<lambda>_. exit_u 1)
     else bind (call (SLink (argv ! 1) (argv ! 2))) (\<lambda>r.
       bind (whenM (r < 0) (fprintf 2 (''link %s %s: failed'' @ nl) [UStr (Some (argv ! 1)), UStr (Some (argv ! 2))])) (\<lambda>_.
       exit_u 0)))"

text \<open>A loop over the arguments that stops at the first failure, as in \<^verbatim>\<open>mkdir\<close> and \<^verbatim>\<open>rm\<close>.\<close>

definition mkdir_main :: "uint8 list list \<Rightarrow> ('a world_scheme, unit) kmon" where
  "mkdir_main argv = (if length argv < 2 then bind (fprintf 2 (''Usage: mkdir files...'' @ nl) []) (\<lambda>_. exit_u 1)
     else bind (for_find (drop 1 argv) (\<lambda>a. bind (call (SMkdir a)) (\<lambda>r.
       if r < 0 then bind (fprintf 2 (''mkdir: %s failed to create'' @ nl) [UStr (Some a)]) (\<lambda>_. ret (Some ()))
       else ret None))) (\<lambda>_. exit_u 0))"

definition rm_main :: "uint8 list list \<Rightarrow> ('a world_scheme, unit) kmon" where
  "rm_main argv = (if length argv < 2 then bind (fprintf 2 (''Usage: rm files...'' @ nl) []) (\<lambda>_. exit_u 1)
     else bind (for_find (drop 1 argv) (\<lambda>a. bind (call (SUnlink a)) (\<lambda>r.
       if r < 0 then bind (fprintf 2 (''rm: %s failed to delete'' @ nl) [UStr (Some a)]) (\<lambda>_. ret (Some ()))
       else ret None))) (\<lambda>_. exit_u 0))"

section \<open>ls\<close>

text \<open>
  The last element of a path, padded with blanks to \<open>DIRSIZ\<close> characters. The result points into a
  static buffer whose last byte stays zero.
\<close>

definition fmtname :: "uint8 list \<Rightarrow> uint8 list" where
  "fmtname path = (let p = rev (takeWhile (\<lambda>c. c \<noteq> 47) (rev path)) in
     if length p \<ge> DIRSIZ then p else p @ replicate (DIRSIZ - length p) 32)"

definition stat_of :: "uint8 list \<Rightarrow> stat" where
  "stat_of d = \<lparr>st_dev = get32 d 0, st_ino = get32 d 4, st_type = get16 d 8, st_nlink = get16 d 10,
     st_size = of_le (getb d 16 8)\<rparr>"

definition ls_entry :: "uint8 list \<Rightarrow> uint8 list \<Rightarrow> ('a world_scheme, unit) kmon" where
  "ls_entry path de = (if de_inum (dirent_of de) = 0 then ret () else
     let buf = path @ [47] @ takeWhile (\<lambda>c. c \<noteq> 0) (de_name (dirent_of de)) in
     bind (stat_u buf) (\<lambda>(r, st).
     if r < 0 then printf_u (''ls: cannot stat %s'' @ nl) [UStr (Some buf)]
     else printf_u (''%s %d %d %d'' @ nl) [UStr (Some (fmtname buf)), UInt (sint (st_type (stat_of st))),
       UInt (sint (st_ino (stat_of st))), UInt (sint (ucast (st_size (stat_of st)) :: uint32))]))"

definition ls_dir :: "uint8 list \<Rightarrow> int \<Rightarrow> ('a world_scheme, unit) kmon" where
  "ls_dir path fd = while_u (\<lambda>de. bind (read_u fd de 0 16) (\<lambda>(n, de).
     if n \<noteq> 16 then ret (Inr ()) else bind (ls_entry path de) (\<lambda>_. ret (Inl de)))) (replicate 16 0)"

definition ls :: "uint8 list \<Rightarrow> ('a world_scheme, unit) kmon" where
  "ls path = bind (call (SOpen path 0)) (\<lambda>fd.
     if fd < 0 then fprintf 2 (''ls: cannot open %s'' @ nl) [UStr (Some path)] else
     bind (sys (SFstat fd)) (\<lambda>r.
     if rv r < 0 then bind (fprintf 2 (''ls: cannot stat %s'' @ nl) [UStr (Some path)]) (\<lambda>_.
       bind (call (SClose fd)) (\<lambda>_. ret ()))
     else let st = stat_of (rbytes r) in
     bind (if st_type st = T_DEVICE \<or> st_type st = T_FILE then
         printf_u (''%s %d %d %l'' @ nl) [UStr (Some (fmtname path)), UInt (sint (st_type st)), UInt (sint (st_ino st)), ULong (st_size st)]
       else if st_type st = T_DIR then
         if length path + 1 + DIRSIZ + 1 > 512 then printf_u (''ls: path too long'' @ nl) []
         else ls_dir path fd
       else ret ()) (\<lambda>_.
     bind (call (SClose fd)) (\<lambda>_. ret ()))))"

definition ls_main :: "uint8 list list \<Rightarrow> ('a world_scheme, unit) kmon" where
  "ls_main argv = (if length argv < 2 then bind (ls [46]) (\<lambda>_. exit_u 0)
     else bind (for_each (drop 1 argv) ls) (\<lambda>_. exit_u 0))"

section \<open>init\<close>

text \<open>The two endless loops of \<^verbatim>\<open>init\<close>: reap children until the shell exits, then start it again.\<close>

definition init_reap :: "int \<Rightarrow> ('a world_scheme, unit) kmon" where
  "init_reap pid = while_u (\<lambda>_. bind (call SWait) (\<lambda>wpid.
     if wpid = pid then ret (Inr ())
     else if wpid < 0 then bind (printf_u (''init: wait returned an error'' @ nl) []) (\<lambda>_. exit_u 1)
     else ret (Inl ()))) ()"

definition init_round :: "unit \<Rightarrow> ('a world_scheme, unit + unit) kmon" where
  "init_round = (\<lambda>_. bind (printf_u (''init: starting sh'' @ nl) []) (\<lambda>_.
     bind (call SFork) (\<lambda>pid.
     if pid < 0 then bind (printf_u (''init: fork failed'' @ nl) []) (\<lambda>_. exit_u 1)
     else if pid = 0 then
       bind (exec_u (bytes_of ''sh'') [bytes_of ''sh'']) (\<lambda>_.
       bind (printf_u (''init: exec sh failed'' @ nl) []) (\<lambda>_. exit_u 1))
     else bind (init_reap pid) (\<lambda>_. ret (Inl ())))))"

definition init_main :: "('a world_scheme, unit) kmon" where
  "init_main = bind (call (SOpen (bytes_of ''console'') 2)) (\<lambda>r.
     bind (whenM (r < 0)
       (bind (call (SMknod (bytes_of ''console'') 1 0)) (\<lambda>_.
        bind (call (SOpen (bytes_of ''console'') 2)) (\<lambda>_. ret ())))) (\<lambda>_.
     bind (call (SDup 0)) (\<lambda>_.
     bind (call (SDup 0)) (\<lambda>_.
     while_u init_round ()))))"

section \<open>zombie, forktest, stressfs\<close>

definition zombie_main :: "('a world_scheme, unit) kmon" where
  "zombie_main = bind (call SFork) (\<lambda>pid.
     bind (whenM (pid > 0) (bind (call (SSleep 5)) (\<lambda>_. ret ()))) (\<lambda>_.
     exit_u 0))"

definition forktest_print :: "string \<Rightarrow> ('a world_scheme, unit) kmon" where
  "forktest_print s = bind (write_u 1 (bytes_of s)) (\<lambda>_. ret ())"

text \<open>The first loop leaves with the number of children that were made.\<close>

definition forktest :: "('a world_scheme, unit) kmon" where
  "forktest = bind (forktest_print (''fork test'' @ nl)) (\<lambda>_.
     bind (for_find [0..<1000] (\<lambda>n. bind (call SFork) (\<lambda>pid.
       if pid < 0 then ret (Some n) else if pid = 0 then exit_u 0 else ret None))) (\<lambda>r.
     case r of None \<Rightarrow> bind (forktest_print (''fork claimed to work N times!'' @ nl)) (\<lambda>_. exit_u 1)
     | Some n \<Rightarrow> bind (for_each [0..<n] (\<lambda>_. bind (call SWait) (\<lambda>w.
         whenM (w < 0) (bind (forktest_print (''wait stopped early'' @ nl)) (\<lambda>_. exit_u 1))))) (\<lambda>_.
       bind (call SWait) (\<lambda>w.
       bind (whenM (w \<noteq> - 1) (bind (forktest_print (''wait got too many'' @ nl)) (\<lambda>_. exit_u 1))) (\<lambda>_.
       forktest_print (''fork test OK'' @ nl))))))"

definition forktest_main :: "('a world_scheme, unit) kmon" where
  "forktest_main = bind forktest (\<lambda>_. exit_u 0)"

text \<open>A parent leaves the loop with the index of its child; the last child leaves it with 4.\<close>

definition stressfs_main :: "('a world_scheme, unit) kmon" where
  "stressfs_main = bind (printf_u (''stressfs starting'' @ nl) []) (\<lambda>_.
     bind (for_find [0..<4] (\<lambda>i. bind (call SFork) (\<lambda>pid.
       if pid > 0 then ret (Some i) else ret None))) (\<lambda>r.
     let i = (case r of Some i \<Rightarrow> i | None \<Rightarrow> 4); data = replicate 512 97;
       path = bytes_of ''stressfs'' @ [48 + of_nat i] in
     bind (printf_u (''write %d'' @ nl) [UInt (int i)]) (\<lambda>_.
     bind (call (SOpen path 0x202)) (\<lambda>fd.
     bind (for_each [0..<20::nat] (\<lambda>_. bind (write_u fd data) (\<lambda>_. ret ()))) (\<lambda>_.
     bind (call (SClose fd)) (\<lambda>_.
     bind (printf_u (''read'' @ nl) []) (\<lambda>_.
     bind (call (SOpen path 0)) (\<lambda>fd.
     bind (for_each [0..<20::nat] (\<lambda>_. bind (read_u fd data 0 512) (\<lambda>_. ret ()))) (\<lambda>_.
     bind (call (SClose fd)) (\<lambda>_.
     bind (call SWait) (\<lambda>_.
     exit_u 0)))))))))))"

section \<open>Properties of cat and wc\<close>

text \<open>Lines, words and characters of a text.\<close>

definition blank :: "uint8 \<Rightarrow> bool" where
  "blank x \<longleftrightarrow> x \<in> {32, 13, 9, 10, 11}"

definition word_starts :: "uint8 list \<Rightarrow> nat" where
  "word_starts s = card {i. i < length s \<and> \<not> blank (s ! i) \<and> (i = 0 \<or> blank (s ! (i - 1)))}"

lemma strchr_blank: "strchr [32, 13, 9, 10, 11] x \<noteq> None \<longleftrightarrow> blank x"
  by (auto simp: blank_def)

lemma word_starts_snoc:
  "word_starts (s @ [x]) = word_starts s + (if \<not> blank x \<and> (s = [] \<or> blank (last s)) then 1 else 0)"
proof -
  let ?W = "\<lambda>s. {i. i < length s \<and> \<not> blank (s ! i) \<and> (i = 0 \<or> blank (s ! (i - 1)))}"
  have "?W (s @ [x]) = ?W s \<union> (if \<not> blank x \<and> (s = [] \<or> blank (last s)) then {length s} else {})"
    by (cases "s = []") (auto simp: nth_append less_Suc_eq last_conv_nth split: if_splits)
  moreover have "finite (?W s)" "length s \<notin> ?W s" by simp_all
  ultimately show ?thesis by (simp add: word_starts_def)
qed

definition wc_of :: "uint8 list \<Rightarrow> wcount" where
  "wc_of s = \<lparr>wc_l = of_nat (length (filter (\<lambda>x. x = 10) s)), wc_w = of_nat (word_starts s),
     wc_c = of_nat (length s), wc_inword = (s \<noteq> [] \<and> \<not> blank (last s))\<rparr>"

lemma wc_char_of: "wc_char x (wc_of s) = wc_of (s @ [x])"
  unfolding wc_char_def Let_def strchr_blank wc_of_def word_starts_snoc
  by (auto simp: blank_def)

lemma wc_fold: "fold wc_char s (wc_of t) = wc_of (t @ s)"
  by (induction s arbitrary: t) (simp_all add: wc_char_of)

lemma wc_of_Nil: "wc_of [] = \<lparr>wc_l = 0, wc_w = 0, wc_c = 0, wc_inword = False\<rparr>"
  by (simp add: wc_of_def word_starts_def)

lemma wc_loop:
  assumes "input_ok (ker w) fd data" and "delivered fd (tr w) = []" and "length data < ufuel w" and "length buf = 512"
  shows "\<exists>w'. while_u (wc_round fd) (buf, wc_of []) w e = Ret (0, wc_of data) w' e \<and>
     written 1 (tr w') = written 1 (tr w) \<and> ended w' = ended w"
proof -
  let ?P = "\<lambda>d (buf :: uint8 list, k) w'. k = wc_of d \<and> length buf = 512 \<and> delivered fd (tr w') = d \<and> ker w' = ker w \<and>
    written 1 (tr w') = written 1 (tr w) \<and> ended w' = ended w"
  have "\<exists>x w'. loop (ufuel w) (wc_round fd) (buf, wc_of []) w e = Ret x w' e \<and>
      (x = (0, wc_of data) \<and> written 1 (tr w') = written 1 (tr w) \<and> ended w' = ended w)"
  proof (rule read_loop [where data = data and d = "[]" and P = ?P])
    fix d i rest and v :: "'a world_scheme"
    assume "?P d i v" and d: "data = d @ rest" and ne: "rest \<noteq> []"
    then obtain b where i: "i = (b, wc_of d)" "length b = 512" "delivered fd (tr v) = d" "ker v = ker w"
        "written 1 (tr v) = written 1 (tr w)" "ended v = ended w" by (cases i) auto
    obtain bs v' more where r: "read_u fd b 0 512 v e = Ret (int (length bs), putb b 0 bs) v' e" "bs \<noteq> []"
        "rest = bs @ more" "length bs \<le> 512" "delivered fd (tr v') = d @ bs" "ker v' = ker w"
        "written 1 (tr v') = written 1 (tr w)" "ended v' = ended w"
      by (rule read_u_more [of v fd data d rest 512 b 0 e]) (use assms(1) i d ne in simp_all)
    have "take (length bs) (putb b 0 bs) = bs" by (simp add: putb_def)
    then have "wc_round fd i v e = Ret (Inl (putb b 0 bs, wc_of (d @ bs))) v' e"
      using r(1,2) i(1) by (simp add: wc_round_def bind_apply ret_apply wc_fold)
    then show "\<exists>bs i' w' more. bs \<noteq> [] \<and> rest = bs @ more \<and> wc_round fd i v e = Ret (Inl i') w' e \<and> ?P (d @ bs) i' w'"
      using r i(2) by (intro exI [of _ bs] exI [of _ "(putb b 0 bs, wc_of (d @ bs))"] exI [of _ v'] exI [of _ more]) simp
  next
    fix i and v :: "'a world_scheme"
    assume "?P data i v"
    then obtain b where i: "i = (b, wc_of data)" "delivered fd (tr v) = data" "ker v = ker w"
        "written 1 (tr v) = written 1 (tr w)" "ended v = ended w" by (cases i) auto
    obtain v' where "read_u fd b 0 512 v e = Ret (0, b) v' e" "written 1 (tr v') = written 1 (tr v)" "ended v' = ended v"
      by (rule read_u_end [of v fd data b 0 512 e]) (use assms(1) i in simp_all)
    then show "\<exists>x w'. wc_round fd i v e = Ret (Inr x) w' e \<and>
        (x = (0, wc_of data) \<and> written 1 (tr w') = written 1 (tr w) \<and> ended w' = ended w)"
      using i by (simp add: wc_round_def bind_apply ret_apply)
  qed (use assms in simp_all)
  then show ?thesis by (auto simp: while_u_def bind_apply gets_apply)
qed

lemma fprintf_run: "render_u False (bytes_of fmt) ap = Some out \<Longrightarrow> \<exists>w'. fprintf fd fmt ap w e = Ret () w' e \<and> says w fd out w'"
  using vprintf_loop_prints [of False "bytes_of fmt" ap out fd] unfolding fprintf_def vprintf_def prints_u_def by blast

definition writes_all :: "(trace \<Rightarrow> ucall \<Rightarrow> sysret) \<Rightarrow> int \<Rightarrow> bool" where
  "writes_all k fd \<longleftrightarrow> (\<forall>t bs. rv (k t (SWrite fd bs)) = int (length bs))"

lemma cat_loop:
  assumes "input_ok (ker w) fd data" and "data = delivered fd (tr w) @ rest" and "length rest < n" and "length buf = 512"
  shows "\<exists>w'. loop n (cat_round fd) buf w e = Ret 0 w' e \<and> written 1 (tr w') = written 1 (tr w) @ rest \<or>
     loop n (cat_round fd) buf w e = Blocked w' \<and> ended w' = Some (Exited 1) \<and> \<not> writes_all (ker w) 1"
  using assms
proof (induction n arbitrary: w rest buf)
  case (Suc n)
  show ?case
  proof (cases "rest = []")
    case True
    then have "delivered fd (tr w) = data" using Suc.prems(2) by simp
    then obtain w' where "read_u fd buf 0 512 w e = Ret (0, buf) w' e" "written 1 (tr w') = written 1 (tr w)"
      by (rule read_u_end [OF Suc.prems(1)]) blast
    then show ?thesis using True by (intro exI [of _ w'] disjI1) (simp add: cat_round_def bind_apply ret_apply)
  next
    case False
    obtain bs w1 more where r: "read_u fd buf 0 512 w e = Ret (int (length bs), putb buf 0 bs) w1 e" "bs \<noteq> []"
        "rest = bs @ more" "length bs \<le> 512" "delivered fd (tr w1) = delivered fd (tr w) @ bs" "ker w1 = ker w"
        "written 1 (tr w1) = written 1 (tr w)"
      by (rule read_u_more [of w fd data "delivered fd (tr w)" rest 512 buf 0 e]) (use Suc.prems False in simp_all)
    let ?c = "SWrite 1 bs" let ?w = "w1\<lparr>tr := tr w1 @ [(?c, ker w (tr w1) ?c)]\<rparr>"
    have tk: "take (length bs) (putb buf 0 bs) = bs" by (simp add: putb_def)
    have wr: "write_u 1 bs w1 e = Ret (rv (ker w (tr w1) ?c)) ?w e"
      by (simp add: write_u_def call_def sys_def bind_apply ret_apply Let_def r(6))
    show ?thesis
    proof (cases "rv (ker w (tr w1) ?c) = int (length bs)")
      case True
      have "loop (Suc n) (cat_round fd) buf w e = loop n (cat_round fd) (putb buf 0 bs) ?w e"
        using r(1,2) tk wr True by (simp add: cat_round_def bind_apply ret_apply)
      moreover have "length more < n" using Suc.prems(3) r(2,3) by (cases bs) auto
      ultimately show ?thesis using Suc.IH [of ?w more "putb buf 0 bs"] Suc.prems r(3-7)
        by (simp add: delivered_def written_def)
    next
      case False
      have "render_u False (bytes_of (''cat: write error'' @ nl)) [] = Some (bytes_of (''cat: write error'' @ nl))"
        by (simp add: bytes_of_def nl_def of_char_def)
      then obtain w2 where "fprintf 2 (''cat: write error'' @ nl) [] ?w e = Ret () w2 e" using fprintf_run by blast
      then have "loop (Suc n) (cat_round fd) buf w e = Blocked (w2\<lparr>ended := Some (Exited 1)\<rparr>)"
        using r(1,2) tk wr False by (simp add: cat_round_def bind_apply exit_u_def modify_apply blocked_apply)
      moreover have "\<not> writes_all (ker w) 1" using False by (auto simp: writes_all_def)
      ultimately show ?thesis by (intro exI [of _ "w2\<lparr>ended := Some (Exited 1)\<rparr>"] disjI2) simp
    qed
  qed
qed simp


text \<open>
  (C29) \<open>wc\<close> prints the number of newlines, of words and of bytes of its input, in decimal, and the
  name; a word is a maximal stretch of non-blank characters, wherever \<open>read\<close> cuts the input.
\<close>

theorem wc_output:
  assumes "input_ok (ker w) fd data" and "delivered fd (tr w) = []" and "length data < ufuel w" and "length buf = 512"
    and "length data < 2 ^ 31"
  shows "\<exists>w'. wc fd name buf w e = Ret () w' e \<and> written 1 (tr w') = written 1 (tr w) @
    numeral_u 10 True (int (length (filter (\<lambda>x. x = 10) data))) @ [32] @
    numeral_u 10 True (int (word_starts data)) @ [32] @ numeral_u 10 True (int (length data)) @ [32] @ name @ [10]"
    (is "\<exists>w'. _ \<and> _ = _ @ ?out")
proof -
  obtain w1 where w1: "while_u (wc_round fd) (buf, wc_of []) w e = Ret (0, wc_of data) w1 e"
      "written 1 (tr w1) = written 1 (tr w)"
    using wc_loop [OF assms(1-4)] by blast
  have "word_starts data \<le> length data"
    unfolding word_starts_def by (rule order_trans [OF card_mono [of "{..<length data}"]]) auto
  moreover have "length (filter (\<lambda>x. x = 10) data) < 2 ^ 31"
    using assms(5) by (rule le_less_trans [OF length_filter_le])
  moreover have "sint (of_nat k :: uint32) = int k" if "k < 2 ^ 31" for k
    using that by (simp add: signed_of_nat signed_take_bit_int_eq_self)
  ultimately have cnt: "sint (wc_l (wc_of data)) = int (length (filter (\<lambda>x. x = 10) data))"
      "sint (wc_w (wc_of data)) = int (word_starts data)" "sint (wc_c (wc_of data)) = int (length data)"
    using assms(5) by (simp_all add: wc_of_def)
  have ren: "render_u False (bytes_of (''%d %d %d %s'' @ nl)) [UInt a, UInt b, UInt c, UStr (Some name)] =
      Some (numeral_u 10 True a @ [32] @ numeral_u 10 True b @ [32] @ numeral_u 10 True c @ [32] @ name @ [10])" for a b c
    by (simp add: bytes_of_def nl_def of_char_def)
  obtain w2 where "printf_u (''%d %d %d %s'' @ nl) [UInt (sint (wc_l (wc_of data))), UInt (sint (wc_w (wc_of data))),
      UInt (sint (wc_c (wc_of data))), UStr (Some name)] w1 e = Ret () w2 e" "says w1 1 ?out w2"
    using fprintf_run [OF ren, where fd = 1 and w = w1 and e = e] unfolding cnt [symmetric] fprintf_def printf_u_def by blast
  then show ?thesis using w1 says_fields [of w1 1 ?out w2]
    by (auto simp: wc_def bind_apply wc_of_Nil [symmetric])
qed

text \<open>Witnesses: a kernel that delivers what is left of a file at once and takes all that is written.\<close>

definition file_kernel :: "uint8 list \<Rightarrow> trace \<Rightarrow> ucall \<Rightarrow> sysret" where
  "file_kernel data t c = (case c of
     SRead fd n \<Rightarrow> let bs = take n (drop (length (delivered fd t)) data) in \<lparr>rv = int (length bs), rbytes = bs\<rparr>
   | SWrite fd bs \<Rightarrow> \<lparr>rv = int (length bs), rbytes = []\<rparr>
   | _ \<Rightarrow> \<lparr>rv = 0, rbytes = []\<rparr>)"

lemma file_kernel_ok: "input_ok (file_kernel data) fd data" "writes_all (file_kernel data) fd"
proof -
  have "\<exists>more. rest = take n rest @ more" for n and rest :: "uint8 list"
    by (rule exI [of _ "drop n rest"]) simp
  then show "input_ok (file_kernel data) fd data" by (auto simp: input_ok_def file_kernel_def Let_def)
  show "writes_all (file_kernel data) fd" by (simp add: writes_all_def file_kernel_def)
qed


theorem wc_output_witness:
  "\<exists>w'. wc 0 [] (replicate 512 0) \<lparr>ker = file_kernel [97, 10], tr = [], ended = None, ufuel = 3\<rparr> [] = Ret () w' [] \<and>
     written 1 (tr w') = [49, 32, 49, 32, 50, 32, 10]"
proof -
  have "word_starts ([] @ [97]) = 1" "word_starts ([97] @ [10]) = word_starts [97]"
    unfolding word_starts_snoc by (simp_all add: blank_def word_starts_def)
  then show ?thesis
    using wc_output [of "\<lparr>ker = file_kernel [97, 10], tr = [], ended = None, ufuel = 3\<rparr>" 0 "[97, 10]" "replicate 512 0" "[]" "[]"]
      file_kernel_ok(1) by (simp add: numeral_u_def digits_rev_u_10)
qed

end
