(* ===== verification/Sh.thy ===== *)
theory Sh
  imports Ulib
begin

text \<open>
  The shell, \<^verbatim>\<open>user/sh.c\<close>. The command structures are a datatype over the type of their words: the
  parser makes words that are ranges of the input line, as the pointer pairs \<^verbatim>\<open>q\<close>, \<^verbatim>\<open>eq\<close> of the
  code, and \<open>nulterminate\<close> turns them into strings. Pointers into the line are positions; reading
  at its end gives the terminating zero. The constructors allocate with \<open>malloc\<close> and do not check
  for failure, which is not modelled. The recursion of the parser has a bound on its depth;
  \<open>Inl\<close> is a message of \<open>panic\<close>, or \<open>None\<close> when the bound was too small.
\<close>

section \<open>Commands\<close>

datatype 'w cmd = Exec "'w list" | Redir "'w cmd" 'w int int | Pipe "'w cmd" "'w cmd" | List "'w cmd" "'w cmd"
  | Back "'w cmd"

abbreviation (input) MAXARGS :: nat where "MAXARGS \<equiv> 10"

definition panic_u :: "string \<Rightarrow> ('a world_scheme, 'b) kmon" where
  "panic_u s = bind (fprintf 2 (''%s'' @ [CHR 0x0A]) [UStr (Some (bytes_of s))]) (\<lambda>_. exit_u 1)"

definition fork1 :: "('a world_scheme, int) kmon" where
  "fork1 = bind (call SFork) (\<lambda>pid. if pid = - 1 then panic_u ''fork'' else ret pid)"

text \<open>\<^verbatim>\<open>pipe(p)\<close>: the result and the two descriptors.\<close>

definition pipe_u :: "('a world_scheme, int \<times> int \<times> int) kmon" where
  "pipe_u = bind (sys SPipe) (\<lambda>r.
     ret (rv r, sint (get32 (rbytes r) 0), sint (get32 (rbytes r) 4)))"

primrec runcmd :: "uint8 list cmd \<Rightarrow> ('a world_scheme, unit) kmon" where
  "runcmd (Exec argv) = (if argv = [] then exit_u 1 else
     bind (exec_u (hd argv) argv) (\<lambda>_.
     bind (fprintf 2 (''exec %s failed'' @ [CHR 0x0A]) [UStr (Some (hd argv))]) (\<lambda>_.
     exit_u 0)))"
| "runcmd (Redir c file mode fd) = bind (call (SClose fd)) (\<lambda>_.
     bind (call (SOpen file mode)) (\<lambda>r.
     if r < 0 then bind (fprintf 2 (''open %s failed'' @ [CHR 0x0A]) [UStr (Some file)]) (\<lambda>_. exit_u 1)
     else bind (runcmd c) (\<lambda>_. exit_u 0)))"
| "runcmd (List l r) = bind fork1 (\<lambda>pid.
     bind (whenM (pid = 0) (runcmd l)) (\<lambda>_.
     bind (call SWait) (\<lambda>_.
     bind (runcmd r) (\<lambda>_. exit_u 0))))"
| "runcmd (Pipe l r) = bind pipe_u (\<lambda>(n, p0, p1).
     if n < 0 then panic_u ''pipe'' else
     bind fork1 (\<lambda>pid.
     bind (whenM (pid = 0)
       (bind (call (SClose 1)) (\<lambda>_. bind (call (SDup p1)) (\<lambda>_. bind (call (SClose p0)) (\<lambda>_.
        bind (call (SClose p1)) (\<lambda>_. runcmd l)))))) (\<lambda>_.
     bind fork1 (\<lambda>pid.
     bind (whenM (pid = 0)
       (bind (call (SClose 0)) (\<lambda>_. bind (call (SDup p0)) (\<lambda>_. bind (call (SClose p0)) (\<lambda>_.
        bind (call (SClose p1)) (\<lambda>_. runcmd r)))))) (\<lambda>_.
     bind (call (SClose p0)) (\<lambda>_.
     bind (call (SClose p1)) (\<lambda>_.
     bind (call SWait) (\<lambda>_.
     bind (call SWait) (\<lambda>_.
     exit_u 0)))))))))"
| "runcmd (Back c) = bind fork1 (\<lambda>pid.
     bind (whenM (pid = 0) (runcmd c)) (\<lambda>_.
     exit_u 0))"

section \<open>Tokens\<close>

definition whitespace :: "uint8 list" where
  "whitespace = [32, 9, 13, 10, 11]"

definition symbols :: "uint8 list" where
  "symbols = bytes_of ''<|>&;()''"

text \<open>\<^verbatim>\<open>strchr\<close> as a test, and \<^verbatim>\<open>*s\<close> for a position of the line.\<close>

definition among :: "uint8 list \<Rightarrow> uint8 \<Rightarrow> bool" where
  "among cs c \<longleftrightarrow> strchr cs c \<noteq> None"

definition rd :: "uint8 list \<Rightarrow> nat \<Rightarrow> uint8" where
  "rd b s = (if s < length b then b ! s else 0)"

function skip_ws :: "uint8 list \<Rightarrow> nat \<Rightarrow> nat" where
  "skip_ws b s = (if s < length b \<and> among whitespace (b ! s) then skip_ws b (Suc s) else s)"
  by pat_completeness auto

termination by (relation "measure (\<lambda>(b, s). length b - s)") auto

function skip_word :: "uint8 list \<Rightarrow> nat \<Rightarrow> nat" where
  "skip_word b s = (if s < length b \<and> \<not> among whitespace (b ! s) \<and> \<not> among symbols (b ! s)
     then skip_word b (Suc s) else s)"
  by pat_completeness auto

termination by (relation "measure (\<lambda>(b, s). length b - s)") auto

declare skip_ws.simps [simp del] skip_word.simps [simp del]

text \<open>The kind of token, its range in the line, and the position after it and the blanks that follow.\<close>

definition gettoken :: "uint8 list \<Rightarrow> nat \<Rightarrow> uint8 \<times> (nat \<times> nat) \<times> nat" where
  "gettoken b s = (let q = skip_ws b s; c = rd b q;
     (r, eq) = (if c = 0 then (0, q)
        else if c \<in> {124, 40, 41, 59, 38, 60} then (c, q + 1)
        else if c = 62 then (if rd b (q + 1) = 62 then (43, q + 2) else (c, q + 1))
        else (97, skip_word b q))
     in (r, (q, eq), skip_ws b eq))"

definition peek :: "uint8 list \<Rightarrow> nat \<Rightarrow> string \<Rightarrow> bool \<times> nat" where
  "peek b s toks = (let s = skip_ws b s in (rd b s \<noteq> 0 \<and> among (bytes_of toks) (rd b s), s))"

section \<open>The parser\<close>

type_synonym word_range = "nat \<times> nat"
type_synonym 'r parse = "string option + 'r"

text \<open>
  \<^verbatim>\<open>cmd->argv[argc] = q\<close> of \<open>parseexec\<close>: the \<open>Exec\<close> may already be inside redirections, and the
  assignment goes through the pointer to it.
\<close>

primrec add_arg :: "'w \<Rightarrow> 'w cmd \<Rightarrow> 'w cmd" where
  "add_arg a (Exec argv) = Exec (argv @ [a])"
| "add_arg a (Redir c file mode fd) = Redir (add_arg a c) file mode fd"
| "add_arg a (Pipe l r) = Pipe l r"
| "add_arg a (List l r) = List l r"
| "add_arg a (Back c) = Back c"

fun parseredirs :: "nat \<Rightarrow> uint8 list \<Rightarrow> word_range cmd \<Rightarrow> nat \<Rightarrow> (word_range cmd \<times> nat) parse" where
  "parseredirs 0 b cmd s = Inl None"
| "parseredirs (Suc n) b cmd s = (case peek b s ''<>'' of (p, s) \<Rightarrow>
     if \<not> p then Inr (cmd, s) else
     case gettoken b s of (tok, _, s) \<Rightarrow>
     case gettoken b s of (t, w, s) \<Rightarrow>
     if t \<noteq> 97 then Inl (Some ''missing file for redirection'') else
     parseredirs n b (if tok = 60 then Redir cmd w 0 0
       else if tok = 62 then Redir cmd w 0x601 1
       else if tok = 43 then Redir cmd w 0x201 1 else cmd) s)"

text \<open>The argument loop of \<open>parseexec\<close>.\<close>

fun parseargs :: "nat \<Rightarrow> uint8 list \<Rightarrow> nat \<Rightarrow> word_range cmd \<Rightarrow> nat \<Rightarrow> (word_range cmd \<times> nat) parse" where
  "parseargs 0 b argc cmd s = Inl None"
| "parseargs (Suc n) b argc cmd s = (case peek b s ''|)&;'' of (p, s) \<Rightarrow>
     if p then Inr (cmd, s) else
     case gettoken b s of (tok, w, s) \<Rightarrow>
     if tok = 0 then Inr (cmd, s)
     else if tok \<noteq> 97 then Inl (Some ''syntax'')
     else if argc + 1 \<ge> MAXARGS then Inl (Some ''too many args'')
     else case parseredirs n b (add_arg w cmd) s of Inl e \<Rightarrow> Inl e
       | Inr (cmd, s) \<Rightarrow> parseargs n b (argc + 1) cmd s)"

text \<open>The \<^verbatim>\<open>while(peek(ps, es, "&"))\<close> of \<open>parseline\<close>.\<close>

fun parseback :: "nat \<Rightarrow> uint8 list \<Rightarrow> word_range cmd \<Rightarrow> nat \<Rightarrow> (word_range cmd \<times> nat) parse" where
  "parseback 0 b cmd s = Inl None"
| "parseback (Suc n) b cmd s = (case peek b s ''&'' of (p, s) \<Rightarrow>
     if \<not> p then Inr (cmd, s) else
     case gettoken b s of (_, _, s) \<Rightarrow> parseback n b (Back cmd) s)"

fun parseline :: "nat \<Rightarrow> uint8 list \<Rightarrow> nat \<Rightarrow> (word_range cmd \<times> nat) parse"
and parsepipe :: "nat \<Rightarrow> uint8 list \<Rightarrow> nat \<Rightarrow> (word_range cmd \<times> nat) parse"
and parseexec :: "nat \<Rightarrow> uint8 list \<Rightarrow> nat \<Rightarrow> (word_range cmd \<times> nat) parse"
and parseblock :: "nat \<Rightarrow> uint8 list \<Rightarrow> nat \<Rightarrow> (word_range cmd \<times> nat) parse" where
  "parseline 0 b s = Inl None"
| "parseline (Suc n) b s = (case parsepipe n b s of Inl e \<Rightarrow> Inl e | Inr (cmd, s) \<Rightarrow>
     case parseback n b cmd s of Inl e \<Rightarrow> Inl e | Inr (cmd, s) \<Rightarrow>
     case peek b s '';'' of (p, s) \<Rightarrow>
     if \<not> p then Inr (cmd, s) else
     case gettoken b s of (_, _, s) \<Rightarrow>
     case parseline n b s of Inl e \<Rightarrow> Inl e | Inr (r, s) \<Rightarrow> Inr (List cmd r, s))"
| "parsepipe 0 b s = Inl None"
| "parsepipe (Suc n) b s = (case parseexec n b s of Inl e \<Rightarrow> Inl e | Inr (cmd, s) \<Rightarrow>
     case peek b s ''|'' of (p, s) \<Rightarrow>
     if \<not> p then Inr (cmd, s) else
     case gettoken b s of (_, _, s) \<Rightarrow>
     case parsepipe n b s of Inl e \<Rightarrow> Inl e | Inr (r, s) \<Rightarrow> Inr (Pipe cmd r, s))"
| "parseexec 0 b s = Inl None"
| "parseexec (Suc n) b s = (case peek b s ''('' of (p, s) \<Rightarrow>
     if p then parseblock n b s else
     case parseredirs n b (Exec []) s of Inl e \<Rightarrow> Inl e | Inr (cmd, s) \<Rightarrow> parseargs n b 0 cmd s)"
| "parseblock 0 b s = Inl None"
| "parseblock (Suc n) b s = (case peek b s ''('' of (p, s) \<Rightarrow>
     if \<not> p then Inl (Some ''parseblock'') else
     case gettoken b s of (_, _, s) \<Rightarrow>
     case parseline n b s of Inl e \<Rightarrow> Inl e | Inr (cmd, s) \<Rightarrow>
     case peek b s '')'' of (p, s) \<Rightarrow>
     if \<not> p then Inl (Some ''syntax - missing )'') else
     case gettoken b s of (_, _, s) \<Rightarrow> parseredirs n b cmd s)"

text \<open>
  \<open>nulterminate\<close> writes a zero after every word; the line here includes its terminating zero.
  The words are then the strings at the starts of the ranges.
\<close>

primrec nulterminate :: "word_range cmd \<Rightarrow> uint8 list \<Rightarrow> uint8 list" where
  "nulterminate (Exec argv) b = fold (\<lambda>w b. b[snd w := 0]) argv b"
| "nulterminate (Redir c file mode fd) b = (nulterminate c b)[snd file := 0]"
| "nulterminate (Pipe l r) b = nulterminate r (nulterminate l b)"
| "nulterminate (List l r) b = nulterminate r (nulterminate l b)"
| "nulterminate (Back c) b = nulterminate c b"

definition cstring :: "uint8 list \<Rightarrow> word_range \<Rightarrow> uint8 list" where
  "cstring b w = takeWhile (\<lambda>c. c \<noteq> 0) (drop (fst w) b)"

definition parse_depth :: "uint8 list \<Rightarrow> nat" where
  "parse_depth b = 4 * length b + 5"

definition parsecmd :: "uint8 list \<Rightarrow> ('a world_scheme, uint8 list cmd) kmon" where
  "parsecmd b = (case parseline (parse_depth b) b 0 of
     Inl None \<Rightarrow> blocked
   | Inl (Some msg) \<Rightarrow> panic_u msg
   | Inr (cmd, s) \<Rightarrow> let s = snd (peek b s '''') in
     if s \<noteq> length b then bind (fprintf 2 (''leftovers: %s'' @ [CHR 0x0A]) [UStr (Some (drop s b))]) (\<lambda>_. panic_u ''syntax'')
     else ret (map_cmd (cstring (nulterminate cmd (b @ [0]))) cmd))"

section \<open>The command loop\<close>

definition getcmd :: "nat \<Rightarrow> ('a world_scheme, int \<times> uint8 list) kmon" where
  "getcmd nbuf = bind (write_u 2 (bytes_of ''$ '')) (\<lambda>_.
     bind (gets_u (replicate nbuf 0) (int nbuf)) (\<lambda>buf.
     ret (if hd buf = 0 then - 1 else 0, buf)))"

definition sh_round :: "unit \<Rightarrow> ('a world_scheme, unit + unit) kmon" where
  "sh_round = (\<lambda>_. bind (getcmd 100) (\<lambda>(r, buf).
     if \<not> r \<ge> 0 then ret (Inr ()) else
     let line = takeWhile (\<lambda>c. c \<noteq> 0) buf in
     if take 3 line = bytes_of ''cd '' then
       let dir = butlast (drop 3 line) in
       bind (call (SChdir dir)) (\<lambda>r.
       bind (whenM (r < 0) (fprintf 2 (''cannot cd %s'' @ [CHR 0x0A]) [UStr (Some dir)])) (\<lambda>_.
       ret (Inl ())))
     else bind fork1 (\<lambda>pid.
       bind (whenM (pid = 0) (bind (parsecmd line) runcmd)) (\<lambda>_.
       bind (call SWait) (\<lambda>_.
       ret (Inl ()))))))"

definition sh_main :: "('a world_scheme, unit) kmon" where
  "sh_main = bind (while_u (\<lambda>_. bind (call (SOpen (bytes_of ''console'') 2)) (\<lambda>fd.
       if fd \<ge> 0 then if fd \<ge> 3 then bind (call (SClose fd)) (\<lambda>_. ret (Inr ())) else ret (Inl ())
       else ret (Inr ()))) ()) (\<lambda>_.
     bind (while_u sh_round ()) (\<lambda>_.
     exit_u 0))"

end
