(* ===== verification/Shparse.thy ===== *)
theory Shparse
  imports Sh
begin

text \<open>
  What the shell's parser and interpreter do: the parser terminates within its depth bound on every
  line, \<open>nulterminate\<close> cuts out exactly the words, every command has a textual form that parses
  back to it, and \<open>runcmd\<close> never returns.
\<close>

section \<open>Positions as suffixes\<close>

definition ws :: "uint8 \<Rightarrow> bool" where
  "ws c \<longleftrightarrow> c \<in> {32, 9, 13, 10, 11}"

definition sym :: "uint8 \<Rightarrow> bool" where
  "sym c \<longleftrightarrow> c \<in> {60, 124, 62, 38, 59, 40, 41}"

definition wordc :: "uint8 \<Rightarrow> bool" where
  "wordc c \<longleftrightarrow> \<not> ws c \<and> \<not> sym c"

lemma among_Nil [simp]: "\<not> among [] c"
  by (simp add: among_def)

lemma among_Cons [simp]: "among (x # xs) c \<longleftrightarrow> x \<noteq> 0 \<and> (x = c \<or> among xs c)"
  by (auto simp: among_def)

lemma among_ws [simp]: "among whitespace = ws"
  by (auto simp: fun_eq_iff whitespace_def ws_def)

lemma among_sym [simp]: "among symbols = sym"
  by (auto simp: fun_eq_iff symbols_def sym_def bytes_of_def of_char_def)

lemma rd_drop: "rd b s = (case drop s b of [] \<Rightarrow> 0 | c # _ \<Rightarrow> c)"
  by (cases "s < length b") (auto simp: rd_def Cons_nth_drop_Suc [symmetric])

lemma skip_ws_drop:
  assumes "s \<le> length b"
  shows "drop (skip_ws b s) b = dropWhile ws (drop s b)" and "s \<le> skip_ws b s" and "skip_ws b s \<le> length b"
  using assms
proof (induction b s rule: skip_ws.induct)
  case (1 b s)
  note u = skip_ws.simps [of b s]
  { case 1
    then show ?case using "1.IH"(1) u by (cases "s < length b") (auto simp: Cons_nth_drop_Suc [symmetric]) }
  { case 2
    then show ?case using "1.IH"(2) u by (cases "s < length b") auto }
  { case 3
    then show ?case using "1.IH"(3) u by (cases "s < length b") auto }
qed

lemma skip_word_drop:
  assumes "s \<le> length b"
  shows "drop (skip_word b s) b = dropWhile wordc (drop s b)" and "s \<le> skip_word b s" and "skip_word b s \<le> length b"
  using assms
proof (induction b s rule: skip_word.induct)
  case (1 b s)
  note u = skip_word.simps [of b s]
  { case 1
    then show ?case using "1.IH"(1) u by (cases "s < length b") (auto simp: Cons_nth_drop_Suc [symmetric] wordc_def) }
  { case 2
    then show ?case using "1.IH"(2) u by (cases "s < length b") auto }
  { case 3
    then show ?case using "1.IH"(3) u by (cases "s < length b") auto }
qed

definition slice :: "uint8 list \<Rightarrow> word_range \<Rightarrow> uint8 list" where
  "slice b w = take (snd w - fst w) (drop (fst w) b)"

text \<open>A word of the line: a maximal non-empty stretch of word characters.\<close>

definition word_ok :: "uint8 list \<Rightarrow> word_range \<Rightarrow> bool" where
  "word_ok b w \<longleftrightarrow> fst w < snd w \<and> snd w \<le> length b \<and> (\<forall>i. fst w \<le> i \<and> i < snd w \<longrightarrow> wordc (b ! i)) \<and>
     (snd w < length b \<longrightarrow> \<not> wordc (b ! snd w))"

lemma takeWhile_slice: "s \<le> length b \<Longrightarrow> slice b (s, skip_word b s) = takeWhile wordc (drop s b)"
proof -
  assume s: "s \<le> length b"
  note d = skip_word_drop [OF s]
  have "length (drop s b) = (skip_word b s - s) + length (dropWhile wordc (drop s b))"
    using d(2,3) arg_cong [OF d(1), of length] s by simp
  moreover have "length (drop s b) = length (takeWhile wordc (drop s b)) + length (dropWhile wordc (drop s b))"
    by (metis length_append takeWhile_dropWhile_id)
  ultimately have "skip_word b s - s = length (takeWhile wordc (drop s b))" by linarith
  then show ?thesis unfolding slice_def by (simp add: takeWhile_eq_take [symmetric])
qed

lemma skip_word_ok:
  assumes "s < length b" and "wordc (b ! s)"
  shows "word_ok b (s, skip_word b s)"
proof -
  let ?e = "skip_word b s"
  have s: "s \<le> length b" using assms(1) by simp
  note d = skip_word_drop [OF s]
  have tw: "take (?e - s) (drop s b) = takeWhile wordc (drop s b)" using takeWhile_slice [OF s] by (simp add: slice_def)
  have "skip_word b s = skip_word b (Suc s)" using skip_word.simps [of b s] assms by (simp add: wordc_def)
  then have "s < ?e" using skip_word_drop(2) [of "Suc s" b] assms(1) by simp
  moreover have "wordc (b ! i)" if "s \<le> i" "i < ?e" for i
  proof -
    have "take (?e - s) (drop s b) ! (i - s) = b ! i" using that d(3) by simp
    moreover have "take (?e - s) (drop s b) ! (i - s) \<in> set (takeWhile wordc (drop s b))"
      unfolding tw [symmetric] using that d(3) by (intro nth_mem) simp
    ultimately show ?thesis by (auto dest: set_takeWhileD)
  qed
  moreover have "\<not> wordc (b ! ?e)" if "?e < length b"
  proof -
    have "dropWhile wordc (drop s b) = b ! ?e # drop (Suc ?e) b" using d(1) Cons_nth_drop_Suc [OF that] by simp
    then show ?thesis using hd_dropWhile [of wordc "drop s b"] by (simp del: dropWhile_eq_Nil_conv)
  qed
  ultimately show ?thesis using d(3) by (simp add: word_ok_def)
qed

section \<open>Tokens\<close>

lemma peek_drop:
  assumes "s \<le> length b"
  obtains s' where "peek b s toks = ((case dropWhile ws (drop s b) of [] \<Rightarrow> False | c # _ \<Rightarrow> c \<noteq> 0 \<and> among (bytes_of toks) c), s')"
    and "drop s' b = dropWhile ws (drop s b)" and "s \<le> s'" and "s' \<le> length b"
proof (rule that [OF _ skip_ws_drop [OF assms]])
  show "peek b s toks = ((case dropWhile ws (drop s b) of [] \<Rightarrow> False | c # _ \<Rightarrow> c \<noteq> 0 \<and> among (bytes_of toks) c), skip_ws b s)"
    unfolding peek_def Let_def rd_drop skip_ws_drop(1) [OF assms] 
    by (cases "dropWhile ws (drop s b)") (simp_all del: dropWhile_eq_Nil_conv)
qed

lemma gettoken_bounds:
  assumes "s \<le> length b" and "gettoken b s = (t, w, s')"
  shows "s \<le> s'" and "s' \<le> length b" and "t \<noteq> 0 \<Longrightarrow> s < s'" and "t = 97 \<Longrightarrow> word_ok b w"
proof -
  let ?q = "skip_ws b s" let ?c = "rd b ?q"
  note d = skip_ws_drop [OF assms(1)]
  have lt: "?c \<noteq> 0 \<Longrightarrow> ?q < length b \<and> b ! ?q = ?c" "rd b (?q + 1) = 62 \<Longrightarrow> ?q + 1 < length b"
    by (auto simp: rd_def split: if_splits)
  have word: "wordc ?c" if c: "?c \<noteq> 0" "?c \<notin> {124, 40, 41, 59, 38, 60}" "?c \<noteq> 62"
  proof -
    have q: "?q < length b" "b ! ?q = ?c" using lt(1) [OF c(1)] by simp_all
    have "dropWhile ws (drop s b) = ?c # drop (Suc ?q) b" using d(1) Cons_nth_drop_Suc [OF q(1)] q(2) by simp
    then have "\<not> ws ?c" using hd_dropWhile [of ws "drop s b"] by (simp del: dropWhile_eq_Nil_conv)
    then show ?thesis using c by (auto simp: wordc_def sym_def)
  qed
  have sw: "?q < skip_word b ?q" "word_ok b (?q, skip_word b ?q)" "skip_word b ?q \<le> length b" if "?c \<noteq> 0" "wordc ?c"
    using skip_word_ok [of ?q b] lt(1) [OF that(1)] that(2) by (simp_all add: word_ok_def)
  obtain e where e: "w = (?q, e)" "s' = skip_ws b e" "?q \<le> e" "e \<le> length b" "t \<noteq> 0 \<longrightarrow> ?q < e" "t = 97 \<longrightarrow> word_ok b w"
  proof -
    consider "?c = 0" | "?c \<noteq> 0" "?c \<in> {124, 40, 41, 59, 38, 60}" | "?c = 62" "rd b (?q + 1) = 62" | "?c = 62" "rd b (?q + 1) \<noteq> 62"
      | "?c \<noteq> 0" "?c \<notin> {124, 40, 41, 59, 38, 60}" "?c \<noteq> 62" by blast
    then show thesis
    proof cases
      case 1
      then show ?thesis using assms(2) d(3) by (intro that [of ?q]) (auto simp: gettoken_def Let_def)
    next
      case 2
      then show ?thesis using assms(2) lt(1) by (intro that [of "?q + 1"]) (auto simp: gettoken_def Let_def)
    next
      case 3
      then show ?thesis using assms(2) lt(2) by (intro that [of "?q + 2"]) (auto simp: gettoken_def Let_def)
    next
      case 4
      then show ?thesis using assms(2) lt(1) by (intro that [of "?q + 1"]) (auto simp: gettoken_def Let_def)
    next
      case 5
      then show ?thesis using assms(2) sw [OF _ word] by (intro that [of "skip_word b ?q"]) (simp_all add: gettoken_def Let_def)
    qed
  qed
  note d' = skip_ws_drop [OF e(4)]
  show "s \<le> s'" "s' \<le> length b" using d d' e(2,3) by simp_all
  show "t \<noteq> 0 \<Longrightarrow> s < s'" using d(2) d'(2) e(2,5) by simp
  show "t = 97 \<Longrightarrow> word_ok b w" using e(6) by simp
qed

lemma peek_bounds:
  assumes "s \<le> length b" and "peek b s toks = (p, s')"
  shows "s \<le> s'" and "s' \<le> length b" and "p \<Longrightarrow> rd b s' \<noteq> 0" and "p \<Longrightarrow> among (bytes_of toks) (rd b s')" and "skip_ws b s' = s'"
proof -
  have s': "s' = skip_ws b s" "p = (rd b s' \<noteq> 0 \<and> among (bytes_of toks) (rd b s'))"
    using assms(2) by (auto simp: peek_def Let_def)
  note d = skip_ws_drop [OF assms(1), folded s'(1)]
  show "s \<le> s'" "s' \<le> length b" using d by simp_all
  show "p \<Longrightarrow> rd b s' \<noteq> 0" "p \<Longrightarrow> among (bytes_of toks) (rd b s')" using s'(2) by simp_all
  have "\<not> ws (b ! s')" if "s' < length b"
  proof -
    have "dropWhile ws (drop s b) = b ! s' # drop (Suc s') b" using d(1) Cons_nth_drop_Suc [OF that] by simp
    then show ?thesis using hd_dropWhile [of ws "drop s b"] by (simp del: dropWhile_eq_Nil_conv)
  qed
  then show "skip_ws b s' = s'" using skip_ws.simps [of b s'] by auto
qed

lemma gettoken_after_peek:
  assumes "s \<le> length b" and "peek b s toks = (True, s1)" and "gettoken b s1 = (t, w, s2)"
  shows "s < s2" and "s2 \<le> length b" and "t \<noteq> 0"
proof -
  note p = peek_bounds [OF assms(1,2)]
  have "t \<noteq> 0" using assms(3) p(3,5) by (auto simp: gettoken_def Let_def split: if_splits)
  then show "s < s2" "s2 \<le> length b" "t \<noteq> 0" using gettoken_bounds [OF p(2) assms(3)] p(1) by auto
qed

section \<open>Termination and words\<close>

definition good :: "uint8 list \<Rightarrow> nat \<Rightarrow> (word_range cmd \<times> nat) parse \<Rightarrow> bool" where
  "good b s r \<longleftrightarrow> (case r of Inl e \<Rightarrow> e \<noteq> None | Inr (c, s') \<Rightarrow> s \<le> s' \<and> s' \<le> length b \<and> (\<forall>w \<in> set_cmd c. word_ok b w))"

lemma good_Inl [simp]: "good b s (Inl e) \<longleftrightarrow> e \<noteq> None"
  by (simp add: good_def)

lemma good_Inr [simp]: "good b s (Inr (c, s')) \<longleftrightarrow> s \<le> s' \<and> s' \<le> length b \<and> (\<forall>w \<in> set_cmd c. word_ok b w)"
  by (simp add: good_def)

lemma good_mono: "good b s r \<Longrightarrow> s0 \<le> s \<Longrightarrow> good b s0 r"
  by (auto simp: good_def split: sum.splits)

lemma set_add_arg: "set_cmd (add_arg w c) \<subseteq> insert w (set_cmd c)"
  by (induction c) auto

lemma parseredirs_good:
  "s \<le> length b \<Longrightarrow> \<forall>w \<in> set_cmd c. word_ok b w \<Longrightarrow> length b - s < n \<Longrightarrow> good b s (parseredirs n b c s)"
proof (induction n arbitrary: c s)
  case (Suc n)
  obtain p s1 where p: "peek b s ''<>'' = (p, s1)" by fastforce
  obtain t1 w1 s2 where g1: "gettoken b s1 = (t1, w1, s2)" using prod_cases3 by blast
  obtain t2 w2 s3 where g2: "gettoken b s2 = (t2, w2, s3)" using prod_cases3 by blast
  show ?case
  proof (cases "p \<and> t2 = 97")
    case True
    then have s2: "s < s2" "s2 \<le> length b" using gettoken_after_peek [OF Suc.prems(1) _ g1] p by auto
    note b2 = gettoken_bounds [OF s2(2) g2]
    let ?c = "if t1 = 60 then Redir c w2 0 0 else if t1 = 62 then Redir c w2 0x601 1
       else if t1 = 43 then Redir c w2 0x201 1 else c"
    have "\<forall>w \<in> set_cmd ?c. word_ok b w" using Suc.prems(2) b2(4) True by auto
    then have "good b s3 (parseredirs n b ?c s3)" using Suc.IH [of s3 ?c] b2(1,2) s2 Suc.prems(3) by linarith
    then show ?thesis using True p g1 g2 s2(1) b2(1) good_mono [of b s3 _ s] by simp
  next
    case False
    then show ?thesis using p g1 g2 peek_bounds(1,2) [OF Suc.prems(1) p] Suc.prems(2) by auto
  qed
qed simp

lemma parseargs_good:
  "s \<le> length b \<Longrightarrow> \<forall>w \<in> set_cmd c. word_ok b w \<Longrightarrow> length b - s < n \<Longrightarrow> good b s (parseargs n b k c s)"
proof (induction n arbitrary: k c s)
  case (Suc n)
  obtain p s1 where p: "peek b s ''|)&;'' = (p, s1)" by fastforce
  note pb = peek_bounds [OF Suc.prems(1) p]
  obtain t w s2 where g: "gettoken b s1 = (t, w, s2)" using prod_cases3 by blast
  note gb = gettoken_bounds [OF pb(2) g]
  show ?case
  proof (cases "\<not> p \<and> t = 97 \<and> k + 1 < MAXARGS")
    case True
    have "\<forall>w \<in> set_cmd (add_arg w c). word_ok b w" using Suc.prems(2) gb(4) True set_add_arg [of w c] by auto
    then have r: "good b s2 (parseredirs n b (add_arg w c) s2)"
      using gb pb True Suc.prems(3) by (intro parseredirs_good) auto
    show ?thesis
    proof (cases "parseredirs n b (add_arg w c) s2")
      case (Inl e)
      then show ?thesis using True p g r by auto
    next
      case (Inr x)
      obtain c' s3 where x: "x = (c', s3)" by fastforce
      then have s3: "s2 \<le> s3" "s3 \<le> length b" "\<forall>w \<in> set_cmd c'. word_ok b w" using r Inr by auto
      then have "good b s3 (parseargs n b (k + 1) c' s3)"
        using Suc.IH [of s3 c' "k + 1"] gb pb True Suc.prems(3) by auto
      then show ?thesis using True p g Inr x s3 gb(1) pb(1) good_mono [of b s3 _ s] by simp
    qed
  next
    case False
    then show ?thesis using p g gb pb Suc.prems(2) by auto
  qed
qed simp

lemma parseback_good:
  "s \<le> length b \<Longrightarrow> \<forall>w \<in> set_cmd c. word_ok b w \<Longrightarrow> length b - s < n \<Longrightarrow> good b s (parseback n b c s)"
proof (induction n arbitrary: c s)
  case (Suc n)
  obtain p s1 where p: "peek b s ''&'' = (p, s1)" by fastforce
  obtain t w s2 where g: "gettoken b s1 = (t, w, s2)" using prod_cases3 by blast
  show ?case
  proof (cases p)
    case True
    then have s2: "s < s2" "s2 \<le> length b" using gettoken_after_peek [OF Suc.prems(1) _ g] p by auto
    then have "good b s2 (parseback n b (Back c) s2)" using Suc.IH [of s2 "Back c"] Suc.prems(2,3) by simp
    then show ?thesis using True p g s2(1) good_mono [of b s2 _ s] by simp
  next
    case False
    then show ?thesis using p peek_bounds(1,2) [OF Suc.prems(1) p] Suc.prems(2) by auto
  qed
qed simp

text \<open>Going on after a result.\<close>

lemma good_then:
  assumes "good b s r" and "\<And>c s'. r = Inr (c, s') \<Longrightarrow> s \<le> s' \<Longrightarrow> s' \<le> length b \<Longrightarrow> \<forall>w \<in> set_cmd c. word_ok b w \<Longrightarrow> good b s (f c s')"
  shows "good b s (case r of Inl e \<Rightarrow> Inl e | Inr (c, s') \<Rightarrow> f c s')"
proof (cases r)
  case (Inr x)
  then show ?thesis using assms by (cases x) simp
qed (use assms(1) in simp)

text \<open>An operator: a token that was seen is taken, and the parser goes on behind it.\<close>

lemma good_operator:
  assumes "s \<le> length b" and "good b s (Inr (c, s))"
    and "\<And>s2. s < s2 \<Longrightarrow> s2 \<le> length b \<Longrightarrow> good b s2 (f s2)"
  shows "good b s (case peek b s toks of (p, s1) \<Rightarrow> if \<not> p then Inr (c, s1) else case gettoken b s1 of (_, _, s2) \<Rightarrow> f s2)"
proof -
  obtain p s1 where p: "peek b s toks = (p, s1)" by fastforce
  obtain t w s2 where g: "gettoken b s1 = (t, w, s2)" using prod_cases3 by blast
  show ?thesis
  proof (cases p)
    case True
    then have "s < s2" "s2 \<le> length b" using gettoken_after_peek [OF assms(1) _ g] p by auto
    then show ?thesis using True p g assms(3) [of s2] good_mono [of b s2 _ s] by simp
  next
    case False
    then show ?thesis using p peek_bounds(1,2) [OF assms(1) p] assms(2) by simp
  qed
qed

lemma good_wrap: "good b s r \<Longrightarrow> (\<And>c. \<forall>w \<in> set_cmd c. word_ok b w \<Longrightarrow> \<forall>w \<in> set_cmd (f c). word_ok b w) \<Longrightarrow>
    good b s (case r of Inl e \<Rightarrow> Inl e | Inr (c, s') \<Rightarrow> Inr (f c, s'))"
  by (rule good_then) simp_all

lemma parse_good:
  "s \<le> length b \<Longrightarrow>
    (4 * (length b - s) + 4 \<le> n \<longrightarrow> good b s (parseline n b s)) \<and>
    (4 * (length b - s) + 3 \<le> n \<longrightarrow> good b s (parsepipe n b s)) \<and>
    (4 * (length b - s) + 2 \<le> n \<longrightarrow> good b s (parseexec n b s)) \<and>
    (4 * (length b - s) + 1 \<le> n \<longrightarrow> good b s (parseblock n b s))"
proof (induction n arbitrary: s)
  case (Suc n)
  let ?L = "length b - s"
  have line: "good b s (parseline (Suc n) b s)" if n: "4 * ?L + 4 \<le> Suc n"
    unfolding parseline.simps
  proof (rule good_then)
    show "good b s (parsepipe n b s)" using Suc n by auto
    fix c s1 assume c: "s \<le> s1" "s1 \<le> length b" "\<forall>w \<in> set_cmd c. word_ok b w"
    show "good b s (case parseback n b c s1 of Inl e \<Rightarrow> Inl e | Inr (c, s2) \<Rightarrow>
        case peek b s2 '';'' of (p, s2) \<Rightarrow> if \<not> p then Inr (c, s2) else case gettoken b s2 of (_, _, s2) \<Rightarrow>
        case parseline n b s2 of Inl e \<Rightarrow> Inl e | Inr (r, s2) \<Rightarrow> Inr (List c r, s2))"
    proof (rule good_mono [OF good_then])
      show "good b s1 (parseback n b c s1)" using c n by (intro parseback_good) auto
      fix c2 s2 assume c2: "s1 \<le> s2" "s2 \<le> length b" "\<forall>w \<in> set_cmd c2. word_ok b w"
      show "good b s1 (case peek b s2 '';'' of (p, s2) \<Rightarrow> if \<not> p then Inr (c2, s2) else case gettoken b s2 of (_, _, s2) \<Rightarrow>
        case parseline n b s2 of Inl e \<Rightarrow> Inl e | Inr (r, s2) \<Rightarrow> Inr (List c2 r, s2))"
      proof (rule good_mono [OF good_operator])
        fix s3 assume "s2 < s3" "s3 \<le> length b"
        then have "good b s3 (parseline n b s3)" using Suc.IH [of s3] n c(1) c2(1) by auto
        then show "good b s3 (case parseline n b s3 of Inl e \<Rightarrow> Inl e | Inr (r, s2) \<Rightarrow> Inr (List c2 r, s2))"
          by (rule good_wrap) (use c2(3) in auto)
      qed (use c2 in auto)
    qed (use c in auto)
  qed
  have pipe: "good b s (parsepipe (Suc n) b s)" if n: "4 * ?L + 3 \<le> Suc n"
    unfolding parsepipe.simps
  proof (rule good_then)
    show "good b s (parseexec n b s)" using Suc n by auto
    fix c s2 assume c2: "s \<le> s2" "s2 \<le> length b" "\<forall>w \<in> set_cmd c. word_ok b w"
    show "good b s (case peek b s2 ''|'' of (p, s2) \<Rightarrow> if \<not> p then Inr (c, s2) else case gettoken b s2 of (_, _, s2) \<Rightarrow>
        case parsepipe n b s2 of Inl e \<Rightarrow> Inl e | Inr (r, s2) \<Rightarrow> Inr (Pipe c r, s2))"
    proof (rule good_mono [OF good_operator])
      fix s3 assume "s2 < s3" "s3 \<le> length b"
      then have "good b s3 (parsepipe n b s3)" using Suc.IH [of s3] n c2(1) by auto
      then show "good b s3 (case parsepipe n b s3 of Inl e \<Rightarrow> Inl e | Inr (r, s2) \<Rightarrow> Inr (Pipe c r, s2))"
        by (rule good_wrap) (use c2(3) in auto)
    qed (use c2 in auto)
  qed
  obtain p s1 where p: "peek b s ''('' = (p, s1)" by fastforce
  note pb = peek_bounds [OF Suc.prems p]
  have exec: "good b s (parseexec (Suc n) b s)" if n: "4 * ?L + 2 \<le> Suc n"
  proof (cases p)
    case True
    have "good b s1 (parseblock n b s1)" using Suc.IH [OF pb(2)] n pb(1) by auto
    then show ?thesis using True p pb(1) good_mono [of b s1 _ s] by simp
  next
    case False
    have "good b s1 (case parseredirs n b (Exec []) s1 of Inl e \<Rightarrow> Inl e | Inr (c, s) \<Rightarrow> parseargs n b 0 c s)"
    proof (rule good_then)
      show "good b s1 (parseredirs n b (Exec []) s1)" using pb n by (intro parseredirs_good) auto
      fix c s2 assume "s1 \<le> s2" "s2 \<le> length b" "\<forall>w \<in> set_cmd c. word_ok b w"
      then show "good b s1 (parseargs n b 0 c s2)" using pb n by (intro good_mono [OF parseargs_good]) auto
    qed
    then show ?thesis using False p pb(1) good_mono [of b s1 _ s] by simp
  qed
  have block: "good b s (parseblock (Suc n) b s)" if n: "4 * ?L + 1 \<le> Suc n"
  proof (cases p)
    case True
    obtain t w s2 where g: "gettoken b s1 = (t, w, s2)" using prod_cases3 by blast
    have s2: "s < s2" "s2 \<le> length b" using gettoken_after_peek [OF Suc.prems _ g] p True by auto
    have "good b s2 (case parseline n b s2 of Inl e \<Rightarrow> Inl e | Inr (c, s) \<Rightarrow> case peek b s '')'' of (p, s) \<Rightarrow>
        if \<not> p then Inl (Some ''syntax - missing )'') else case gettoken b s of (_, _, s) \<Rightarrow> parseredirs n b c s)"
    proof (rule good_then)
      have "4 * (length b - s2) + 4 \<le> n" using n s2 by linarith
      then show "good b s2 (parseline n b s2)" using Suc.IH [OF s2(2)] by blast
      fix c s3 assume c: "s2 \<le> s3" "s3 \<le> length b" "\<forall>w \<in> set_cmd c. word_ok b w"
      obtain p' s4 where p': "peek b s3 '')'' = (p', s4)" by fastforce
      obtain t' w' s5 where g': "gettoken b s4 = (t', w', s5)" using prod_cases3 by blast
      have "good b s5 (parseredirs n b c s5)" "s3 < s5" if p'
      proof -
        show s5: "s3 < s5" using gettoken_after_peek(1) [OF c(2) _ g'] p' that by simp
        have "s5 \<le> length b" using gettoken_after_peek(2) [OF c(2) _ g'] p' that by simp
        moreover from this have "length b - s5 < n" using s5 n s2 c(1) by linarith
        ultimately show "good b s5 (parseredirs n b c s5)" using c(3) by (intro parseredirs_good)
      qed
      then show "good b s2 (case peek b s3 '')'' of (p, s) \<Rightarrow>
        if \<not> p then Inl (Some ''syntax - missing )'') else case gettoken b s of (_, _, s) \<Rightarrow> parseredirs n b c s)"
        using p' g' c(1) good_mono [of b s5 _ s2] by auto
    qed
    then show ?thesis using True p g s2(1) good_mono [of b s2 _ s] by simp
  next
    case False
    then show ?thesis using p by simp
  qed
  from line pipe exec block show ?case by blast
qed simp

section \<open>Words as strings\<close>

text \<open>The zeros that \<open>nulterminate\<close> writes are all at the ends of words.\<close>

lemma fold_update_nth:
  "i < length b \<Longrightarrow> fold (\<lambda>w b. b[snd w := 0]) vs b ! i = (if i \<in> snd ` set vs then 0 else b ! i)"
  "length (fold (\<lambda>w b. b[snd w := 0]) vs b) = length b"
  by (induction vs arbitrary: b) (auto simp: nth_list_update)

lemma nulterminate_nth:
  "length (nulterminate c b) = length b \<and>
   (i < length b \<longrightarrow> nulterminate c b ! i = (if i \<in> snd ` set_cmd c then 0 else b ! i))"
proof (induction c arbitrary: b)
  case (Redir c f m d)
  have "nulterminate (Redir c f m d) b ! i = (if i = snd f then 0 else nulterminate c b ! i)" if "i < length b"
    using Redir [of b] that by (simp add: nth_list_update)
  then show ?case using Redir [of b] by simp
qed (auto simp: fold_update_nth)

lemma takeWhile_zero: "0 \<notin> set l \<Longrightarrow> takeWhile (\<lambda>c. c \<noteq> 0) (l @ 0 # xs) = l"
  by (induction l) auto

lemma cstring_slice:
  assumes "0 \<notin> set b" and "\<forall>w \<in> set_cmd c. word_ok b w" and "w \<in> set_cmd c"
  shows "cstring (nulterminate c (b @ [0])) w = slice b w"
proof -
  let ?b = "nulterminate c (b @ [0])" let ?q = "fst w" let ?e = "snd w"
  have w: "?q < ?e" "?e \<le> length b" "\<And>i. ?q \<le> i \<Longrightarrow> i < ?e \<Longrightarrow> wordc (b ! i)"
    using assms(2,3) by (auto simp: word_ok_def)
  have n: "?b ! i = (if i \<in> snd ` set_cmd c then 0 else (b @ [0]) ! i)" if "i \<le> length b" for i
    using nulterminate_nth [of c "b @ [0]" i] that by simp
  have len: "length ?b = Suc (length b)" using nulterminate_nth [of c "b @ [0]" 0] by simp
  have same: "?b ! i = b ! i" if "?q \<le> i" "i < ?e" for i
  proof -
    have "i \<noteq> snd v" if "v \<in> set_cmd c" for v
      using assms(2) that w \<open>?q \<le> i\<close> \<open>i < ?e\<close> by (auto simp: word_ok_def)
    then show ?thesis using n [of i] that w(2) by (auto simp: nth_append)
  qed
  have "?b ! ?e = 0" using n [OF w(2)] assms(3) by simp
  have "drop ?q ?b = slice b w @ drop ?e ?b"
  proof (rule nth_equalityI)
    show "length (drop ?q ?b) = length (slice b w @ drop ?e ?b)" using w(1,2) len by (simp add: slice_def)
    fix i assume "i < length (drop ?q ?b)"
    then show "drop ?q ?b ! i = (slice b w @ drop ?e ?b) ! i"
      using same [of "?q + i"] w(1,2) len by (auto simp: slice_def nth_append add.commute)
  qed
  moreover have "drop ?e ?b = 0 # drop (Suc ?e) ?b"
    using \<open>?b ! ?e = 0\<close> w(2) len by (simp add: Cons_nth_drop_Suc [symmetric])
  moreover have "0 \<notin> set (slice b w)" using assms(1) unfolding slice_def by (meson in_set_dropD in_set_takeD)
  ultimately show ?thesis unfolding cstring_def by (simp add: takeWhile_zero)
qed

section \<open>The interpreter\<close>

text \<open>\<open>ends m\<close>: whatever the kernel answers, the process ends inside \<open>m\<close>.\<close>

definition ends :: "('a world_scheme, 'b) kmon \<Rightarrow> bool" where
  "ends m \<longleftrightarrow> (\<forall>w e. \<exists>w'. m w e = Blocked w' \<and> ended w' \<noteq> None)"

definition ends_or_returns :: "('a world_scheme, 'b) kmon \<Rightarrow> bool" where
  "ends_or_returns m \<longleftrightarrow> (\<forall>w e. (\<exists>w'. m w e = Blocked w' \<and> ended w' \<noteq> None) \<or> (\<exists>a w'. m w e = Ret a w' e))"

lemma ends_exit: "ends (exit_u n)"
  by (simp add: ends_def exit_u_def bind_apply modify_apply blocked_apply)

lemma ends_bind: "ends_or_returns m \<Longrightarrow> (\<And>a. ends (f a)) \<Longrightarrow> ends (bind m f)"
  unfolding ends_def ends_or_returns_def bind_apply by (metis res.case(1,3))

lemma returns_bind: "ends_or_returns m \<Longrightarrow> (\<And>a. ends_or_returns (f a)) \<Longrightarrow> ends_or_returns (bind m f)"
  unfolding ends_or_returns_def bind_apply by (metis res.case(1,3))

lemma ends_returns: "ends m \<Longrightarrow> ends_or_returns m"
  by (auto simp: ends_def ends_or_returns_def)

lemma returns_call: "ends_or_returns (call c)" "ends_or_returns (sys c)"
  by (auto simp: ends_or_returns_def call_def sys_def bind_apply ret_apply Let_def)

lemma returns_ret: "ends_or_returns (ret x)"
  by (auto simp: ends_or_returns_def ret_apply)

lemma returns_when: "(c \<Longrightarrow> ends_or_returns m) \<Longrightarrow> ends_or_returns (whenM c m)"
  by (simp add: whenM_def returns_ret)

lemma ends_if: "ends m \<Longrightarrow> ends n \<Longrightarrow> ends (if c then m else n)"
  by simp

lemma returns_prints: "prints_u m fd out \<Longrightarrow> ends_or_returns m"
  unfolding prints_u_def ends_or_returns_def by blast

lemma returns_complain: "ends_or_returns (fprintf 2 (''exec %s failed'' @ [CHR 0x0A]) [UStr (Some s)])"
  "ends_or_returns (fprintf 2 (''open %s failed'' @ [CHR 0x0A]) [UStr (Some s)])"
  "ends_or_returns (fprintf 2 (''%s'' @ [CHR 0x0A]) [UStr (Some s)])"
  "ends_or_returns (fprintf 2 (''leftovers: %s'' @ [CHR 0x0A]) [UStr (Some s)])"
  unfolding fprintf_def vprintf_def
  by (rule returns_prints, rule vprintf_loop_prints, simp add: bytes_of_def of_char_def)+

lemma ends_panic: "ends (panic_u s)"
  unfolding panic_u_def by (intro ends_bind returns_complain ends_exit)

lemma returns_fork1: "ends_or_returns fork1"
  unfolding fork1_def
proof (rule returns_bind [OF returns_call(1)])
  show "ends_or_returns (if pid = - 1 then panic_u ''fork'' else ret pid)" for pid
    by (simp add: ends_returns [OF ends_panic] returns_ret)
qed

lemma returns_pipe: "ends_or_returns pipe_u"
  unfolding pipe_u_def by (intro returns_bind returns_call returns_ret)

lemma returns_exec: "ends_or_returns (exec_u p argv)"
  unfolding ends_or_returns_def exec_u_def call_def sys_def
  by (auto simp: bind_apply ret_apply Let_def modify_apply blocked_apply)

lemmas ends_intros = ends_bind ends_exit ends_panic ends_returns returns_call returns_ret returns_fork1 returns_pipe
  returns_exec returns_complain [simplified] returns_when returns_bind

lemma runcmd_ends: "ends (runcmd c)"
proof (induction c)
  case (Exec argv)
  then show ?case by (simp add: ends_intros)
next
  case (Redir c f m d)
  then show ?case by (simp add: ends_intros)
next
  case (Pipe l r)
  then show ?case by (simp add: ends_intros split_beta)
next
  case (List l r)
  then show ?case by (simp add: ends_intros)
next
  case (Back c)
  then show ?case by (simp add: ends_intros)
qed

end
