(* ===== verification/Shprint.thy ===== *)
theory Shprint
  imports Shparse
begin

text \<open>
  A textual form for every command, and that the shell's parser reads it back: the parser is
  right about precedence, grouping, redirections and the order of arguments.
\<close>

section \<open>Commands as text\<close>

definition redir_op :: "int \<Rightarrow> uint8 list" where
  "redir_op mode = (if mode = 0 then [60] else if mode = 0x601 then [62] else [62, 62])"

fun show_line :: "uint8 list cmd \<Rightarrow> uint8 list"
and show_item :: "uint8 list cmd \<Rightarrow> uint8 list"
and show_pipe :: "uint8 list cmd \<Rightarrow> uint8 list"
and show_exec :: "uint8 list cmd \<Rightarrow> uint8 list" where
  "show_line (List l r) = show_item l @ [59] @ show_line r"
| "show_line (Exec argv) = show_item (Exec argv)"
| "show_line (Redir c f m d) = show_item (Redir c f m d)"
| "show_line (Pipe l r) = show_item (Pipe l r)"
| "show_line (Back c) = show_item (Back c)"
| "show_item (Back c) = show_item c @ [38]"
| "show_item (Exec argv) = show_pipe (Exec argv)"
| "show_item (Redir c f m d) = show_pipe (Redir c f m d)"
| "show_item (Pipe l r) = show_pipe (Pipe l r)"
| "show_item (List l r) = show_pipe (List l r)"
| "show_pipe (Pipe l r) = show_exec l @ [124] @ show_pipe r"
| "show_pipe (Exec argv) = show_exec (Exec argv)"
| "show_pipe (Redir c f m d) = show_exec (Redir c f m d)"
| "show_pipe (List l r) = show_exec (List l r)"
| "show_pipe (Back c) = show_exec (Back c)"
| "show_exec (Exec argv) = concat (map (\<lambda>w. w @ [32]) argv)"
| "show_exec (Redir c f m d) = show_exec c @ redir_op m @ f @ [32]"
| "show_exec (Pipe l r) = [40] @ show_exec l @ [124] @ show_pipe r @ [41]"
| "show_exec (List l r) = [40] @ show_item l @ [59] @ show_line r @ [41]"
| "show_exec (Back c) = [40] @ show_item c @ [38] @ [41]"

definition word_str :: "uint8 list \<Rightarrow> bool" where
  "word_str w \<longleftrightarrow> w \<noteq> [] \<and> (\<forall>c \<in> set w. wordc c \<and> c \<noteq> 0)"

definition redir_ok :: "int \<Rightarrow> int \<Rightarrow> bool" where
  "redir_ok m d \<longleftrightarrow> (m, d) \<in> {(0, 0), (0x601, 1), (0x201, 1)}"

primrec cmd_ok :: "uint8 list cmd \<Rightarrow> bool" where
  "cmd_ok (Exec argv) \<longleftrightarrow> length argv < MAXARGS \<and> (\<forall>w \<in> set argv. word_str w)"
| "cmd_ok (Redir c f m d) \<longleftrightarrow> cmd_ok c \<and> word_str f \<and> redir_ok m d"
| "cmd_ok (Pipe l r) \<longleftrightarrow> cmd_ok l \<and> cmd_ok r"
| "cmd_ok (List l r) \<longleftrightarrow> cmd_ok l \<and> cmd_ok r"
| "cmd_ok (Back c) \<longleftrightarrow> cmd_ok c"

section \<open>Tokens of the text\<close>

text \<open>\<open>here b s xs\<close>: position \<open>s\<close> of the line, with no blank in front, and \<open>xs\<close> is what follows.\<close>

definition here :: "uint8 list \<Rightarrow> nat \<Rightarrow> uint8 list \<Rightarrow> bool" where
  "here b s xs \<longleftrightarrow> s \<le> length b \<and> dropWhile ws (drop s b) = dropWhile ws xs"

lemma here_skip: "here b s xs \<Longrightarrow> skip_ws b s \<le> length b \<and> drop (skip_ws b s) b = dropWhile ws xs"
  using skip_ws_drop [of s b] by (simp add: here_def)

lemma dropWhile_ws_idem [simp]: "dropWhile ws (dropWhile ws xs) = dropWhile ws xs"
  by (simp add: dropWhile_idem)

lemma here_of_drop: "s \<le> length b \<Longrightarrow> drop s b = dropWhile ws xs \<Longrightarrow> here b s xs"
  by (simp add: here_def)

text \<open>The next character that is not blank, zero at the end.\<close>

definition nxt :: "uint8 list \<Rightarrow> uint8" where
  "nxt xs = (case dropWhile ws xs of [] \<Rightarrow> 0 | c # _ \<Rightarrow> c)"

lemma nxt_Nil [simp]: "nxt [] = 0"
  by (simp add: nxt_def)

lemma nxt_Cons [simp]: "nxt (c # xs) = (if ws c then nxt xs else c)"
  by (simp add: nxt_def)

lemma peek_here:
  assumes "here b s xs"
  shows "\<exists>s'. peek b s toks = (nxt xs \<noteq> 0 \<and> among (bytes_of toks) (nxt xs), s') \<and> here b s' xs"
proof -
  note h = here_skip [OF assms]
  have "rd b (skip_ws b s) = nxt xs" using h by (simp add: rd_drop nxt_def)
  then have "peek b s toks = (nxt xs \<noteq> 0 \<and> among (bytes_of toks) (nxt xs), skip_ws b s)"
    by (simp add: peek_def Let_def)
  moreover have "here b (skip_ws b s) xs" using h by (intro here_of_drop) simp_all
  ultimately show ?thesis by blast
qed

lemma gettoken_end:
  assumes "here b s xs" and "nxt xs = 0"
  shows "\<exists>w s'. gettoken b s = (0, w, s') \<and> here b s' xs"
proof -
  note h = here_skip [OF assms(1)]
  have "rd b (skip_ws b s) = 0" using h assms(2) by (simp add: rd_drop nxt_def)
  then have "gettoken b s = (0, (skip_ws b s, skip_ws b s), skip_ws b (skip_ws b s))"
    by (simp add: gettoken_def Let_def)
  moreover have "here b (skip_ws b (skip_ws b s)) xs" using h skip_ws_drop [of "skip_ws b s" b] by (intro here_of_drop) simp_all
  ultimately show ?thesis by blast
qed

lemma gettoken_op:
  assumes "here b s (c # xs)" and "c \<in> {124, 40, 41, 59, 38, 60}"
  shows "\<exists>w s'. gettoken b s = (c, w, s') \<and> here b s' xs"
proof -
  have "\<not> ws c" using assms(2) by (auto simp: ws_def)
  then have h: "skip_ws b s \<le> length b" "drop (skip_ws b s) b = c # xs" using here_skip [OF assms(1)] by simp_all
  have rd: "rd b (skip_ws b s) = c" using h(2) by (simp add: rd_drop)
  have "skip_ws b s < length b" using h by (metis drop_all list.distinct(1) not_le)
  moreover have "drop (Suc (skip_ws b s)) b = xs" using h(2) by (metis drop_Suc list.sel(3) tl_drop)
  ultimately have "here b (skip_ws b (skip_ws b s + 1)) xs"
    using skip_ws_drop [of "skip_ws b s + 1" b] by (simp add: here_def)
  moreover have "gettoken b s = (c, (skip_ws b s, skip_ws b s + 1), skip_ws b (skip_ws b s + 1))"
    using assms(2) rd by (auto simp: gettoken_def Let_def)
  ultimately show ?thesis by blast
qed

lemma gettoken_word:
  assumes "here b s (w @ 32 # xs)" and "word_str w"
  shows "\<exists>v s'. gettoken b s = (97, v, s') \<and> slice b v = w \<and> here b s' xs"
proof -
  obtain c w' where w: "w = c # w'" "wordc c" "c \<noteq> 0" using assms(2) by (cases w) (auto simp: word_str_def)
  let ?q = "skip_ws b s"
  have h: "?q \<le> length b" "drop ?q b = w @ 32 # xs"
    using here_skip [OF assms(1)] w by (simp_all add: wordc_def)
  have rd: "rd b ?q = c" using h(2) w by (simp add: rd_drop)
  have c: "c \<notin> {124, 40, 41, 59, 38, 60}" "c \<noteq> 62" using w(2) by (auto simp: wordc_def sym_def)
  have aw: "\<forall>x \<in> set w. wordc x" using assms(2) by (simp add: word_str_def)
  have nw: "\<not> wordc 32" "ws 32" by (simp_all add: wordc_def ws_def)
  have sl: "slice b (?q, skip_word b ?q) = w" using takeWhile_slice [OF h(1)] h(2) aw nw by (simp add: takeWhile_append2)
  note sw = skip_word_drop [OF h(1)]
  have "drop (skip_word b ?q) b = 32 # xs" using sw(1) h(2) aw nw by (simp add: dropWhile_append2)
  then have "here b (skip_ws b (skip_word b ?q)) xs" using skip_ws_drop [OF sw(3)] nw by (simp add: here_def)
  moreover have "gettoken b s = (97, (?q, skip_word b ?q), skip_ws b (skip_word b ?q))"
    using c w(3) rd by (simp add: gettoken_def Let_def)
  ultimately show ?thesis using sl by blast
qed

text \<open>An operator of redirection, followed by its file.\<close>

lemma gettoken_redir:
  assumes "here b s (redir_op m @ f @ 32 # xs)" and "redir_ok m d" and "word_str f"
  shows "\<exists>w s'. gettoken b s = (if m = 0 then 60 else if m = 0x601 then 62 else 43, w, s') \<and> here b s' (f @ 32 # xs)"
proof (cases "m = 0")
  case True
  then show ?thesis using gettoken_op [of b s 60 "f @ 32 # xs"] assms(1) by (simp add: redir_op_def)
next
  case False
  let ?q = "skip_ws b s"
  obtain c f' where f: "f = c # f'" "wordc c" using assms(3) by (cases f) (auto simp: word_str_def)
  have "\<not> ws 62" by (simp add: ws_def)
  then have h: "?q \<le> length b" "drop ?q b = redir_op m @ f @ 32 # xs"
    using here_skip [OF assms(1)] False by (auto simp: redir_op_def)
  let ?k = "length (redir_op m)"
  have "length b - ?q = ?k + length (f @ 32 # xs)" using arg_cong [OF h(2), of length] by simp
  then have k1: "?q + ?k \<le> length b" using h(1) by linarith
  have "drop (?q + ?k) b = drop ?k (drop ?q b)" by (simp add: add.commute)
  then have k: "?q + ?k \<le> length b" "drop (?q + ?k) b = f @ 32 # xs" using k1 unfolding h(2) by simp_all
  have "rd b ?q = 62" using h(2) False by (simp add: rd_drop redir_op_def)
  moreover have "rd b (?q + 1) = (if m = 0x601 then c else 62)"
  proof -
    have d1: "drop (?q + 1) b = drop 1 (redir_op m @ f @ 32 # xs)" unfolding h(2) [symmetric] by simp
    show ?thesis unfolding rd_drop d1 using False f(1) by (simp add: redir_op_def)
  qed
  moreover have "c \<noteq> 62" using f(2) by (auto simp: wordc_def sym_def)
  ultimately have "gettoken b s = (if m = 0x601 then 62 else 43, (?q, ?q + ?k), skip_ws b (?q + ?k))"
    using False by (simp add: gettoken_def Let_def redir_op_def)
  moreover have "here b (skip_ws b (?q + ?k)) (f @ 32 # xs)" using skip_ws_drop [OF k(1)] k(2) by (simp add: here_def)
  ultimately show ?thesis using False by auto
qed

section \<open>Reading the text back\<close>

definition reads :: "uint8 list \<Rightarrow> (word_range cmd \<times> nat) parse \<Rightarrow> uint8 list cmd \<Rightarrow> uint8 list \<Rightarrow> bool" where
  "reads b r c xs \<longleftrightarrow> (\<exists>c' s'. r = Inr (c', s') \<and> map_cmd (slice b) c' = c \<and> here b s' xs)"

type_synonym redir = "uint8 list \<times> int \<times> int"

definition redirs_text :: "redir list \<Rightarrow> uint8 list" where
  "redirs_text rs = concat (map (\<lambda>(f, m, d). redir_op m @ f @ [32]) rs)"

definition redirs_ok :: "redir list \<Rightarrow> bool" where
  "redirs_ok rs \<longleftrightarrow> (\<forall>(f, m, d) \<in> set rs. word_str f \<and> redir_ok m d)"

definition wrap :: "uint8 list cmd \<Rightarrow> redir list \<Rightarrow> uint8 list cmd" where
  "wrap c rs = foldl (\<lambda>c (f, m, d). Redir c f m d) c rs"

lemma redirs_simps [simp]: "redirs_text [] = []" "redirs_text ((f, m, d) # rs) = redir_op m @ f @ 32 # redirs_text rs"
  "redirs_ok []" "redirs_ok ((f, m, d) # rs) \<longleftrightarrow> word_str f \<and> redir_ok m d \<and> redirs_ok rs"
  "wrap c [] = c" "wrap c ((f, m, d) # rs) = wrap (Redir c f m d) rs"
  by (simp_all add: redirs_text_def redirs_ok_def wrap_def)

lemma nxt_redir: "nxt (redir_op m @ xs) \<in> {60, 62}"
  by (auto simp: redir_op_def ws_def)

lemma nxt_word: "word_str w \<Longrightarrow> nxt (w @ xs) \<noteq> 0 \<and> wordc (nxt (w @ xs))"
  by (cases w) (auto simp: word_str_def wordc_def)

lemma parseredirs_reads:
  assumes "here b s (redirs_text rs @ xs)" and "redirs_ok rs" and "nxt xs \<notin> {60, 62}" and "length rs < n"
  shows "reads b (parseredirs n b c s) (wrap (map_cmd (slice b) c) rs) xs"
  using assms
proof (induction rs arbitrary: n c s)
  case Nil
  obtain s' where "peek b s ''<>'' = (nxt xs \<noteq> 0 \<and> among (bytes_of ''<>'') (nxt xs), s')" "here b s' xs"
    using peek_here [of b s xs] Nil.prems(1) by auto
  then show ?case using Nil.prems(3,4) by (cases n) (auto simp: reads_def bytes_of_def of_char_def)
next
  case (Cons r rs)
  obtain f m d where r: "r = (f, m, d)" using prod_cases3 by blast
  obtain k where n: "n = Suc k" using Cons.prems(4) by (cases n) auto
  have h: "here b s (redir_op m @ f @ 32 # redirs_text rs @ xs)" and ok: "word_str f" "redir_ok m d" "redirs_ok rs"
    using Cons.prems(1,2) r by simp_all
  obtain s1 where p: "peek b s ''<>'' = (True, s1)" "here b s1 (redir_op m @ f @ 32 # redirs_text rs @ xs)"
    using peek_here [OF h, of "''<>''"] nxt_redir [of m "f @ 32 # redirs_text rs @ xs"] by (auto simp: bytes_of_def of_char_def)
  obtain w s2 where g: "gettoken b s1 = (if m = 0 then 60 else if m = 0x601 then 62 else 43, w, s2)" "here b s2 (f @ 32 # redirs_text rs @ xs)"
    using gettoken_redir [OF p(2) ok(2,1)] by blast
  obtain v s3 where v: "gettoken b s2 = (97, v, s3)" "slice b v = f" "here b s3 (redirs_text rs @ xs)"
    using gettoken_word [OF g(2) ok(1)] by blast
  have "parseredirs n b c s = parseredirs k b (Redir c v m d) s3"
    using n p(1) g(1) v(1) ok(2) by (auto simp: redir_ok_def)
  then show ?case using Cons.IH [OF v(3) ok(3) Cons.prems(3), of k "Redir c v m d"] Cons.prems(4) n r v(2) by simp
qed

lemma parseargs_stop:
  assumes "here b s xs" and "nxt xs \<in> {0, 124, 41, 38, 59}" and "0 < n"
  shows "reads b (parseargs n b k c s) (map_cmd (slice b) c) xs"
proof -
  obtain m where n: "n = Suc m" using assms(3) by (cases n) auto
  obtain s1 where p: "peek b s ''|)&;'' = (nxt xs \<noteq> 0, s1)" "here b s1 xs"
    using peek_here [OF assms(1), of "''|)&;''"] assms(2) by (auto simp: bytes_of_def of_char_def)
  obtain w s2 where "nxt xs = 0 \<longrightarrow> gettoken b s1 = (0, w, s2) \<and> here b s2 xs" using gettoken_end [OF p(2)] by blast
  then show ?thesis using n p by (cases "nxt xs = 0") (auto simp: reads_def)
qed

lemma parseargs_reads:
  assumes "here b s (concat (map (\<lambda>w. w @ [32]) argv) @ redirs_text rs @ xs)" and "\<forall>w \<in> set argv. word_str w"
    and "argv \<noteq> []" and "length argv + k < MAXARGS" and "redirs_ok rs" and "nxt xs \<in> {0, 124, 41, 38, 59}"
    and "length argv + length rs + 1 < n"
  shows "reads b (parseargs n b k (Exec a) s) (wrap (Exec (map (slice b) a @ argv)) rs) xs"
  using assms
proof (induction argv arbitrary: n k a s)
  case (Cons w argv)
  let ?t = "concat (map (\<lambda>w. w @ [32]) argv) @ redirs_text rs @ xs"
  obtain m where n: "n = Suc m" using Cons.prems(7) by (cases n) auto
  have w: "word_str w" and h: "here b s (w @ 32 # ?t)" using Cons.prems(1,2) by simp_all
  obtain s1 where p: "peek b s ''|)&;'' = (False, s1)" "here b s1 (w @ 32 # ?t)"
    using peek_here [OF h, of "''|)&;''"] nxt_word [OF w, of "32 # ?t"] by (auto simp: bytes_of_def of_char_def wordc_def sym_def)
  obtain v s2 where v: "gettoken b s1 = (97, v, s2)" "slice b v = w" "here b s2 ?t" using gettoken_word [OF p(2) w] by blast
  show ?case
  proof (cases "argv = []")
    case True
    have "reads b (parseredirs m b (Exec (a @ [v])) s2) (wrap (map_cmd (slice b) (Exec (a @ [v]))) rs) xs"
      using v(3) True Cons.prems(5,6,7) n by (intro parseredirs_reads) auto
    then obtain c' s3 where r: "parseredirs m b (Exec (a @ [v])) s2 = Inr (c', s3)"
        "map_cmd (slice b) c' = wrap (Exec (map (slice b) a @ [w])) rs" "here b s3 xs"
      using v(2) by (auto simp: reads_def)
    have "reads b (parseargs m b (k + 1) c' s3) (map_cmd (slice b) c') xs"
      using parseargs_stop [OF r(3) Cons.prems(6)] Cons.prems(7) n by simp
    then show ?thesis using n p(1) v(1) r True Cons.prems(4) by simp
  next
    case False
    then obtain u us where u: "argv = u # us" by (cases argv) auto
    have "nxt ?t \<notin> {60, 62}" using nxt_word [of u] Cons.prems(2) u by (auto simp: wordc_def sym_def)
    then have "reads b (parseredirs m b (Exec (a @ [v])) s2) (map_cmd (slice b) (Exec (a @ [v]))) ?t"
      using parseredirs_reads [of b s2 "[]" ?t m "Exec (a @ [v])"] v(3) Cons.prems(7) n by simp
    then obtain c' s3 where r: "parseredirs m b (Exec (a @ [v])) s2 = Inr (c', s3)"
        "map_cmd (slice b) c' = Exec (map (slice b) a @ [w])" "here b s3 ?t"
      using v(2) by (auto simp: reads_def)
    then obtain a' where a': "c' = Exec a'" "map (slice b) a' = map (slice b) a @ [w]" by (cases c') auto
    have "reads b (parseargs m b (k + 1) (Exec a') s3) (wrap (Exec (map (slice b) a' @ argv)) rs) xs"
      using Cons.IH [OF r(3) _ False _ Cons.prems(5,6), of "k + 1" m a'] Cons.prems(2,4,7) n by simp
    then show ?thesis using n p(1) v(1) r(1) a' Cons.prems(4) False by simp
  qed
qed simp

section \<open>More fuel changes nothing\<close>

definition settles :: "'r parse \<Rightarrow> 'r parse \<Rightarrow> bool" where
  "settles r r' \<longleftrightarrow> r = Inl None \<or> r' = r"

lemma settles_refl: "settles r r" "settles (Inl None) r"
  by (simp_all add: settles_def)

lemma settles_prod: "(\<And>x y. settles (f x y) (g x y)) \<Longrightarrow> settles (case_prod f p) (case_prod g p)"
  by (cases p) simp

lemma settles_if: "settles r r' \<Longrightarrow> settles q q' \<Longrightarrow> settles (if P then r else q) (if P then r' else q')"
  by simp

lemma settles_sum: "settles r r' \<Longrightarrow> (\<And>x. settles (g x) (g' x)) \<Longrightarrow> settles (case_sum Inl g r) (case_sum Inl g' r')"
  by (cases r) (auto simp: settles_def)

lemmas settles_intros = settles_prod settles_if settles_sum settles_refl

lemma settles_redirs: "n \<le> m \<Longrightarrow> settles (parseredirs n b c s) (parseredirs m b c s)"
proof (induction n arbitrary: m c s)
  case (Suc n)
  then obtain k where k: "m = Suc k" "n \<le> k" by (cases m) auto
  show ?case unfolding k(1) parseredirs.simps by (intro settles_intros Suc.IH k(2))
qed (simp add: settles_refl)

lemma settles_args: "n \<le> m \<Longrightarrow> settles (parseargs n b i c s) (parseargs m b i c s)"
proof (induction n arbitrary: m i c s)
  case (Suc n)
  then obtain k where k: "m = Suc k" "n \<le> k" by (cases m) auto
  show ?case unfolding k(1) parseargs.simps by (intro settles_intros settles_redirs Suc.IH k(2))
qed (simp add: settles_refl)

lemma settles_back: "n \<le> m \<Longrightarrow> settles (parseback n b c s) (parseback m b c s)"
proof (induction n arbitrary: m c s)
  case (Suc n)
  then obtain k where k: "m = Suc k" "n \<le> k" by (cases m) auto
  show ?case unfolding k(1) parseback.simps by (intro settles_intros Suc.IH k(2))
qed (simp add: settles_refl)

lemma settles_parse:
  "n \<le> m \<Longrightarrow> settles (parseline n b s) (parseline m b s) \<and> settles (parsepipe n b s) (parsepipe m b s) \<and>
    settles (parseexec n b s) (parseexec m b s) \<and> settles (parseblock n b s) (parseblock m b s)"
proof (induction n arbitrary: m s)
  case (Suc n)
  then obtain k where k: "m = Suc k" "n \<le> k" by (cases m) auto
  have IH: "\<And>s. settles (parseline n b s) (parseline k b s)" "\<And>s. settles (parsepipe n b s) (parsepipe k b s)"
      "\<And>s. settles (parseexec n b s) (parseexec k b s)" "\<And>s. settles (parseblock n b s) (parseblock k b s)"
    using Suc.IH [OF k(2)] by blast+
  show ?case unfolding k(1) parseline.simps parsepipe.simps parseexec.simps parseblock.simps
    by (intro conjI settles_intros settles_redirs settles_args settles_back IH k(2))
qed (simp add: settles_refl)

lemmas settles_line = settles_parse [THEN conjunct1]
lemmas settles_pipe = settles_parse [THEN conjunct2, THEN conjunct1]
lemmas settles_exec = settles_parse [THEN conjunct2, THEN conjunct2, THEN conjunct1]

lemma settles_Inr: "settles r r' \<Longrightarrow> r = Inr x \<Longrightarrow> r' = Inr x"
  by (simp add: settles_def)

lemma reads_more: "reads b r c xs \<Longrightarrow> settles r r' \<Longrightarrow> reads b r' c xs"
  by (auto simp: reads_def settles_def)

section \<open>Each level of the grammar\<close>

text \<open>What each parsing function does on a text of its level; \<open>xs\<close> is the rest of the line.\<close>

definition exec_reads :: "uint8 list cmd \<Rightarrow> uint8 list \<Rightarrow> bool" where
  "exec_reads c t \<longleftrightarrow> (\<forall>b s rs xs. redirs_ok rs \<longrightarrow> nxt xs \<in> {0, 124, 41, 38, 59} \<longrightarrow>
     here b s (t @ redirs_text rs @ xs) \<longrightarrow> (\<exists>n. reads b (parseexec n b s) (wrap c rs) xs))"

definition pipe_reads :: "uint8 list cmd \<Rightarrow> uint8 list \<Rightarrow> bool" where
  "pipe_reads c t \<longleftrightarrow> (\<forall>b s xs. nxt xs \<in> {0, 41, 38, 59} \<longrightarrow> here b s (t @ xs) \<longrightarrow>
     (\<exists>n. reads b (parsepipe n b s) c xs))"

definition item_reads :: "uint8 list cmd \<Rightarrow> uint8 list \<Rightarrow> bool" where
  "item_reads c t \<longleftrightarrow> (\<forall>b s xs. nxt xs \<in> {0, 41, 38, 59} \<longrightarrow> here b s (t @ xs) \<longrightarrow>
     (\<exists>n p s0 k c' s1. parsepipe n b s = Inr (p, s0) \<and> (\<forall>m. parseback (k + m) b p s0 = parseback m b c' s1) \<and>
       map_cmd (slice b) c' = c \<and> here b s1 xs))"

definition line_reads :: "uint8 list cmd \<Rightarrow> uint8 list \<Rightarrow> bool" where
  "line_reads c t \<longleftrightarrow> (\<forall>b s xs. nxt xs \<in> {0, 41} \<longrightarrow> here b s (t @ xs) \<longrightarrow>
     (\<exists>n. reads b (parseline n b s) c xs))"

lemma peek_one:
  assumes "here b s xs"
  shows "\<exists>s'. peek b s [c] = (nxt xs \<noteq> 0 \<and> nxt xs = of_char c, s') \<and> here b s' xs"
proof -
  have "(nxt xs \<noteq> 0 \<and> among (bytes_of [c]) (nxt xs)) = (nxt xs \<noteq> 0 \<and> nxt xs = of_char c)"
    by (auto simp: bytes_of_def)
  then show ?thesis using peek_here [OF assms, of "[c]"] by simp
qed

lemma peek_is:
  assumes "here b s (x # xs)" and "x = of_char c" and "x \<noteq> 0" and "\<not> ws x"
  shows "\<exists>s'. peek b s [c] = (True, s') \<and> here b s' (x # xs)"
  using peek_one [OF assms(1), of c] assms(2-) by simp

lemma peek_isnt:
  assumes "here b s xs" and "nxt xs \<noteq> of_char c"
  shows "\<exists>s'. peek b s [c] = (False, s') \<and> here b s' xs"
  using peek_one [OF assms(1), of c] assms(2) by simp

lemma of_char_ops: "of_char CHR ''|'' = (124 :: uint8)" "of_char CHR ''('' = (40 :: uint8)" "of_char CHR '')'' = (41 :: uint8)"
  "of_char CHR ''&'' = (38 :: uint8)" "of_char CHR '';'' = (59 :: uint8)"
  by (simp_all add: of_char_def)

lemma pipe_exec:
  assumes "exec_reads c t"
  shows "pipe_reads c t"
  unfolding pipe_reads_def
proof (intro allI impI)
  fix b s xs assume x: "nxt xs \<in> {0, 41, 38, 59}" and h: "here b s (t @ xs)"
  obtain n c' s' where r: "parseexec n b s = Inr (c', s')" "map_cmd (slice b) c' = c" "here b s' xs"
    using assms [unfolded exec_reads_def, rule_format, of "[]" xs b s] x h by (auto simp: reads_def)
  obtain s1 where "peek b s' ''|'' = (False, s1)" "here b s1 xs"
    using peek_isnt [OF r(3), of "CHR ''|''"] x unfolding of_char_ops by auto
  then have "reads b (parsepipe (Suc n) b s) c xs" using r by (simp add: reads_def)
  then show "\<exists>n. reads b (parsepipe n b s) c xs" by blast
qed

lemma pipe_Pipe:
  assumes "exec_reads l t" and "pipe_reads r t'"
  shows "pipe_reads (Pipe l r) (t @ [124] @ t')"
  unfolding pipe_reads_def
proof (intro allI impI)
  fix b s xs assume x: "nxt xs \<in> {0, 41, 38, 59}" and h: "here b s ((t @ [124] @ t') @ xs)"
  have "nxt (124 # t' @ xs) = 124" by (simp add: ws_def)
  then obtain n c' s' where r: "parseexec n b s = Inr (c', s')" "map_cmd (slice b) c' = l" "here b s' (124 # t' @ xs)"
    using assms(1) [unfolded exec_reads_def, rule_format, of "[]" "124 # t' @ xs" b s] h by (auto simp: reads_def)
  obtain s1 where p: "peek b s' ''|'' = (True, s1)" "here b s1 (124 # t' @ xs)"
    using peek_is [OF r(3), of "CHR ''|''"] unfolding of_char_ops by (auto simp: ws_def)
  obtain w s2 where g: "gettoken b s1 = (124, w, s2)" "here b s2 (t' @ xs)" using gettoken_op [OF p(2)] by auto
  obtain m r' s3 where q: "parsepipe m b s2 = Inr (r', s3)" "map_cmd (slice b) r' = r" "here b s3 xs"
    using assms(2) x g(2) unfolding pipe_reads_def reads_def by blast
  let ?k = "n + m"
  have "parseexec ?k b s = Inr (c', s')" "parsepipe ?k b s2 = Inr (r', s3)"
    using settles_Inr [OF settles_exec r(1)] settles_Inr [OF settles_pipe q(1)] by simp_all
  then have "reads b (parsepipe (Suc ?k) b s) (Pipe l r) xs" using r p g q by (simp add: reads_def)
  then show "\<exists>n. reads b (parsepipe n b s) (Pipe l r) xs" by blast
qed

lemma item_pipe:
  assumes "pipe_reads c t"
  shows "item_reads c t"
  unfolding item_reads_def
proof (intro allI impI)
  fix b s xs assume "nxt xs \<in> {0, 41, 38, 59}" and "here b s (t @ xs)"
  then obtain n c' s' where "parsepipe n b s = Inr (c', s')" "map_cmd (slice b) c' = c" "here b s' xs"
    using assms unfolding pipe_reads_def reads_def by blast
  then have "parsepipe n b s = Inr (c', s') \<and> (\<forall>m. parseback (0 + m) b c' s' = parseback m b c' s') \<and>
      map_cmd (slice b) c' = c \<and> here b s' xs" by simp
  then show "\<exists>n p s0 k c' s1. parsepipe n b s = Inr (p, s0) \<and>
      (\<forall>m. parseback (k + m) b p s0 = parseback m b c' s1) \<and> map_cmd (slice b) c' = c \<and> here b s1 xs" by blast
qed

lemma item_Back:
  assumes "item_reads c t"
  shows "item_reads (Back c) (t @ [38])"
  unfolding item_reads_def
proof (intro allI impI)
  fix b s xs assume "here b s ((t @ [38]) @ xs)"
  then have h: "here b s (t @ 38 # xs)" by simp
  have "nxt (38 # xs) \<in> {0, 41, 38, 59}" by (simp add: ws_def)
  then obtain n p s0 k c' s1 where r: "parsepipe n b s = Inr (p, s0)"
      "\<And>m. parseback (k + m) b p s0 = parseback m b c' s1" "map_cmd (slice b) c' = c" "here b s1 (38 # xs)"
    using assms h unfolding item_reads_def by blast
  obtain s2 where k: "peek b s1 ''&'' = (True, s2)" "here b s2 (38 # xs)"
    using peek_is [OF r(4), of "CHR ''&''"] unfolding of_char_ops by (auto simp: ws_def)
  obtain w s3 where g: "gettoken b s2 = (38, w, s3)" "here b s3 xs" using gettoken_op [OF k(2)] by auto
  have "parseback (Suc k + m) b p s0 = parseback m b (Back c') s3" for m using r(2) [of "Suc m"] k g by simp
  then have "parsepipe n b s = Inr (p, s0) \<and> (\<forall>m. parseback (Suc k + m) b p s0 = parseback m b (Back c') s3) \<and>
      map_cmd (slice b) (Back c') = Back c \<and> here b s3 xs" using r g by simp
  then show "\<exists>n p s0 k c' s1. parsepipe n b s = Inr (p, s0) \<and>
      (\<forall>m. parseback (k + m) b p s0 = parseback m b c' s1) \<and> map_cmd (slice b) c' = Back c \<and> here b s1 xs" by blast
qed

text \<open>An item with what ends it: \<open>parsepipe\<close> and then the loop for the ampersands.\<close>

lemma item_end:
  assumes "item_reads c t" and "nxt xs \<in> {0, 41, 59}" and "here b s (t @ xs)"
  obtains n p s0 c' s1 where "\<And>m. n \<le> m \<Longrightarrow> parsepipe m b s = Inr (p, s0)" "\<And>m. n \<le> m \<Longrightarrow> parseback m b p s0 = Inr (c', s1)"
    "map_cmd (slice b) c' = c" "here b s1 xs"
proof -
  obtain n p s0 k c' s1 where r: "parsepipe n b s = Inr (p, s0)"
      "\<And>m. parseback (k + m) b p s0 = parseback m b c' s1" "map_cmd (slice b) c' = c" "here b s1 xs"
    using assms unfolding item_reads_def by blast
  obtain s2 where s2: "peek b s1 ''&'' = (False, s2)" "here b s2 xs"
    using peek_isnt [OF r(4), of "CHR ''&''"] assms(2) unfolding of_char_ops by auto
  have "parseback (k + 1) b p s0 = Inr (c', s2)" using r(2) [of 1] s2 by simp
  then have "n + k + 1 \<le> m \<Longrightarrow> parseback m b p s0 = Inr (c', s2)" "n + k + 1 \<le> m \<Longrightarrow> parsepipe m b s = Inr (p, s0)" for m
    using settles_Inr [OF settles_back] settles_Inr [OF settles_pipe r(1)] by (meson add_leD2 le_add1 order_trans add_mono order_refl)+
  then show thesis using that r(3) s2(2) by blast
qed

lemma line_item:
  assumes "item_reads c t"
  shows "line_reads c t"
  unfolding line_reads_def
proof (intro allI impI)
  fix b s xs assume x: "nxt xs \<in> {0, 41}" and h: "here b s (t @ xs)"
  then have "nxt xs \<in> {0, 41, 59}" by auto
  then obtain n p s0 c' s1 where r: "\<And>m. n \<le> m \<Longrightarrow> parsepipe m b s = Inr (p, s0)"
      "\<And>m. n \<le> m \<Longrightarrow> parseback m b p s0 = Inr (c', s1)" "map_cmd (slice b) c' = c" "here b s1 xs"
    using item_end [OF assms _ h] by blast
  obtain s2 where "peek b s1 '';'' = (False, s2)" "here b s2 xs"
    using peek_isnt [OF r(4), of "CHR '';''"] x unfolding of_char_ops by auto
  then have "reads b (parseline (Suc n) b s) c xs" using r by (simp add: reads_def)
  then show "\<exists>n. reads b (parseline n b s) c xs" by blast
qed

lemma line_List:
  assumes "item_reads l t" and "line_reads r t'"
  shows "line_reads (List l r) (t @ [59] @ t')"
  unfolding line_reads_def
proof (intro allI impI)
  fix b s xs assume x: "nxt xs \<in> {0, 41}" and "here b s ((t @ [59] @ t') @ xs)"
  then have h: "here b s (t @ 59 # t' @ xs)" by simp
  have "nxt (59 # t' @ xs) \<in> {0, 41, 59}" by (simp add: ws_def)
  then obtain n p s0 c' s1 where r: "\<And>m. n \<le> m \<Longrightarrow> parsepipe m b s = Inr (p, s0)"
      "\<And>m. n \<le> m \<Longrightarrow> parseback m b p s0 = Inr (c', s1)" "map_cmd (slice b) c' = l" "here b s1 (59 # t' @ xs)"
    using item_end [OF assms(1) _ h] by blast
  obtain s2 where k: "peek b s1 '';'' = (True, s2)" "here b s2 (59 # t' @ xs)"
    using peek_is [OF r(4), of "CHR '';''"] unfolding of_char_ops by (auto simp: ws_def)
  obtain w s3 where g: "gettoken b s2 = (59, w, s3)" "here b s3 (t' @ xs)" using gettoken_op [OF k(2)] by auto
  obtain m r' s4 where q: "parseline m b s3 = Inr (r', s4)" "map_cmd (slice b) r' = r" "here b s4 xs"
    using assms(2) x g(2) unfolding line_reads_def reads_def by blast
  have "parseline (n + m) b s3 = Inr (r', s4)" using settles_Inr [OF settles_line q(1)] by simp
  then have "reads b (parseline (Suc (n + m)) b s) (List l r) xs" using r k g q by (simp add: reads_def)
  then show "\<exists>n. reads b (parseline n b s) (List l r) xs" by blast
qed

lemma exec_block:
  assumes "line_reads c t"
  shows "exec_reads c ([40] @ t @ [41])"
  unfolding exec_reads_def
proof (intro allI impI)
  fix b s rs xs assume rs: "redirs_ok rs" and x: "nxt xs \<in> {0, 124, 41, 38, 59}"
    and "here b s (([40] @ t @ [41]) @ redirs_text rs @ xs)"
  then have h: "here b s (40 # t @ 41 # redirs_text rs @ xs)" by simp
  obtain s1 where p1: "peek b s ''('' = (True, s1)" "here b s1 (40 # t @ 41 # redirs_text rs @ xs)"
    using peek_is [OF h, of "CHR ''(''"] unfolding of_char_ops by (auto simp: ws_def)
  obtain s2 where p2: "peek b s1 ''('' = (True, s2)" "here b s2 (40 # t @ 41 # redirs_text rs @ xs)"
    using peek_is [OF p1(2), of "CHR ''(''"] unfolding of_char_ops by (auto simp: ws_def)
  obtain w s3 where g: "gettoken b s2 = (40, w, s3)" "here b s3 (t @ 41 # redirs_text rs @ xs)"
    using gettoken_op [OF p2(2)] by auto
  have "nxt (41 # redirs_text rs @ xs) \<in> {0, 41}" by (simp add: ws_def)
  then obtain n c' s4 where r: "parseline n b s3 = Inr (c', s4)" "map_cmd (slice b) c' = c" "here b s4 (41 # redirs_text rs @ xs)"
    using assms g(2) unfolding line_reads_def reads_def by blast
  obtain s5 where p5: "peek b s4 '')'' = (True, s5)" "here b s5 (41 # redirs_text rs @ xs)"
    using peek_is [OF r(3), of "CHR '')''"] unfolding of_char_ops by (auto simp: ws_def)
  obtain v s6 where g6: "gettoken b s5 = (41, v, s6)" "here b s6 (redirs_text rs @ xs)"
    using gettoken_op [OF p5(2)] by auto
  define k where "k = Suc (n + length rs)"
  then have k: "n \<le> k" "length rs < k" by simp_all
  have "reads b (parseredirs k b c' s6) (wrap c rs) xs"
    using parseredirs_reads [OF g6(2) rs _ k(2), of c'] x r(2) by auto
  moreover have "parseline k b s3 = Inr (c', s4)" by (rule settles_Inr [OF settles_line [OF k(1)] r(1)])
  ultimately have "reads b (parseexec (Suc (Suc k)) b s) (wrap c rs) xs" using p1 p2 g p5 g6 by simp
  then show "\<exists>n. reads b (parseexec n b s) (wrap c rs) xs" by blast
qed

lemma exec_Redir:
  assumes "exec_reads c t" and "word_str f" and "redir_ok m d"
  shows "exec_reads (Redir c f m d) (t @ redir_op m @ f @ [32])"
  unfolding exec_reads_def
proof (intro allI impI)
  fix b s rs xs assume "redirs_ok rs" and x: "nxt xs \<in> {0, 124, 41, 38, 59}"
    and "here b s ((t @ redir_op m @ f @ [32]) @ redirs_text rs @ xs)"
  then have "redirs_ok ((f, m, d) # rs)" "here b s (t @ redirs_text ((f, m, d) # rs) @ xs)" using assms(2,3) by simp_all
  then have "\<exists>n. reads b (parseexec n b s) (wrap c ((f, m, d) # rs)) xs" using assms(1) x unfolding exec_reads_def by blast
  then show "\<exists>n. reads b (parseexec n b s) (wrap (Redir c f m d) rs) xs" by simp
qed

lemma nxt_redirs: "nxt (redirs_text rs @ xs) \<in> {60, 62, nxt xs}"
proof (cases rs)
  case (Cons r rs')
  then show ?thesis using nxt_redir [of "fst (snd r)" "fst r @ 32 # redirs_text rs' @ xs"] by (cases r) auto
qed simp

lemma exec_Exec:
  assumes "length argv < MAXARGS" and "\<forall>w \<in> set argv. word_str w"
  shows "exec_reads (Exec argv) (concat (map (\<lambda>w. w @ [32]) argv))"
  unfolding exec_reads_def
proof (intro allI impI)
  let ?a = "concat (map (\<lambda>w. w @ [32]) argv)"
  fix b s rs xs assume rs: "redirs_ok rs" and x: "nxt xs \<in> {0, 124, 41, 38, 59}" and h: "here b s (?a @ redirs_text rs @ xs)"
  let ?t = "?a @ redirs_text rs @ xs" let ?n = "length argv + length rs + 2"
  have word: "nxt ?t \<noteq> 0 \<and> wordc (nxt ?t)" if "argv \<noteq> []"
    using that assms(2) nxt_word by (cases argv) auto
  have "nxt ?t \<noteq> 40"
  proof (cases "argv = []")
    case True then show ?thesis using nxt_redirs [of rs xs] x by auto
  next
    case False then show ?thesis using word by (auto simp: wordc_def sym_def)
  qed
  then obtain s1 where s1: "peek b s ''('' = (False, s1)" "here b s1 ?t"
    using peek_isnt [OF h, of "CHR ''(''"] unfolding of_char_ops by blast
  have "\<exists>c' s2. parseredirs ?n b (Exec []) s1 = Inr (c', s2) \<and> reads b (parseargs ?n b 0 c' s2) (wrap (Exec argv) rs) xs"
  proof (cases "argv = []")
    case True
    then have "reads b (parseredirs ?n b (Exec []) s1) (wrap (Exec []) rs) xs"
      using parseredirs_reads [of b s1 rs xs ?n "Exec []"] s1(2) rs x by auto
    then obtain c' s2 where c: "parseredirs ?n b (Exec []) s1 = Inr (c', s2)" "map_cmd (slice b) c' = wrap (Exec []) rs" "here b s2 xs"
      unfolding reads_def by blast
    then show ?thesis using parseargs_stop [OF c(3) x, of ?n 0 c'] True by simp
  next
    case False
    then have "nxt ?t \<notin> {60, 62}" using word by (auto simp: wordc_def sym_def)
    then have "reads b (parseredirs ?n b (Exec []) s1) (Exec []) ?t"
      using parseredirs_reads [of b s1 "[]" ?t ?n "Exec []"] s1(2) by simp
    then obtain c' s2 where c: "parseredirs ?n b (Exec []) s1 = Inr (c', s2)" "map_cmd (slice b) c' = Exec []" "here b s2 ?t"
      unfolding reads_def by blast
    then have "c' = Exec []" by (cases c') auto
    then show ?thesis using c(1) parseargs_reads [OF c(3) assms(2) False _ rs x, of 0 ?n "[]"] assms(1) by auto
  qed
  then have "reads b (parseexec (Suc ?n) b s) (wrap (Exec argv) rs) xs" using s1(1) by auto
  then show "\<exists>n. reads b (parseexec n b s) (wrap (Exec argv) rs) xs" by blast
qed

lemma cmd_reads:
  "cmd_ok c \<Longrightarrow> exec_reads c (show_exec c) \<and> pipe_reads c (show_pipe c) \<and> item_reads c (show_item c) \<and> line_reads c (show_line c)"
proof (induction c)
  case (Exec argv)
  then show ?case using exec_Exec [of argv] pipe_exec item_pipe line_item by simp
next
  case (Redir c f m d)
  then show ?case using exec_Redir [of c "show_exec c" f m d] pipe_exec item_pipe line_item by simp
next
  case (Pipe l r)
  then have "pipe_reads (Pipe l r) (show_pipe (Pipe l r))" using pipe_Pipe [of l "show_exec l" r "show_pipe r"] by simp
  then show ?case using item_pipe line_item exec_block [of "Pipe l r" "show_pipe (Pipe l r)"] by simp
next
  case (List l r)
  then have "line_reads (List l r) (show_line (List l r))" using line_List [of l "show_item l" r "show_line r"] by simp
  then show ?case using pipe_exec item_pipe exec_block [of "List l r" "show_line (List l r)"] by simp
next
  case (Back c)
  then have "item_reads (Back c) (show_item (Back c))" using item_Back [of c "show_item c"] by simp
  then show ?case using pipe_exec line_item exec_block [of "Back c" "show_item (Back c)"] by simp
qed

section \<open>Properties of the shell\<close>

lemma parse_ends: "good b 0 (parseline (parse_depth b) b 0)"
  using parse_good [of 0 b "parse_depth b"] by (simp add: parse_depth_def)

lemma parse_enough: "parse_depth b \<le> n \<Longrightarrow> parseline n b 0 = parseline (parse_depth b) b 0"
  using settles_line [of "parse_depth b" n b 0] parse_ends [of b] by (auto simp: settles_def good_def)

lemma line_result:
  assumes "parseline n b 0 = Inr (c, s)"
  shows "parseline (parse_depth b) b 0 = Inr (c, s)"
proof -
  have "parseline (parse_depth b + n) b 0 = Inr (c, s)" using settles_Inr [OF settles_line assms] by simp
  then show ?thesis using parse_enough [of b "parse_depth b + n"] by simp
qed

lemma slice_split:
  assumes "p \<le> q" and "q \<le> length b"
  shows "b = take p b @ slice b (p, q) @ drop q b"
proof -
  have "take q b = take p b @ take (q - p) (drop p b)" using take_add [of p "q - p" b] assms(1) by simp
  then show ?thesis using append_take_drop_id [of q b] by (simp add: slice_def drop_take)
qed

lemma word_slice:
  assumes "word_ok b w" and "0 \<notin> set b"
  shows "word_str (slice b w) \<and> (\<exists>p q. b = p @ slice b w @ q)"
proof -
  have w: "fst w < snd w" "snd w \<le> length b" "\<And>i. fst w \<le> i \<Longrightarrow> i < snd w \<Longrightarrow> wordc (b ! i)"
    using assms(1) by (auto simp: word_ok_def)
  have "b = take (fst w) b @ slice b w @ drop (snd w) b" using slice_split [of "fst w" "snd w" b] w(1,2) by simp
  moreover have "word_str (slice b w)"
    unfolding word_str_def
  proof (intro conjI ballI)
    show "slice b w \<noteq> []" using w(1,2) by (simp add: slice_def)
    fix c assume "c \<in> set (slice b w)"
    then obtain j where "j < snd w - fst w" "c = b ! (fst w + j)" using w(1,2) by (auto simp: slice_def in_set_conv_nth)
    then obtain i where i: "fst w \<le> i" "i < snd w" "c = b ! i" using that [of "fst w + j"] by auto
    then have "c \<in> set b" using w(2) nth_mem [of i b] by simp
    then show "c \<noteq> 0" using assms(2) by auto
    show "wordc c" using w(3) i by simp
  qed
  ultimately show ?thesis by blast
qed

lemma redir_op_chars: "c \<in> set (redir_op m) \<Longrightarrow> c \<noteq> 0"
  by (auto simp: redir_op_def split: if_splits)

lemma show_nonzero:
  "cmd_ok c \<Longrightarrow> 0 \<notin> set (show_line c) \<and> 0 \<notin> set (show_item c) \<and> 0 \<notin> set (show_pipe c) \<and> 0 \<notin> set (show_exec c)"
  by (induction c) (auto simp: word_str_def dest: redir_op_chars)

lemma parsecmd_apply:
  assumes "parseline (parse_depth b) b 0 = Inr (c, s)" and "0 \<notin> set b" and "snd (peek b s '''') = length b"
  shows "parsecmd b w e = Ret (map_cmd (slice b) c) w e"
proof -
  have "map_cmd (cstring (nulterminate c (b @ [0]))) c = map_cmd (slice b) c"
    using cstring_slice [OF assms(2)] parse_ends [of b] assms(1) by (intro cmd.map_cong0) auto
  then show ?thesis using assms(1,3) by (simp add: parsecmd_def Let_def ret_apply)
qed

lemma parsecmd_show:
  assumes "cmd_ok c"
  shows "parsecmd (show_line c) w e = Ret c w e"
proof -
  let ?b = "show_line c"
  have "here ?b 0 (?b @ [])" by (simp add: here_def)
  then obtain n c' s where r: "parseline n ?b 0 = Inr (c', s)" "map_cmd (slice ?b) c' = c" "here ?b s []"
    using cmd_reads [OF assms] unfolding line_reads_def reads_def by (metis insertI1 nxt_Nil)
  have "snd (peek ?b s '''') = length ?b"
    using here_skip [OF r(3)] by (simp add: peek_def Let_def)
  then show ?thesis using parsecmd_apply [OF line_result [OF r(1)], of w e] show_nonzero [OF assms] r(2) by simp
qed

text \<open>
  (C19) The shell reads back what a command is written as: for every command whose words are words and whose
  redirections are the three the shell has, \<open>parsecmd\<close> on its text gives exactly that command. So pipes bind
  tighter than \<^verbatim>\<open>;\<close> and \<^verbatim>\<open>&\<close>, parentheses group, redirections wrap the command in the order they are written, and
  \<open>nulterminate\<close> cuts every word at its end.
\<close>

theorem parse_round_trip:
  assumes "cmd_ok c"
  shows "parsecmd (show_line c) w e = Ret c w e"
  by (rule parsecmd_show [OF assms])

theorem parse_round_trip_witness:
  "cmd_ok (List (Back (Pipe (Exec [bytes_of ''ls'']) (Redir (Exec [bytes_of ''wc'', bytes_of ''-l'']) (bytes_of ''out'') 0x601 1))) (Exec [])) \<and>
   parsecmd (show_line (List (Back (Pipe (Exec [bytes_of ''ls'']) (Redir (Exec [bytes_of ''wc'', bytes_of ''-l'']) (bytes_of ''out'') 0x601 1))) (Exec [])))
     \<lparr>ker = (\<lambda>_ _. \<lparr>rv = 0, rbytes = []\<rparr>), tr = [], ended = None, ufuel = 0\<rparr> [] =
   Ret (List (Back (Pipe (Exec [bytes_of ''ls'']) (Redir (Exec [bytes_of ''wc'', bytes_of ''-l'']) (bytes_of ''out'') 0x601 1))) (Exec []))
     \<lparr>ker = (\<lambda>_ _. \<lparr>rv = 0, rbytes = []\<rparr>), tr = [], ended = None, ufuel = 0\<rparr> []"
proof -
  have ok: "cmd_ok (List (Back (Pipe (Exec [bytes_of ''ls'']) (Redir (Exec [bytes_of ''wc'', bytes_of ''-l'']) (bytes_of ''out'') 0x601 1))) (Exec []))"
    by (simp add: word_str_def wordc_def ws_def sym_def bytes_of_def of_char_def redir_ok_def)
  show ?thesis using ok parse_round_trip [OF ok] by blast
qed

text \<open>
  (C20) The parser ends on every line: the nesting of its calls is bounded by four for each character and
  five more, and with any greater bound the outcome is the same, a command or one of the messages of the parser.
\<close>

theorem parse_terminates:
  assumes "4 * length b + 5 \<le> n"
  shows "parseline n b 0 \<noteq> Inl None \<and> parseline n b 0 = parseline (parse_depth b) b 0"
  using parse_enough [of b n] parse_ends [of b] assms by (auto simp: parse_depth_def good_def)

theorem parse_terminates_witness:
  "parseline 50 (bytes_of ''(a;b)|c'') 0 \<noteq> Inl None \<and>
   parseline 50 (bytes_of ''(a;b)|c'') 0 = parseline (parse_depth (bytes_of ''(a;b)|c'')) (bytes_of ''(a;b)|c'') 0"
  by (rule parse_terminates) (simp add: bytes_of_def)

lemma ends_no_ret: "ends m \<Longrightarrow> m w e \<noteq> Ret a w' e'"
  unfolding ends_def by (metis res.distinct(3))

lemma parsecmd_ret:
  assumes "parsecmd b w e = Ret c w' e'"
  shows "\<exists>c' s. parseline (parse_depth b) b 0 = Inr (c', s) \<and> c = map_cmd (cstring (nulterminate c' (b @ [0]))) c'"
proof (cases "parseline (parse_depth b) b 0")
  case (Inl m)
  then show ?thesis using assms by (cases m) (auto simp: parsecmd_def blocked_apply ends_no_ret [OF ends_panic])
next
  case (Inr r)
  obtain c' s where r: "r = (c', s)" by (cases r)
  have "ends (bind (fprintf 2 (''leftovers: %s'' @ [CHR 0x0A]) [UStr (Some x)]) (\<lambda>_. panic_u ''syntax'') :: ('a world_scheme, uint8 list cmd) kmon)" for x
    by (intro ends_bind ends_panic returns_complain)
  then show ?thesis using assms Inr r by (auto simp: parsecmd_def Let_def ret_apply ends_no_ret split: if_splits)
qed

text \<open>
  (C21) What \<open>parsecmd\<close> hands to \<open>runcmd\<close>: every argument and file name is a part of the line, is not empty, and has
  no blank, no zero and none of the symbols of the shell in it.
\<close>

theorem parsecmd_words:
  assumes "0 \<notin> set b" and "parsecmd b w e = Ret c w' e'" and "x \<in> set_cmd c"
  shows "x \<noteq> [] \<and> set x \<inter> set whitespace = {} \<and> set x \<inter> set symbols = {} \<and> (\<exists>p q. b = p @ x @ q)"
proof -
  obtain c' s where c': "parseline (parse_depth b) b 0 = Inr (c', s)" "c = map_cmd (cstring (nulterminate c' (b @ [0]))) c'"
    using parsecmd_ret [OF assms(2)] by blast
  then have ok: "\<forall>v \<in> set_cmd c'. word_ok b v" using parse_ends [of b] by simp
  obtain v where "v \<in> set_cmd c'" "x = cstring (nulterminate c' (b @ [0])) v" using c'(2) assms(3) by (auto simp: cmd.set_map)
  then have "word_str x" "\<exists>p q. b = p @ x @ q" using cstring_slice [OF assms(1) ok] word_slice [OF _ assms(1)] ok by auto
  then show ?thesis
    by (auto simp: word_str_def wordc_def ws_def sym_def whitespace_def symbols_def bytes_of_def of_char_def)
qed

theorem parsecmd_words_witness:
  "bytes_of ''ls'' \<noteq> [] \<and> set (bytes_of ''ls'') \<inter> set whitespace = {} \<and> set (bytes_of ''ls'') \<inter> set symbols = {} \<and>
   (\<exists>p q. show_line (Pipe (Exec [bytes_of ''ls'']) (Exec [bytes_of ''wc''])) = p @ bytes_of ''ls'' @ q)"
proof (rule parsecmd_words)
  have ok: "cmd_ok (Pipe (Exec [bytes_of ''ls'']) (Exec [bytes_of ''wc'']))"
    by (simp add: word_str_def wordc_def ws_def sym_def bytes_of_def of_char_def)
  show "0 \<notin> set (show_line (Pipe (Exec [bytes_of ''ls'']) (Exec [bytes_of ''wc''])))" using show_nonzero [OF ok] by blast
  show "parsecmd (show_line (Pipe (Exec [bytes_of ''ls'']) (Exec [bytes_of ''wc'']))) \<lparr>ker = (\<lambda>_ _. \<lparr>rv = 0, rbytes = []\<rparr>), tr = [], ended = None, ufuel = 0\<rparr> [] =
      Ret (Pipe (Exec [bytes_of ''ls'']) (Exec [bytes_of ''wc''])) \<lparr>ker = (\<lambda>_ _. \<lparr>rv = 0, rbytes = []\<rparr>), tr = [], ended = None, ufuel = 0\<rparr> []"
    by (rule parsecmd_show [OF ok])
qed simp

text \<open>
  (C22) \<open>runcmd\<close> never returns: whatever the kernel answers, each process it starts ends by \<open>exit\<close> or by becoming
  another program, so a child of the shell never goes on to read the shell's input.
\<close>

theorem runcmd_never_returns:
  "\<exists>w'. runcmd c w e = Blocked w' \<and> ended w' \<noteq> None"
  using runcmd_ends [of c] unfolding ends_def by blast

end
