(* ===== verification/Spec2Isabelle.thy ===== *)
theory Spec2Isabelle
  imports Pagetable Atomic Boot Grep Utils Shprint
begin

text \<open>
  A verification library for xv6 for RISC-V: the kernel under \<^verbatim>\<open>src/kernel\<close> and the user programs
  under \<^verbatim>\<open>src/user\<close>.

  \<^bold>\<open>How the code is translated.\<close> Every C function is a definition of the same name. Kernel code is a
  computation of the monad \<open>kmon\<close> of \<open>Prelude\<close>: it takes the state and the list of steps that other
  CPUs and devices take when this one waits, and ends in \<open>Ret\<close> (it returns), \<open>Panic\<close> (it calls
  \<^verbatim>\<open>panic\<close>, with the message) or \<open>Blocked\<close> (it waits for something that has not happened: a lock, a
  wakeup, an interrupt). Loops over a fixed table are \<open>for_each\<close> and \<open>for_find\<close>; other loops are
  recursive functions with a termination proof, \<open>partial_function (option)\<close>, or \<open>loop\<close> with a bound
  computed from the arguments. The state is a tower of records, one for each component, so that a
  component's functions work on every state that extends its own. Machine integers are words of
  their width. Physical memory is a function from addresses to bytes; page tables, the free list and
  trapframes live in it. Structures that the kernel reaches by pointer only are entries of tables.

  \<^bold>\<open>The kernel\<close>, bottom up:
  \<^item> \<open>Riscv\<close>: registers of the harts, \<^verbatim>\<open>riscv.h\<close>, \<^verbatim>\<open>memlayout.h\<close>, \<^verbatim>\<open>param.h\<close>.
  \<^item> \<open>Spinlock\<close>: \<^verbatim>\<open>spinlock.c\<close>; also the interleaving of the machine steps of several CPUs, for mutual exclusion.
  \<^item> \<open>Kstring\<close>: \<^verbatim>\<open>string.c\<close>. \<open>Kalloc\<close>: \<^verbatim>\<open>kalloc.c\<close>, the free list abstracted to a list of pages.
  \<^item> \<open>Vm\<close>: \<^verbatim>\<open>vm.c\<close>; \<open>Pagetable\<close>: what \<open>walk\<close>, \<open>mappages\<close>, \<open>copyout\<close> and \<open>copyin\<close> do to well-formed tables.
  \<^item> \<open>Sched\<close>: the process table, \<open>sleep\<close>, \<open>wakeup\<close>, \<open>sched\<close> and the scheduler of \<^verbatim>\<open>proc.c\<close>.
  \<^item> \<open>Uart\<close>, \<open>Printf\<close>, \<open>Console\<close>: the serial line, \<open>printf\<close> and the line discipline; \<open>Printing\<close> shows what
    reaches the line, \<open>Serial\<close> that the two ring buffers implement queues.
  \<^item> \<open>Sleeplock\<close>, \<open>Virtio\<close>: \<^verbatim>\<open>sleeplock.c\<close> and the disk driver \<^verbatim>\<open>virtio_disk.c\<close>.
  \<^item> \<open>Kstate\<close>: the on-disk structures and the tables of the file system; \<open>Bio\<close>, \<open>Log\<close>, \<open>Fs\<close>, \<open>Pipe\<close>, \<open>File\<close>:
    the files of the same names.
  \<^item> \<open>Diskio\<close>, \<open>Cache\<close>, \<open>Crash\<close>, \<open>Recovery\<close>, \<open>Atomic\<close>: proofs about the disk driver, the buffer cache and the log. \<open>Diskio\<close> has the interface
    \<open>block_device\<close>, a disk that completes the request in its queue, and shows that \<open>virtio_disk_rw\<close> returns with the
    block transferred; \<open>Cache\<close> reads the cache as a view (the blocks in use, pinned, their contents and the disk) and
    gives each operation's effect on it; \<open>Crash\<close> does so for the loops of the log, with a triple \<open>works\<close> whose last part
    says what the disk holds when the run is cut off. \<open>Recovery\<close> says what a disk stands for while a transaction is
    written, and proves it for \<open>commit\<close>, \<open>end_op\<close> and \<open>initlog\<close>; \<open>Atomic\<close> has the theorems: a system call's changes reach
    the disk together or not at all, in spite of any number of crashes.
  \<^item> \<open>Proc\<close>, \<open>Exec\<close>, \<open>Syscall\<close>, \<open>Sysfile\<close>, \<open>Trap\<close>, \<open>Boot\<close>: processes, \<open>exec\<close>, system calls, traps, start-up.

  \<^bold>\<open>User programs\<close> are computations of the same monad over a \<open>world\<close>: the answers of the kernel to their
  system calls, an arbitrary function of the calls so far, and the calls made.
  \<^item> \<open>Uproc\<close>: \<^verbatim>\<open>ulib.c\<close> and \<^verbatim>\<open>printf.c\<close>; \<open>Ulib\<close> proves their properties.
  \<^item> \<open>Grep\<close>: the matcher and its declarative meaning, and what \<open>grep\<close> writes. \<open>Utils\<close>: the small programs.
  \<^item> \<open>Sh\<close>: the shell; \<open>Shparse\<close>: bounds of the parser and the words it makes; \<open>Shprint\<close>: it reads back what commands
    are written as.

  \<^bold>\<open>Shared tools.\<close> \<open>Locked\<close>: symbolic execution of code between \<open>acquire\<close> and \<open>release\<close>. \<open>Ring\<close>: the interface
  \<open>bounded_queue\<close> and its implementation by two counters.

  \<^bold>\<open>Bounds.\<close> \<open>wait_loop\<close> takes one step of the environment in each round, so its bound is the number of steps
  that are given; \<open>parse_depth\<close> is proved to be enough for every line; the reading loops of user programs
  have the number of rounds as a field of the world, and their theorems ask for as many as there are bytes of input.

  \<^bold>\<open>Not modelled.\<close> The assembly files: register saves and mode switches have no counterpart in the state of the
  C code, which sees them as jumps and as a switch of the schedule. \<^verbatim>\<open>ramdisk.c\<close>: not part of the build.
  \<^verbatim>\<open>usertests.c\<close> and \<^verbatim>\<open>grind.c\<close>: tests of the kernel, with no contract of their own. Timing, the
  memory model of the hardware (every access is one atomic step) and the devices themselves, whose answers are
  parameters.
\<close>

end
